(* ===== verification/Veh_Prelude.thy ===== *)
theory Veh_Prelude
  imports Main "HOL-Library.Word" "HOL-Library.List_Lexorder" "HOL-Library.Char_ord"
    "HOL-Library.Multiset"
begin

text \<open>
  Shared vocabulary of the development: the error type of the crate
  (\<^verbatim>\<open>src/error.rs\<close>), the result monad that models \<open>Result<T, Error>\<close> and the \<open>?\<close>
  operator, the decimal printer behind Rust's \<open>{}\<close> for unsigned integers, and the generic
  lemmas on lists, association lists and sorting that the components share.

  Strings and byte vectors are both HOL \<open>string\<close>s: a HOL \<open>char\<close> is exactly one byte, a Rust
  \<open>String\<close> is its UTF-8 byte sequence, and the library order of \<open>List_Lexorder\<close> over
  \<open>Char_ord\<close> is the bytewise order Rust uses to compare strings.
\<close>

named_theorems res_simps \<open>evaluation of the result monad\<close>
named_theorems veh_wf \<open>well-formedness facts of the model's data\<close>

type_synonym bytes = string
type_synonym u32 = "32 word"
type_synonym u64 = "64 word"


section \<open>Errors\<close>

text \<open>
  What a failed JSON decoding reports. \<open>serde_json::Error\<close> is an opaque third-party value; the
  model keeps the reason class that the documentation of serde's \<open>de::Error\<close> names.
\<close>

datatype json_fault =
    Missing_Field string
  | Invalid_Type string
  | Unknown_Variant string
  | Invalid_Length nat
  | Custom_Fault string

text \<open>
  The variants of \<open>Error\<close>, in source order. \<open>Panic\<close> is not a variant of the Rust enum: it is the
  unwinding that an arithmetic overflow starts in a build with overflow checks, or an \<open>unwrap\<close> of an
  error in any build.
\<close>

datatype veh_error =
    Canonical string
  | HashMismatch string string
  | SignatureInvalid string
  | InvalidKey string
  | PolicyDenied string
  | EvaluatorError string
  | LedgerError string
  | NotFound string
  | MissingParent
  | Json json_fault
  | Io string
  | Panic string

abbreviation Overflow_Panic :: veh_error where
  "Overflow_Panic \<equiv> Panic ''attempt to add with overflow''"

definition is_panic :: "veh_error \<Rightarrow> bool" where
  "is_panic e \<longleftrightarrow> (case e of Panic _ \<Rightarrow> True | _ \<Rightarrow> False)"

lemma is_panic_simps [simp]:
  "is_panic (Canonical a)  = False" "is_panic (HashMismatch a b) = False" "is_panic (SignatureInvalid a) = False"
  "is_panic (InvalidKey a) = False" "is_panic (PolicyDenied a) = False" "is_panic (EvaluatorError a) = False"
  "is_panic (LedgerError a) = False" "is_panic (NotFound a) = False" "is_panic MissingParent = False"
  "is_panic (Json f) = False" "is_panic (Io a) = False" "is_panic (Panic a) = True"
  by (simp_all add: is_panic_def)

lemma is_panic_iff: "is_panic e \<longleftrightarrow> (\<exists>msg. e = Panic msg)"
  by (cases e) simp_all


section \<open>The result monad\<close>

type_synonym 'a res = "veh_error + 'a"

text \<open>\<open>res_bind m f\<close> is \<open>f(m?)\<close>: an error returns early, a value goes on.\<close>

definition res_bind :: "'e + 'a \<Rightarrow> ('a \<Rightarrow> 'e + 'b) \<Rightarrow> 'e + 'b" where
  "res_bind m f = (case m of Inl e \<Rightarrow> Inl e | Inr x \<Rightarrow> f x)"

lemma res_bind_simps [simp, res_simps]:
  "res_bind (Inl e) f = Inl e"
  "res_bind (Inr x) f = f x"
  by (simp_all add: res_bind_def)

lemma res_bind_cong [fundef_cong]:
  "m = m' \<Longrightarrow> (\<And>x. m' = Inr x \<Longrightarrow> f x = f' x) \<Longrightarrow> res_bind m f = res_bind m' f'"
  by (auto simp: res_bind_def split: sum.splits)

lemma res_bind_Inr_iff:
  "res_bind m f = Inr y \<longleftrightarrow> (\<exists>x. m = Inr x \<and> f x = Inr y)"
  by (cases m) auto

lemma res_bind_Inl_iff:
  "res_bind m f = Inl e \<longleftrightarrow> m = Inl e \<or> (\<exists>x. m = Inr x \<and> f x = Inl e)"
  by (cases m) auto

lemma res_bind_InrE [elim]:
  assumes "res_bind m f = Inr y"
  obtains x where "m = Inr x" and "f x = Inr y"
  using assms by (auto simp: res_bind_Inr_iff)

text \<open>\<open>map_err g m\<close> is \<open>m.map_err(g)\<close>, \<open>ok_or e o\<close> is \<open>o.ok_or(e)\<close>.\<close>

definition map_err :: "('e \<Rightarrow> 'd) \<Rightarrow> 'e + 'a \<Rightarrow> 'd + 'a" where
  "map_err g m = (case m of Inl e \<Rightarrow> Inl (g e) | Inr x \<Rightarrow> Inr x)"

definition ok_or :: "'e \<Rightarrow> 'a option \<Rightarrow> 'e + 'a" where
  "ok_or e o' = (case o' of None \<Rightarrow> Inl e | Some x \<Rightarrow> Inr x)"

definition is_ok :: "'e + 'a \<Rightarrow> bool" where
  "is_ok m = (case m of Inl _ \<Rightarrow> False | Inr _ \<Rightarrow> True)"

lemma map_err_simps [simp, res_simps]:
  "map_err g (Inl e) = Inl (g e)"
  "map_err g (Inr x) = Inr x"
  by (simp_all add: map_err_def)

lemma ok_or_simps [simp, res_simps]:
  "ok_or e None = Inl e"
  "ok_or e (Some x) = Inr x"
  by (simp_all add: ok_or_def)

lemma is_ok_simps [simp, res_simps]:
  "is_ok (Inl e) = False"
  "is_ok (Inr x) = True"
  by (simp_all add: is_ok_def)

lemma map_err_Inr_iff: "map_err g m = Inr x \<longleftrightarrow> m = Inr x"
  by (cases m) auto

lemma ok_or_Inr_iff: "ok_or e o' = Inr x \<longleftrightarrow> o' = Some x"
  by (cases o') auto

lemma is_ok_iff: "is_ok m \<longleftrightarrow> (\<exists>x. m = Inr x)"
  by (cases m) auto

text \<open>\<open>traverse f xs\<close> collects \<open>f x\<close> over a list and stops at the first error.\<close>

fun traverse :: "('a \<Rightarrow> 'e + 'b) \<Rightarrow> 'a list \<Rightarrow> 'e + 'b list" where
  "traverse f [] = Inr []"
| "traverse f (x # xs) = res_bind (f x) (\<lambda>y. res_bind (traverse f xs) (\<lambda>ys. Inr (y # ys)))"

lemma traverse_cong [fundef_cong]:
  "xs = ys \<Longrightarrow> (\<And>x. x \<in> set ys \<Longrightarrow> f x = g x) \<Longrightarrow> traverse f xs = traverse g ys"
proof (induction xs arbitrary: ys)
  case (Cons x xs)
  then show ?case by (cases ys) (auto intro: res_bind_cong)
qed simp

lemma traverse_all_Inr:
  "(\<And>x. x \<in> set xs \<Longrightarrow> f x = Inr (g x)) \<Longrightarrow> traverse f xs = Inr (map g xs)"
  by (induction xs) auto

lemma traverse_map_Inr:
  "(\<And>x. x \<in> set xs \<Longrightarrow> f (h x) = Inr (g x)) \<Longrightarrow> traverse f (map h xs) = Inr (map g xs)"
  by (induction xs) auto


section \<open>Operations on a state\<close>

text \<open>
  A method on a shared object: the result and the state it leaves, also when it fails.
  \<open>op_bind\<close> is \<open>?\<close> followed by the rest, \<open>op_lift\<close> is a step that only reads.
\<close>

type_synonym ('s, 'a) op = "'s \<Rightarrow> 'a res \<times> 's"

definition op_lift :: "('s \<Rightarrow> 'a res) \<Rightarrow> ('s, 'a) op" where
  "op_lift r s = (r s, s)"

definition op_bind :: "('s, 'a) op \<Rightarrow> ('a \<Rightarrow> ('s, 'b) op) \<Rightarrow> ('s, 'b) op" where
  "op_bind m f s = (case m s of (Inl e, s') \<Rightarrow> (Inl e, s') | (Inr x, s') \<Rightarrow> f x s')"

text \<open>
  \<open>op_try m f\<close> is \<open>let r = m;\<close> followed by the rest, without \<open>?\<close>: an error is a value like any other,
  but unwinding skips the rest.
\<close>

definition op_try :: "('s, 'a) op \<Rightarrow> ('a res \<Rightarrow> ('s, 'b) op) \<Rightarrow> ('s, 'b) op" where
  "op_try m f s = (case m s of
     (Inl e, s') \<Rightarrow> if is_panic e then (Inl e, s') else f (Inl e) s'
   | (Inr x, s') \<Rightarrow> f (Inr x) s')"

lemma op_try_simps [simp, res_simps]:
  "m s = (Inl e, s') \<Longrightarrow> op_try m f s = (if is_panic e then (Inl e, s') else f (Inl e) s')"
  "m s = (Inr x, s') \<Longrightarrow> op_try m f s = f (Inr x) s'"
  by (simp_all add: op_try_def)

lemma op_lift_apply [simp, res_simps]: "op_lift r s = (r s, s)"
  by (simp add: op_lift_def)

lemma op_bind_simps [simp, res_simps]:
  "m s = (Inl e, s') \<Longrightarrow> op_bind m f s = (Inl e, s')"
  "m s = (Inr x, s') \<Longrightarrow> op_bind m f s = f x s'"
  by (simp_all add: op_bind_def)

lemma op_bind_lift_Inl [simp]: "r s = Inl e \<Longrightarrow> op_bind (op_lift r) f s = (Inl e, s)"
  by simp

lemma op_bind_lift_Inr [simp]: "r s = Inr x \<Longrightarrow> op_bind (op_lift r) f s = f x s"
  by simp

lemma op_bind_Inr_iff:
  "op_bind m f s = (Inr y, t) \<longleftrightarrow> (\<exists>x s'. m s = (Inr x, s') \<and> f x s' = (Inr y, t))"
  by (auto simp: op_bind_def split: prod.splits sum.splits)

lemma op_bind_Inl_iff:
  "op_bind m f s = (Inl e, t) \<longleftrightarrow>
     m s = (Inl e, t) \<or> (\<exists>x s'. m s = (Inr x, s') \<and> f x s' = (Inl e, t))"
  by (auto simp: op_bind_def split: prod.splits sum.splits)

lemma op_bind_lift_InlE:
  assumes "op_bind (op_lift r) f s = (Inl e, t)"
  obtains "t = s" | x where "r s = Inr x" and "f x s = (Inl e, t)"
  using assms by (auto simp: op_bind_Inl_iff)

lemma op_bind_InrE:
  assumes "op_bind m f s = (Inr y, t)"
  obtains x s' where "m s = (Inr x, s')" and "f x s' = (Inr y, t)"
  using assms by (auto simp: op_bind_Inr_iff)


section \<open>Decimal numerals\<close>

text \<open>Rust's \<open>Display\<close> for unsigned integers: decimal digits, no sign, no padding.\<close>

definition digit_char :: "nat \<Rightarrow> char" where
  "digit_char d = ''0123456789'' ! d"

fun show_nat :: "nat \<Rightarrow> string" where
  "show_nat n = (if n < 10 then [digit_char n] else show_nat (n div 10) @ [digit_char (n mod 10)])"

declare show_nat.simps [simp del]

text \<open>The value of a digit string, used to show that the printer loses nothing.\<close>

definition digit_val :: "char \<Rightarrow> nat" where
  "digit_val c = (of_char c :: nat) - 48"

definition read_nat :: "string \<Rightarrow> nat" where
  "read_nat s = foldl (\<lambda>n c. 10 * n + digit_val c) 0 s"

lemma lt_10_cases: "d < (10::nat) \<Longrightarrow> d \<in> {0, 1, 2, 3, 4, 5, 6, 7, 8, 9}"
  by auto

lemma digit_val_char: "d < 10 \<Longrightarrow> digit_val (digit_char d) = d"
  by (drule lt_10_cases) (auto simp: digit_val_def digit_char_def)

lemma digit_char_mem: "d < 10 \<Longrightarrow> digit_char d \<in> set ''0123456789''"
  by (drule lt_10_cases) (auto simp: digit_char_def)

lemma read_show_nat: "read_nat (show_nat n) = n"
proof (induction n rule: show_nat.induct)
  case (1 n)
  then show ?case
    by (subst show_nat.simps) (auto simp: read_nat_def digit_val_char)
qed

lemma show_nat_inject [simp]: "show_nat m = show_nat n \<longleftrightarrow> m = n"
  by (metis read_show_nat)

lemma show_nat_digits: "c \<in> set (show_nat n) \<Longrightarrow> c \<in> set ''0123456789''"
proof (induction n rule: show_nat.induct)
  case (1 n)
  show ?case
  proof (cases "n < 10")
    case True
    with 1(2) have "c = digit_char n" by (simp add: show_nat.simps [of n])
    then show ?thesis using digit_char_mem [OF True] by simp
  next
    case False
    with 1(2) have "c \<in> set (show_nat (n div 10)) \<or> c = digit_char (n mod 10)"
      by (auto simp add: show_nat.simps [of n])
    then show ?thesis using 1(1) [OF False] digit_char_mem [of "n mod 10"] by fastforce
  qed
qed

lemma show_nat_not_Nil [simp]: "show_nat n \<noteq> []"
  by (subst show_nat.simps) simp


section \<open>Lists and association lists\<close>

lemma find_Some_split:
  "find P xs = Some x \<longleftrightarrow> (\<exists>ys zs. xs = ys @ x # zs \<and> P x \<and> (\<forall>y \<in> set ys. \<not> P y))"
proof (induction xs)
  case (Cons a xs)
  show ?case
  proof (cases "P a")
    case True
    then show ?thesis by (auto simp: Cons_eq_append_conv)
  next
    case False
    have "(\<exists>ys zs. a # xs = ys @ x # zs \<and> P x \<and> (\<forall>y \<in> set ys. \<not> P y)) \<longleftrightarrow>
        (\<exists>ys zs. xs = ys @ x # zs \<and> P x \<and> (\<forall>y \<in> set ys. \<not> P y))" (is "?l \<longleftrightarrow> ?r")
    proof
      assume ?l
      then obtain ys zs where e: "a # xs = ys @ x # zs" "P x" "\<forall>y \<in> set ys. \<not> P y" by blast
      then show ?r using False by (cases ys) auto
    next
      assume ?r
      then obtain ys zs where "xs = ys @ x # zs" "P x" "\<forall>y \<in> set ys. \<not> P y" by blast
      then have "a # xs = (a # ys) @ x # zs \<and> P x \<and> (\<forall>y \<in> set (a # ys). \<not> P y)"
        using False by simp
      then show ?l by blast
    qed
    then show ?thesis using False Cons by simp
  qed
qed simp

lemma find_rev_Some_split:
  "find P (rev xs) = Some x \<longleftrightarrow> (\<exists>ys zs. xs = ys @ x # zs \<and> P x \<and> (\<forall>z \<in> set zs. \<not> P z))"
proof -
  have "rev xs = ys @ x # zs \<longleftrightarrow> xs = rev zs @ x # rev ys" for ys zs
    by (metis append.assoc append_Cons append_Nil rev.simps(2) rev_append rev_rev_ident)
  then show ?thesis
    unfolding find_Some_split by (metis set_rev rev_rev_ident)
qed

lemma map_of_Some_set: "map_of m k = Some v \<Longrightarrow> (k, v) \<in> set m"
  by (rule map_of_SomeD)

lemma distinct_fst_sort_key [simp]:
  "distinct (map fst (sort_key fst m)) \<longleftrightarrow> distinct (map fst m)"
proof -
  have "mset (map fst (sort_key fst m)) = mset (map fst m)"
    by simp
  then show ?thesis by (rule mset_eq_imp_distinct_iff)
qed

lemma map_of_sort_key:
  assumes "distinct (map fst m)"
  shows "map_of (sort_key fst m) = map_of m"
  using assms by (subst map_of_inject_set) auto

lemma map_of_perm:
  assumes "distinct (map fst m)" and "mset m = mset m'"
  shows "map_of m = map_of m'"
proof -
  have "mset (map fst m) = mset (map fst m')"
    using assms(2) by simp
  then have "distinct (map fst m')"
    using assms(1) mset_eq_imp_distinct_iff by blast
  moreover have "set m = set m'"
    using assms(2) by (rule mset_eq_setD)
  ultimately show ?thesis
    using assms(1) by (subst map_of_inject_set)
qed

lemma sort_key_fst_map: "map fst (sort_key fst m) = sort (map fst m)"
  by (rule properties_for_sort [symmetric]) simp_all

lemma insort_key_map:
  "insort_key f (g x) (map g xs) = map g (insort_key (\<lambda>x. f (g x)) x xs)"
  by (induction xs) auto

lemma sort_key_map: "sort_key f (map g xs) = map g (sort_key (\<lambda>x. f (g x)) xs)"
  by (induction xs) (simp_all add: insort_key_map)

lemma sort_key_perm_distinct:
  assumes "mset xs = mset ys" and "distinct (map f xs)"
  shows "sort_key f xs = sort_key f ys"
  using assms by (intro sort_key_inj_key_eq) (simp_all add: distinct_map)

end
