(* ===== verification/Veh_F64.thy ===== *)
theory Veh_F64
  imports Veh_Prelude
begin

text \<open>
  Rust's \<open>f64\<close>: the 64-bit pattern of an IEEE 754 binary64 value, with the operations the crate
  uses on scores and weights (comparison, \<open>partial_cmp\<close>, \<open>max\<close>, \<open>+\<close>, \<open>*\<close>, \<open>/\<close> and the
  conversions from \<open>u32\<close> and \<open>u64\<close>), rounding to nearest with ties to even. NaN compares false
  with everything, which is what the comparisons of \<^verbatim>\<open>src/graph.rs\<close> and
  \<^verbatim>\<open>src/selector.rs\<close> depend on.

  Magnitudes are natural numbers: \<open>f64_mag\<close> is the pattern without its sign bit. Arithmetic is
  exact integer arithmetic on significands and exponents followed by one rounding.
\<close>

datatype f64 = F64 (f64_bits: "64 word")

definition f64_sign :: "f64 \<Rightarrow> bool" where
  "f64_sign x \<longleftrightarrow> 2 ^ 63 \<le> unat (f64_bits x)"

definition f64_mag :: "f64 \<Rightarrow> nat" where
  "f64_mag x = unat (f64_bits x) mod 2 ^ 63"

definition inf_mag :: nat where
  "inf_mag = 2047 * 2 ^ 52"

definition f64_is_nan :: "f64 \<Rightarrow> bool" where
  "f64_is_nan x \<longleftrightarrow> inf_mag < f64_mag x"

definition f64_is_infinite :: "f64 \<Rightarrow> bool" where
  "f64_is_infinite x \<longleftrightarrow> f64_mag x = inf_mag"

definition f64_is_finite :: "f64 \<Rightarrow> bool" where
  "f64_is_finite x \<longleftrightarrow> f64_mag x < inf_mag"

text \<open>Build a pattern from a sign and a magnitude; the canonical quiet NaN.\<close>

definition f64_mk :: "bool \<Rightarrow> nat \<Rightarrow> f64" where
  "f64_mk s m = F64 (word_of_nat (m + (if s then 2 ^ 63 else 0)))"

definition f64_nan :: f64 where
  "f64_nan = F64 0x7FF8000000000000"

text \<open>
  The order key: on patterns that are not NaN the IEEE order is the order of the signed magnitude,
  infinities included, and the two zeros are equal.
\<close>

definition f64_key :: "f64 \<Rightarrow> int" where
  "f64_key x = (if f64_sign x then - int (f64_mag x) else int (f64_mag x))"


section \<open>Comparison\<close>

instantiation f64 :: ord
begin

definition less_eq_f64 :: "f64 \<Rightarrow> f64 \<Rightarrow> bool" where
  "x \<le> y \<longleftrightarrow> \<not> f64_is_nan x \<and> \<not> f64_is_nan y \<and> f64_key x \<le> f64_key y"

definition less_f64 :: "f64 \<Rightarrow> f64 \<Rightarrow> bool" where
  "x < y \<longleftrightarrow> \<not> f64_is_nan x \<and> \<not> f64_is_nan y \<and> f64_key x < f64_key y"

instance ..

end

datatype ordering = Less | Equal | Greater

text \<open>\<open>f64::partial_cmp\<close>: no answer when an operand is NaN.\<close>

definition f64_partial_cmp :: "f64 \<Rightarrow> f64 \<Rightarrow> ordering option" where
  "f64_partial_cmp x y =
     (if f64_is_nan x \<or> f64_is_nan y then None
      else if f64_key x < f64_key y then Some Less
      else if f64_key x = f64_key y then Some Equal
      else Some Greater)"

text \<open>\<open>f64::max\<close>: the other operand when one is NaN.\<close>

definition f64_max :: "f64 \<Rightarrow> f64 \<Rightarrow> f64" where
  "f64_max x y = (if f64_is_nan x then y else if f64_is_nan y then x else if x < y then y else x)"


section \<open>Rounding and arithmetic\<close>

text \<open>
  A finite magnitude \<open>m\<close> stands for \<open>mag_sig m * 2 ^ mag_exp m\<close>, normal and subnormal alike.
\<close>

definition mag_sig :: "nat \<Rightarrow> nat" where
  "mag_sig m = (if m div 2 ^ 52 = 0 then m else 2 ^ 52 + m mod 2 ^ 52)"

definition mag_exp :: "nat \<Rightarrow> int" where
  "mag_exp m = (if m div 2 ^ 52 = 0 then -1074 else int (m div 2 ^ 52) - 1075)"

fun bit_len :: "nat \<Rightarrow> nat" where
  "bit_len n = (if n = 0 then 0 else bit_len (n div 2) + 1)"

declare bit_len.simps [simp del]

lemma bit_len_numeral:
  "bit_len 0 = 0"
  "bit_len 1 = 1"
  "bit_len (Suc 0) = 1"
  "bit_len (numeral k) = bit_len (numeral k div 2) + 1"
  by (simp_all add: bit_len.simps)

text \<open>Nearest integer to a quotient, ties to even.\<close>

definition half_even :: "nat \<Rightarrow> nat \<Rightarrow> nat \<Rightarrow> nat" where
  "half_even q r d = (if 2 * r < d \<or> 2 * r = d \<and> even q then q else q + 1)"

definition round_div :: "nat \<Rightarrow> nat \<Rightarrow> nat" where
  "round_div p d = half_even (p div d) (p mod d) d"

text \<open>\<open>n * 2 ^ e\<close> at exponent \<open>E\<close>: the significand, rounded when \<open>E\<close> drops low bits.\<close>

definition sig_at :: "nat \<Rightarrow> int \<Rightarrow> int \<Rightarrow> nat" where
  "sig_at n e E = (if E \<le> e then n * 2 ^ nat (e - E) else round_div n (2 ^ nat (E - e)))"

text \<open>
  The magnitude nearest to \<open>n * 2 ^ e\<close>, infinity on overflow. The exponent \<open>E\<close> leaves 53 bits of
  significand, or all of the subnormal range; the pattern is \<open>(E + 1074) * 2 ^ 52\<close> plus the
  significand, also when rounding carries into the next binade.
\<close>

definition mag_pack :: "int \<Rightarrow> nat \<Rightarrow> nat" where
  "mag_pack E q = min inf_mag (nat (E + 1074) * 2 ^ 52 + q)"

definition mag_round_at :: "int \<Rightarrow> nat \<Rightarrow> int \<Rightarrow> nat" where
  "mag_round_at E n e = mag_pack E (sig_at n e E)"

definition mag_round :: "nat \<Rightarrow> int \<Rightarrow> nat" where
  "mag_round n e =
     (if n = 0 then 0 else mag_round_at (max (-1074) (e + int (bit_len n) - 53)) n e)"

text \<open>Sum of two signed terms \<open>a * 2 ^ ea + b * 2 ^ eb\<close>, aligned at the lower exponent.\<close>

definition align_sum :: "int \<Rightarrow> int \<Rightarrow> int \<Rightarrow> int \<Rightarrow> int" where
  "align_sum a ea b eb = a * 2 ^ nat (ea - min ea eb) + b * 2 ^ nat (eb - min ea eb)"

definition f64_sig :: "f64 \<Rightarrow> int" where
  "f64_sig x = (if f64_sign x then - int (mag_sig (f64_mag x)) else int (mag_sig (f64_mag x)))"

definition f64_exp :: "f64 \<Rightarrow> int" where
  "f64_exp x = mag_exp (f64_mag x)"

text \<open>A rounded sum; an exact zero is \<open>+0\<close> unless both operands were negative zeros.\<close>

definition f64_of_sum :: "bool \<Rightarrow> int \<Rightarrow> int \<Rightarrow> f64" where
  "f64_of_sum z v e = (if v = 0 then f64_mk z 0 else f64_mk (v < 0) (mag_round (nat \<bar>v\<bar>) e))"

text \<open>
  A quotient is taken with 128 extra bits and a sticky bit for the remainder, so that rounding it
  once gives the correctly rounded quotient.
\<close>

definition sticky_div :: "nat \<Rightarrow> nat \<Rightarrow> nat" where
  "sticky_div p d = 2 * (p div d) + (if p mod d = 0 then 0 else 1)"

definition f64_mul_mag :: "nat \<Rightarrow> nat \<Rightarrow> nat" where
  "f64_mul_mag m n = mag_round (mag_sig m * mag_sig n) (mag_exp m + mag_exp n)"

definition f64_div_mag :: "nat \<Rightarrow> nat \<Rightarrow> nat" where
  "f64_div_mag m n =
     mag_round (sticky_div (mag_sig m * 2 ^ 128) (mag_sig n)) (mag_exp m - mag_exp n - 129)"

instantiation f64 :: "{zero, one, plus, times, divide}"
begin

definition zero_f64 :: f64 where "0 = F64 0"

definition one_f64 :: f64 where "1 = F64 0x3FF0000000000000"

definition plus_f64 :: "f64 \<Rightarrow> f64 \<Rightarrow> f64" where
  "x + y =
     (if f64_is_nan x \<or> f64_is_nan y then f64_nan
      else if f64_is_infinite x then
        (if f64_is_infinite y \<and> f64_sign x \<noteq> f64_sign y then f64_nan else x)
      else if f64_is_infinite y then y
      else f64_of_sum (f64_sign x \<and> f64_sign y)
             (align_sum (f64_sig x) (f64_exp x) (f64_sig y) (f64_exp y))
             (min (f64_exp x) (f64_exp y)))"

definition times_f64 :: "f64 \<Rightarrow> f64 \<Rightarrow> f64" where
  "x * y =
     (if f64_is_nan x \<or> f64_is_nan y then f64_nan
      else if f64_is_infinite x \<or> f64_is_infinite y then
        (if f64_mag x = 0 \<or> f64_mag y = 0 then f64_nan
         else f64_mk (f64_sign x \<noteq> f64_sign y) inf_mag)
      else f64_mk (f64_sign x \<noteq> f64_sign y) (f64_mul_mag (f64_mag x) (f64_mag y)))"

definition divide_f64 :: "f64 \<Rightarrow> f64 \<Rightarrow> f64" where
  "x div y =
     (if f64_is_nan x \<or> f64_is_nan y then f64_nan
      else if f64_is_infinite x then
        (if f64_is_infinite y then f64_nan else f64_mk (f64_sign x \<noteq> f64_sign y) inf_mag)
      else if f64_is_infinite y then f64_mk (f64_sign x \<noteq> f64_sign y) 0
      else if f64_mag y = 0 then
        (if f64_mag x = 0 then f64_nan else f64_mk (f64_sign x \<noteq> f64_sign y) inf_mag)
      else f64_mk (f64_sign x \<noteq> f64_sign y) (f64_div_mag (f64_mag x) (f64_mag y)))"

instance ..

end

text \<open>\<open>as f64\<close> from an unsigned integer, and \<open>f64::from(u32)\<close>.\<close>

definition f64_of_nat :: "nat \<Rightarrow> f64" where
  "f64_of_nat n = f64_mk False (mag_round n 0)"


section \<open>Facts about the order\<close>

lemma f64_is_nan_nan [simp]: "f64_is_nan f64_nan"
  by (simp add: f64_is_nan_def f64_nan_def f64_mag_def inf_mag_def)

lemma f64_nan_not_le [simp]: "\<not> f64_nan \<le> x" "\<not> x \<le> f64_nan"
  by (simp_all add: less_eq_f64_def)

lemma f64_finite_not_nan: "f64_is_finite x \<Longrightarrow> \<not> f64_is_nan x"
  by (simp add: f64_is_finite_def f64_is_nan_def)

lemma f64_le_iff_key:
  "\<not> f64_is_nan x \<Longrightarrow> \<not> f64_is_nan y \<Longrightarrow> x \<le> y \<longleftrightarrow> f64_key x \<le> f64_key y"
  by (simp add: less_eq_f64_def)

lemma f64_less_iff_key:
  "\<not> f64_is_nan x \<Longrightarrow> \<not> f64_is_nan y \<Longrightarrow> x < y \<longleftrightarrow> f64_key x < f64_key y"
  by (simp add: less_f64_def)

lemma f64_le_trans: "(x :: f64) \<le> y \<Longrightarrow> y \<le> z \<Longrightarrow> x \<le> z"
  by (auto simp: less_eq_f64_def)

lemma f64_not_le_iff_less:
  "\<not> f64_is_nan x \<Longrightarrow> \<not> f64_is_nan y \<Longrightarrow> \<not> x \<le> y \<longleftrightarrow> (y :: f64) < x"
  by (auto simp: less_eq_f64_def less_f64_def)

lemma f64_mk_bits:
  "m < 2 ^ 63 \<Longrightarrow> unat (f64_bits (f64_mk s m)) = m + (if s then 2 ^ 63 else 0)"
  unfolding f64_mk_def f64.sel unat_of_nat by (cases s) simp_all

lemma f64_mk_mag: "m < 2 ^ 63 \<Longrightarrow> f64_mag (f64_mk s m) = m"
  unfolding f64_mag_def by (subst f64_mk_bits) simp_all

lemma f64_mk_sign: "m < 2 ^ 63 \<Longrightarrow> f64_sign (f64_mk s m) = s"
  unfolding f64_sign_def by (subst f64_mk_bits) simp_all

lemma mag_round_le_inf: "mag_round n e \<le> inf_mag"
  by (simp add: mag_round_def mag_round_at_def mag_pack_def)

lemma inf_mag_lt: "inf_mag < 2 ^ 63"
  by (simp add: inf_mag_def)

lemma f64_max_zero_nonneg:
  "f64_is_finite x \<Longrightarrow> 0 \<le> f64_key (f64_max x 0)"
  by (auto simp: f64_max_def f64_key_def less_f64_def f64_is_finite_def f64_is_nan_def zero_f64_def
      f64_sign_def f64_mag_def split: if_splits)

text \<open>Evaluation of closed floating-point terms by rewriting.\<close>

lemmas f64_eval =
  f64_sign_def f64_mag_def inf_mag_def f64_is_nan_def f64_is_infinite_def f64_is_finite_def
  f64_mk_def f64_nan_def f64_key_def less_eq_f64_def less_f64_def mag_sig_def mag_exp_def
  bit_len_numeral half_even_def round_div_def sig_at_def mag_pack_def mag_round_at_def
  mag_round_def align_sum_def f64_sig_def f64_exp_def f64_of_sum_def sticky_div_def
  f64_mul_mag_def f64_div_mag_def zero_f64_def one_f64_def plus_f64_def times_f64_def
  divide_f64_def f64_of_nat_def f64_max_def f64_partial_cmp_def

end
