(* ===== verification/Veh_External.thy ===== *)
theory Veh_External
  imports Veh_F64 "HOL-Library.AList"
begin

text \<open>
  The boundary of the crate. \<open>'n json\<close> is \<open>serde_json::Value\<close>, whose constructors
  \<^verbatim>\<open>src/artifact.rs\<close> matches exhaustively; \<open>'n\<close> is \<open>serde_json::Number\<close>, of which the crate uses
  a few conversions only. The record \<open>ext\<close> collects every third-party function the crate calls
  (serde_json, rig-compose, sha2, ed25519-dalek, hex, similar), the text of a float in a format
  string, and the build profile's overflow checks; each definition that uses one of them takes the
  record as an argument. The predicates at the end state the documented behaviour of these
  libraries; theorems that rely on it name them as hypotheses.
\<close>

datatype 'n json =
    JNull
  | JBool bool
  | JNumber 'n
  | JString string
  | JArray "'n json list"
  | JObject "(string \<times> 'n json) list"

text \<open>
  An object lists its entries in the map's iteration order. \<open>Map::insert\<close> replaces the value of a
  present key and appends otherwise: the map of serde_json under its feature \<open>preserve_order\<close>, which any
  crate of a build can turn on. Without it a map iterates in the order of its keys. Canonical printing
  sorts, and equality of values is stated up to the order of entries wherever it matters, so that what
  is proved of signing, policy and lineage holds for either map.
\<close>

definition j_insert :: "string \<Rightarrow> 'n json \<Rightarrow> (string \<times> 'n json) list \<Rightarrow> (string \<times> 'n json) list" where
  "j_insert k v m = AList.update k v m"

text \<open>\<open>Value::get\<close> with a string index, \<open>Value::as_str\<close> and \<open>Value::as_array\<close>.\<close>

fun j_get :: "string \<Rightarrow> 'n json \<Rightarrow> 'n json option" where
  "j_get k (JObject m) = map_of m k"
| "j_get k _ = None"

fun j_as_str :: "'n json \<Rightarrow> string option" where
  "j_as_str (JString s) = Some s"
| "j_as_str _ = None"

fun j_as_array :: "'n json \<Rightarrow> 'n json list option" where
  "j_as_array (JArray xs) = Some xs"
| "j_as_array _ = None"

text \<open>The one shape of a tool that rig-compose declares: the crate's match on it has a single arm.\<close>

datatype tool_spec = Local_Tool string

record ('m, 'n, 'k) ext =
  x_num_text :: "'n \<Rightarrow> string"                        \<comment> \<open>\<open>Display\<close> of a JSON number\<close>
  x_str_text :: "string \<Rightarrow> string + string"            \<comment> \<open>\<open>serde_json::to_string\<close> of a string\<close>
  x_num_of_u32 :: "u32 \<Rightarrow> 'n"                         \<comment> \<open>\<open>Number::from(u32)\<close>\<close>
  x_num_of_f64 :: "f64 \<Rightarrow> 'n option"                  \<comment> \<open>\<open>Number::from_f64\<close>\<close>
  x_num_as_f64 :: "'n \<Rightarrow> f64 option"                  \<comment> \<open>\<open>Number::as_f64\<close>\<close>
  x_num_as_u64 :: "'n \<Rightarrow> u64 option"                  \<comment> \<open>\<open>Number::as_u64\<close>\<close>
  x_json_text :: "'n json \<Rightarrow> string"                  \<comment> \<open>\<open>serde_json::to_string\<close> of a value\<close>
  x_json_parse :: "string \<Rightarrow> json_fault + 'n json"     \<comment> \<open>\<open>serde_json::from_str\<close> to a value\<close>
  x_man_to_json :: "'m \<Rightarrow> json_fault + 'n json"        \<comment> \<open>\<open>AgentManifest\<close>, serialised\<close>
  x_man_of_json :: "'n json \<Rightarrow> json_fault + 'm"        \<comment> \<open>\<open>AgentManifest\<close>, deserialised\<close>
  x_tools :: "'m \<Rightarrow> tool_spec list"                    \<comment> \<open>\<open>manifest.tools\<close>\<close>
  x_mcp_names :: "'m \<Rightarrow> string list"                   \<comment> \<open>names of \<open>manifest.mcp_servers\<close>\<close>
  x_delegate_names :: "'m \<Rightarrow> string list"              \<comment> \<open>names of \<open>manifest.delegates\<close>\<close>
  x_sha256 :: "bytes \<Rightarrow> bytes"                         \<comment> \<open>\<open>Sha256\<close> over all updates\<close>
  x_sign :: "'k \<Rightarrow> bytes \<Rightarrow> bytes"                      \<comment> \<open>\<open>SigningKey::sign\<close>, as bytes\<close>
  x_verifying_key :: "'k \<Rightarrow> bytes"                     \<comment> \<open>\<open>SigningKey::verifying_key\<close>, as bytes\<close>
  x_vk_from_bytes :: "bytes \<Rightarrow> string + unit"          \<comment> \<open>\<open>VerifyingKey::from_bytes\<close>\<close>
  x_verify :: "bytes \<Rightarrow> bytes \<Rightarrow> bytes \<Rightarrow> string + unit" \<comment> \<open>\<open>verify\<close>: key, message, signature\<close>
  x_hex_encode :: "bytes \<Rightarrow> string"                    \<comment> \<open>\<open>hex::encode\<close>\<close>
  x_hex_decode :: "string \<Rightarrow> string + bytes"           \<comment> \<open>\<open>hex::decode\<close>\<close>
  x_unified_diff :: "string \<Rightarrow> string \<Rightarrow> string"        \<comment> \<open>\<open>similar\<close>'s unified line diff\<close>
  x_f64_text :: "f64 \<Rightarrow> string"                        \<comment> \<open>\<open>Display\<close> of a float\<close>
  x_overflow_checks :: bool                          \<comment> \<open>overflow checks of the build profile\<close>

text \<open>
  \<open>Value::from(f64)\<close> and the serialisation of a float to a value: a number, or \<open>null\<close> when the
  float is not finite. \<open>Value::as_f64\<close> and \<open>Value::as_u64\<close> read numbers only.
\<close>

definition json_of_f64 :: "('m, 'n, 'k) ext \<Rightarrow> f64 \<Rightarrow> 'n json" where
  "json_of_f64 X f = (case x_num_of_f64 X f of None \<Rightarrow> JNull | Some n \<Rightarrow> JNumber n)"

definition json_of_u32 :: "('m, 'n, 'k) ext \<Rightarrow> u32 \<Rightarrow> 'n json" where
  "json_of_u32 X w = JNumber (x_num_of_u32 X w)"

fun j_as_f64 :: "('m, 'n, 'k) ext \<Rightarrow> 'n json \<Rightarrow> f64 option" where
  "j_as_f64 X (JNumber n) = x_num_as_f64 X n"
| "j_as_f64 X _ = None"

fun j_as_u64 :: "('m, 'n, 'k) ext \<Rightarrow> 'n json \<Rightarrow> u64 option" where
  "j_as_u64 X (JNumber n) = x_num_as_u64 X n"
| "j_as_u64 X _ = None"

text \<open>Unsigned 32-bit addition of one under the build profile: a panic, or wrap-around.\<close>

definition u32_succ :: "('m, 'n, 'k) ext \<Rightarrow> u32 \<Rightarrow> u32 res" where
  "u32_succ X g = (if g = - 1 \<and> x_overflow_checks X then Inl Overflow_Panic else Inr (g + 1))"

lemma u32_succ_Inr: "u32_succ X g = Inr g' \<Longrightarrow> g' = g + 1"
  by (auto simp: u32_succ_def split: if_splits)

lemma unat_plus_one: "(g :: u32) \<noteq> - 1 \<Longrightarrow> unat (g + 1) = Suc (unat g)"
  using unatSuc [of g] by (simp add: add.commute eq_neg_iff_add_eq_0)

lemma u32_succ_unat: "u32_succ X g = Inr g' \<Longrightarrow> g \<noteq> - 1 \<Longrightarrow> unat g' = Suc (unat g)"
  by (auto simp: u32_succ_def unat_plus_one)

lemma u32_succ_below: "g \<noteq> - 1 \<Longrightarrow> u32_succ X g = Inr (g + 1)"
  by (simp add: u32_succ_def)


section \<open>Well-formed values\<close>

text \<open>The keys of every object are distinct, as in a \<open>serde_json::Map\<close>.\<close>

lemma size_json_entry [termination_simp]:
  "(k, v) \<in> set m \<Longrightarrow> size v < Suc (size_list (size_prod (\<lambda>_. 0) size) m)"
  by (induction m) auto

fun wf_json :: "'n json \<Rightarrow> bool" where
  "wf_json (JArray xs) = (\<forall>x \<in> set xs. wf_json x)"
| "wf_json (JObject m) = (distinct (map fst m) \<and> (\<forall>(k, v) \<in> set m. wf_json v))"
| "wf_json _ = True"

lemma wf_json_of_f64 [simp, veh_wf]: "wf_json (json_of_f64 X f)"
  by (simp add: json_of_f64_def split: option.split)

lemma wf_json_of_u32 [simp, veh_wf]: "wf_json (json_of_u32 X w)"
  by (simp add: json_of_u32_def)

lemma wf_json_strings [simp, veh_wf]: "wf_json (JArray (map JString ss))"
  by simp

lemma j_get_wf: "wf_json j \<Longrightarrow> j_get k j = Some v \<Longrightarrow> wf_json v"
  by (cases "(k, j)" rule: j_get.cases) (auto dest!: map_of_SomeD)

lemma set_update_subset: "set (AList.update k v m) \<subseteq> insert (k, v) (set m)"
  by (induction m) auto

lemma wf_json_j_insert:
  "wf_json (JObject m) \<Longrightarrow> wf_json v \<Longrightarrow> wf_json (JObject (j_insert k v m))"
  using set_update_subset [of k v m] by (fastforce simp: j_insert_def distinct_update)


section \<open>Documented behaviour of the libraries\<close>

text \<open>
  \<open>json_text_laws\<close>: the text of a string is a JSON string literal (it starts with a quote and no
  literal is a proper prefix of another one followed by text), the text of a number is a nonempty
  run of number characters, and both determine what they print.
\<close>

definition num_chars :: "char set" where
  "num_chars = set ''0123456789+-.eE''"

definition json_text_laws :: "('m, 'n, 'k) ext \<Rightarrow> bool" where
  "json_text_laws X \<longleftrightarrow>
     (\<forall>s. \<exists>t. x_str_text X s = Inr (CHR 0x22 # t)) \<and>
     (\<forall>s s' t t' u u'. x_str_text X s = Inr t \<longrightarrow> x_str_text X s' = Inr t' \<longrightarrow>
        t @ u = t' @ u' \<longrightarrow> s = s' \<and> u = u') \<and>
     (\<forall>n. x_num_text X n \<noteq> [] \<and> set (x_num_text X n) \<subseteq> num_chars) \<and>
     inj (x_num_text X)"

text \<open>
  \<open>json_num_laws\<close>: \<open>from_f64\<close> answers exactly for finite floats, such a number reads back as the
  float, every number that reads as a float reads as a finite one, and a \<open>u32\<close> reads back.
\<close>

definition json_num_laws :: "('m, 'n, 'k) ext \<Rightarrow> bool" where
  "json_num_laws X \<longleftrightarrow>
     (\<forall>f. x_num_of_f64 X f = None \<longleftrightarrow> \<not> f64_is_finite f) \<and>
     (\<forall>f n. x_num_of_f64 X f = Some n \<longrightarrow> x_num_as_f64 X n = Some f) \<and>
     (\<forall>n f. x_num_as_f64 X n = Some f \<longrightarrow> f64_is_finite f) \<and>
     (\<forall>w. x_num_as_u64 X (x_num_of_u32 X w) = Some (ucast w))"

text \<open>\<open>manifest_laws\<close>: a manifest serialises to a well-formed value and reads back.\<close>

definition manifest_laws :: "('m, 'n, 'k) ext \<Rightarrow> bool" where
  "manifest_laws X \<longleftrightarrow>
     (\<forall>m. \<exists>j. x_man_to_json X m = Inr j \<and> wf_json j \<and> x_man_of_json X j = Inr m)"

text \<open>
  \<open>crypto_laws\<close>: lengths of signatures and keys, the key of a signing key decodes, a signature
  verifies under its own key, and hex decoding undoes hex encoding.
\<close>

definition crypto_laws :: "('m, 'n, 'k) ext \<Rightarrow> bool" where
  "crypto_laws X \<longleftrightarrow>
     (\<forall>k m. length (x_sign X k m) = 64) \<and>
     (\<forall>k. length (x_verifying_key X k) = 32) \<and>
     (\<forall>k. x_vk_from_bytes X (x_verifying_key X k) = Inr ()) \<and>
     (\<forall>k m. x_verify X (x_verifying_key X k) m (x_sign X k m) = Inr ()) \<and>
     (\<forall>b. x_hex_decode X (x_hex_encode X b) = Inr b)"

lemma str_text_total:
  assumes "json_text_laws X"
  obtains t where "x_str_text X s = Inr (CHR 0x22 # t)"
  using assms unfolding json_text_laws_def by blast

lemma json_of_f64_as_f64:
  "json_num_laws X \<Longrightarrow> f64_is_finite f \<Longrightarrow> j_as_f64 X (json_of_f64 X f) = Some f"
  unfolding json_num_laws_def json_of_f64_def by (cases "x_num_of_f64 X f") auto

lemma json_of_f64_nonfinite:
  "json_num_laws X \<Longrightarrow> \<not> f64_is_finite f \<Longrightarrow> json_of_f64 X f = JNull"
  unfolding json_num_laws_def json_of_f64_def by (auto split: option.split)

lemma j_as_f64_finite: "json_num_laws X \<Longrightarrow> j_as_f64 X j = Some f \<Longrightarrow> f64_is_finite f"
  unfolding json_num_laws_def by (cases j) auto

end
