(* ===== verification/Veh_Serde.thy ===== *)
theory Veh_Serde
  imports Veh_External
begin

text \<open>
  How serde's derived \<open>Serialize\<close> and \<open>Deserialize\<close> read the shapes the crate declares: a struct
  reads from an object or, positionally, from an array; a missing field is an error unless it has a
  \<open>#[serde(default)]\<close>; an \<open>Option\<close> reads \<open>null\<close> as absent; a unit variant reads from its name or
  from an object with the name as its only key and \<open>null\<close> as value.
\<close>

section \<open>Writing\<close>

definition json_of_strings :: "string list \<Rightarrow> 'n json" where
  "json_of_strings ss = JArray (map JString ss)"

definition json_of_option :: "('a \<Rightarrow> 'n json) \<Rightarrow> 'a option \<Rightarrow> 'n json" where
  "json_of_option f x = (case x of None \<Rightarrow> JNull | Some a \<Rightarrow> f a)"

lemma json_of_option_simps [simp]:
  "json_of_option f None = JNull"
  "json_of_option f (Some a) = f a"
  by (simp_all add: json_of_option_def)

lemma wf_json_of_strings [simp, veh_wf]: "wf_json (json_of_strings ss)"
  by (simp add: json_of_strings_def)

lemma wf_json_of_option [simp, veh_wf]:
  "(\<And>a. x = Some a \<Longrightarrow> wf_json (f a)) \<Longrightarrow> wf_json (json_of_option f x)"
  by (cases x) auto

lemma json_of_strings_inject [simp]: "json_of_strings ss = json_of_strings ts \<longleftrightarrow> ss = ts"
  by (simp add: json_of_strings_def inj_map_eq_map inj_def)


section \<open>Reading\<close>

type_synonym ('n, 'a) decoder = "'n json \<Rightarrow> json_fault + 'a"

text \<open>The fields a struct decoder sees, and the error it reports for a missing one.\<close>

type_synonym 'n field_view = "(string \<Rightarrow> 'n json option) \<times> (string \<Rightarrow> json_fault)"

definition struct_view :: "string list \<Rightarrow> 'n json \<Rightarrow> json_fault + 'n field_view" where
  "struct_view names j = (case j of
       JObject m \<Rightarrow> Inr (map_of m, Missing_Field)
     | JArray xs \<Rightarrow>
         if length names < length xs then Inl (Invalid_Length (length xs))
         else Inr (map_of (zip names xs), \<lambda>_. Invalid_Length (length xs))
     | _ \<Rightarrow> Inl (Invalid_Type ''struct''))"

definition field_req :: "'n field_view \<Rightarrow> string \<Rightarrow> ('n, 'a) decoder \<Rightarrow> json_fault + 'a" where
  "field_req w name d = (case fst w name of None \<Rightarrow> Inl (snd w name) | Some j \<Rightarrow> d j)"

definition field_default :: "'n field_view \<Rightarrow> string \<Rightarrow> 'a \<Rightarrow> ('n, 'a) decoder \<Rightarrow> json_fault + 'a" where
  "field_default w name a d = (case fst w name of None \<Rightarrow> Inr a | Some j \<Rightarrow> d j)"

fun dec_string :: "('n, string) decoder" where
  "dec_string (JString s) = Inr s"
| "dec_string _ = Inl (Invalid_Type ''string'')"

fun dec_bool :: "('n, bool) decoder" where
  "dec_bool (JBool b) = Inr b"
| "dec_bool _ = Inl (Invalid_Type ''boolean'')"

definition dec_value :: "('n, 'n json) decoder" where
  "dec_value j = Inr j"

definition dec_u32 :: "('m, 'n, 'k) ext \<Rightarrow> ('n, u32) decoder" where
  "dec_u32 X j = (case j_as_u64 X j of
       None \<Rightarrow> Inl (Invalid_Type ''u32'')
     | Some w \<Rightarrow> if unat w < 2 ^ 32 then Inr (ucast w) else Inl (Invalid_Type ''u32''))"

definition dec_f64 :: "('m, 'n, 'k) ext \<Rightarrow> ('n, f64) decoder" where
  "dec_f64 X j = ok_or (Invalid_Type ''f64'') (j_as_f64 X j)"

fun dec_vec :: "('n, 'a) decoder \<Rightarrow> ('n, 'a list) decoder" where
  "dec_vec d (JArray xs) = traverse d xs"
| "dec_vec d _ = Inl (Invalid_Type ''sequence'')"

fun dec_option :: "('n, 'a) decoder \<Rightarrow> ('n, 'a option) decoder" where
  "dec_option d JNull = Inr None"
| "dec_option d j = res_bind (d j) (\<lambda>a. Inr (Some a))"

fun dec_unit_variant :: "(string \<times> 'a) list \<Rightarrow> ('n, 'a) decoder" where
  "dec_unit_variant vs (JString s) = ok_or (Unknown_Variant s) (map_of vs s)"
| "dec_unit_variant vs (JObject [(s, JNull)]) = ok_or (Unknown_Variant s) (map_of vs s)"
| "dec_unit_variant vs _ = Inl (Invalid_Type ''enum'')"


section \<open>Round trips\<close>

lemma struct_view_object [simp]: "struct_view names (JObject m) = Inr (map_of m, Missing_Field)"
  by (simp add: struct_view_def)

lemma dec_vec_strings [simp]: "dec_vec dec_string (json_of_strings ss) = Inr ss"
  by (simp add: json_of_strings_def traverse_map_Inr [where g = id, simplified])

lemma dec_vec_value [simp]: "dec_vec dec_value (JArray xs) = Inr xs"
  using traverse_all_Inr [of xs dec_value "\<lambda>x. x"] by (simp add: dec_value_def)

lemma dec_option_some:
  "j \<noteq> JNull \<Longrightarrow> dec_option d j = res_bind (d j) (\<lambda>a. Inr (Some a))"
  by (cases j) auto

lemma dec_u32_of_u32: "json_num_laws X \<Longrightarrow> dec_u32 X (json_of_u32 X w) = Inr w"
proof -
  assume "json_num_laws X"
  then have "x_num_as_u64 X (x_num_of_u32 X w) = Some (ucast w)"
    by (simp add: json_num_laws_def)
  moreover have "unat (ucast w :: u64) < 2 ^ 32"
  proof -
    have w: "unat w < 2 ^ 32" using unsigned_less [of w, where 'a = nat] by simp
    have "unat (ucast w :: u64) = take_bit 64 (unat w)" by (simp add: unsigned_ucast_eq)
    also have "\<dots> = unat w" using w by (intro take_bit_nat_eq_self) simp
    finally show ?thesis using w by simp
  qed
  moreover have "ucast (ucast w :: u64) = w"
    by (simp add: ucast_up_ucast_id is_up)
  ultimately show ?thesis by (simp add: dec_u32_def json_of_u32_def)
qed

lemma dec_f64_of_f64: "json_num_laws X \<Longrightarrow> f64_is_finite f \<Longrightarrow> dec_f64 X (json_of_f64 X f) = Inr f"
  by (simp add: dec_f64_def json_of_f64_as_f64)

text \<open>A float survives a write and a read when it is finite; otherwise an optional one is lost.\<close>

definition finite_only :: "f64 option \<Rightarrow> f64 option" where
  "finite_only x = (case x of Some f \<Rightarrow> if f64_is_finite f then Some f else None | None \<Rightarrow> None)"

lemma dec_option_f64:
  assumes "json_num_laws X"
  shows "dec_option (dec_f64 X) (json_of_option (json_of_f64 X) x) = Inr (finite_only x)"
proof (cases x)
  case (Some f)
  show ?thesis
  proof (cases "f64_is_finite f")
    case True
    then have "json_of_f64 X f \<noteq> JNull"
      using json_of_f64_as_f64 [OF assms True] by auto
    then show ?thesis
      using Some True assms by (simp add: dec_option_some dec_f64_of_f64 finite_only_def)
  next
    case False
    then show ?thesis
      using Some assms by (simp add: json_of_f64_nonfinite finite_only_def)
  qed
qed (simp add: finite_only_def)

lemma json_of_finite_only:
  assumes "json_num_laws X"
  shows "json_of_option (json_of_f64 X) (finite_only x) = json_of_option (json_of_f64 X) x"
  using assms by (cases x) (auto simp: finite_only_def json_of_f64_nonfinite)

lemma dec_option_u32:
  "json_num_laws X \<Longrightarrow> dec_option (dec_u32 X) (json_of_option (json_of_u32 X) x) = Inr x"
proof (cases x)
  case (Some w)
  assume "json_num_laws X"
  moreover have "json_of_u32 X w \<noteq> JNull" by (simp add: json_of_u32_def)
  ultimately show ?thesis using Some by (simp add: dec_option_some dec_u32_of_u32)
qed simp

lemma dec_option_string [simp]:
  "dec_option dec_string (json_of_option JString x) = Inr x"
  by (cases x) auto

lemma json_of_u32_inject:
  assumes "json_num_laws X"
  shows "json_of_u32 X v = json_of_u32 X w \<longleftrightarrow> v = w"
  by (metis dec_u32_of_u32 [OF assms] sum.inject(2))

end
