(* ===== verification/Veh_Demo.thy ===== *)
theory Veh_Demo
  imports Veh_External
begin

text \<open>
  A concrete, executable instance of the library boundary. It satisfies every law of
  \<open>Veh_External\<close>, so the theorems that assume the laws can be applied to concrete inputs; the model
  itself never uses it. Strings are escaped JSON literals, numbers print as digits, hex is real, the
  digest is the identity and a signature is a keyed prefix of the message.
\<close>

section \<open>Numbers and strings\<close>

datatype demo_num = DInt u32 | DFloat f64

fun demo_num_text :: "demo_num \<Rightarrow> string" where
  "demo_num_text (DInt w) = show_nat (unat w)"
| "demo_num_text (DFloat f) = ''e'' @ show_nat (unat (f64_bits f))"

definition demo_num_of_f64 :: "f64 \<Rightarrow> demo_num option" where
  "demo_num_of_f64 f = (if f64_is_finite f then Some (DFloat f) else None)"

fun demo_as_f64 :: "demo_num \<Rightarrow> f64 option" where
  "demo_as_f64 (DFloat f) = (if f64_is_finite f then Some f else None)"
| "demo_as_f64 (DInt w) =
     (if f64_is_finite (f64_of_nat (unat w)) then Some (f64_of_nat (unat w)) else None)"

fun demo_as_u64 :: "demo_num \<Rightarrow> u64 option" where
  "demo_as_u64 (DInt w) = Some (ucast w)"
| "demo_as_u64 (DFloat f) = None"

definition esc :: "char \<Rightarrow> string" where
  "esc c = (if c = CHR 0x22 then [CHR 0x5C, CHR 0x22]
            else if c = CHR 0x5C then [CHR 0x5C, CHR 0x5C]
            else if c = CHR 0x0A then [CHR 0x5C, CHR ''n'']
            else [c])"

definition demo_str_text :: "string \<Rightarrow> string + string" where
  "demo_str_text s = Inr (CHR 0x22 # concat (map esc s) @ [CHR 0x22])"

lemma esc_prefix_free:
  "concat (map esc s) @ CHR 0x22 # u = concat (map esc s') @ CHR 0x22 # u' \<Longrightarrow> s = s' \<and> u = u'"
proof (induction s arbitrary: s')
  case Nil
  then show ?case by (cases s') (auto simp: esc_def split: if_splits)
next
  case (Cons c s)
  then show ?case
    by (cases s') (auto simp: esc_def split: if_splits)
qed

lemma demo_num_text_inj: "inj demo_num_text"
proof (rule injI)
  fix a b
  assume eq: "demo_num_text a = demo_num_text b"
  have ne: "show_nat n \<noteq> CHR ''e'' # t" for n t
    using show_nat_digits [of "CHR ''e''" n] by auto
  show "a = b"
    using eq ne by (cases a; cases b) (auto simp: word_unat_eq_iff intro: f64.expand dest: sym)
qed

lemma demo_num_text_chars: "demo_num_text n \<noteq> [] \<and> set (demo_num_text n) \<subseteq> num_chars"
proof -
  have digits: "set ''0123456789'' \<subseteq> num_chars" and e: "CHR ''e'' \<in> num_chars"
    by (simp_all add: num_chars_def)
  have "set (show_nat k) \<subseteq> num_chars" for k
    using subsetD [OF digits show_nat_digits] by (rule subsetI)
  then show ?thesis using e by (cases n) simp_all
qed


section \<open>Hex\<close>

definition hex_digit :: "nat \<Rightarrow> char" where
  "hex_digit d = ''0123456789abcdef'' ! d"

fun demo_hex_encode :: "bytes \<Rightarrow> string" where
  "demo_hex_encode [] = []"
| "demo_hex_encode (c # cs) =
     hex_digit ((of_char c :: nat) div 16) # hex_digit ((of_char c :: nat) mod 16) # demo_hex_encode cs"

definition hex_val :: "char \<Rightarrow> nat option" where
  "hex_val c = map_of (zip ''0123456789abcdef'' [0..<16]) c"

fun demo_hex_decode :: "string \<Rightarrow> string + bytes" where
  "demo_hex_decode [] = Inr []"
| "demo_hex_decode [c] = Inl ''Odd number of digits''"
| "demo_hex_decode (a # b # cs) =
     (case (hex_val a, hex_val b) of
        (Some x, Some y) \<Rightarrow> res_bind (demo_hex_decode cs) (\<lambda>r. Inr (char_of (16 * x + y) # r))
      | _ \<Rightarrow> Inl ''Invalid character'')"

lemma hex_val_digit: "d < 16 \<Longrightarrow> hex_val (hex_digit d) = Some d"
proof -
  assume "d < 16"
  then have "d \<in> {0, 1, 2, 3, 4, 5, 6, 7, 8, 9, 10, 11, 12, 13, 14, 15}"
    unfolding insert_iff empty_iff by arith
  then show ?thesis
    by (elim insertE emptyE) (simp_all add: hex_val_def hex_digit_def upt_rec_numeral upt_conv_Cons)
qed

lemma demo_hex_decode_encode: "demo_hex_decode (demo_hex_encode b) = Inr b"
proof (induction b)
  case (Cons c b)
  have "(of_char c :: nat) < 256" by simp
  then have "(of_char c :: nat) div 16 < 16" by (simp only: less_mult_imp_div_less)
  then show ?case
    using Cons by (simp add: hex_val_digit)
qed simp


section \<open>A codec for JSON values\<close>

text \<open>Tagged values, hex strings, decimal numbers; the parser's fuel is the length of its input.\<close>

fun demo_text :: "demo_num json \<Rightarrow> string" where
  "demo_text JNull = ''n''"
| "demo_text (JBool b) = (if b then ''t'' else ''f'')"
| "demo_text (JNumber (DInt w)) = ''i'' @ show_nat (unat w) @ '';''"
| "demo_text (JNumber (DFloat f)) = ''d'' @ show_nat (unat (f64_bits f)) @ '';''"
| "demo_text (JString s) = ''s'' @ demo_hex_encode s @ '';''"
| "demo_text (JArray xs) = ''['' @ concat (map demo_text xs) @ '']''"
| "demo_text (JObject m) = ''{'' @ concat (map (\<lambda>(k, v). demo_hex_encode k @ '':'' @ demo_text v) m) @ ''}''"

definition upto_char :: "char \<Rightarrow> string \<Rightarrow> (string \<times> string) option" where
  "upto_char c s = (case dropWhile (\<lambda>d. d \<noteq> c) s of
       [] \<Rightarrow> None
     | _ # r \<Rightarrow> Some (takeWhile (\<lambda>d. d \<noteq> c) s, r))"

definition hex_upto :: "char \<Rightarrow> string \<Rightarrow> (string \<times> string) option" where
  "hex_upto c s = (case upto_char c s of
       None \<Rightarrow> None
     | Some (h, r) \<Rightarrow> (case demo_hex_decode h of Inl _ \<Rightarrow> None | Inr b \<Rightarrow> Some (b, r)))"

fun demo_value :: "nat \<Rightarrow> string \<Rightarrow> (demo_num json \<times> string) option"
  and demo_items :: "nat \<Rightarrow> string \<Rightarrow> (demo_num json list \<times> string) option"
  and demo_members :: "nat \<Rightarrow> string \<Rightarrow> ((string \<times> demo_num json) list \<times> string) option" where
  "demo_value (Suc k) (c # s) =
     (if c = CHR ''n'' then Some (JNull, s)
      else if c = CHR ''t'' then Some (JBool True, s)
      else if c = CHR ''f'' then Some (JBool False, s)
      else if c = CHR ''i'' then
        map_option (\<lambda>(d, r). (JNumber (DInt (word_of_nat (read_nat d))), r)) (upto_char (CHR '';'') s)
      else if c = CHR ''d'' then
        map_option (\<lambda>(d, r). (JNumber (DFloat (F64 (word_of_nat (read_nat d)))), r)) (upto_char (CHR '';'') s)
      else if c = CHR ''s'' then map_option (\<lambda>(b, r). (JString b, r)) (hex_upto (CHR '';'') s)
      else if c = CHR ''['' then map_option (\<lambda>(xs, r). (JArray xs, r)) (demo_items k s)
      else if c = CHR ''{'' then map_option (\<lambda>(m, r). (JObject m, r)) (demo_members k s)
      else None)"
| "demo_value _ _ = None"
| "demo_items (Suc k) (c # s) =
     (if c = CHR '']'' then Some ([], s)
      else case demo_value k (c # s) of
        None \<Rightarrow> None
      | Some (x, r) \<Rightarrow> map_option (\<lambda>(xs, r). (x # xs, r)) (demo_items k r))"
| "demo_items _ _ = None"
| "demo_members (Suc k) (c # s) =
     (if c = CHR ''}'' then Some ([], s)
      else case hex_upto (CHR '':'') (c # s) of
        None \<Rightarrow> None
      | Some (i, r) \<Rightarrow>
          (case demo_value k r of
             None \<Rightarrow> None
           | Some (x, r) \<Rightarrow> map_option (\<lambda>(m, r). ((i, x) # m, r)) (demo_members k r)))"
| "demo_members _ _ = None"

definition demo_parse :: "string \<Rightarrow> json_fault + demo_num json" where
  "demo_parse t = (case demo_value (length t) t of
       Some (j, []) \<Rightarrow> Inr j
     | _ \<Rightarrow> Inl (Custom_Fault ''expected value''))"

lemma upto_char_found: "c \<notin> set h \<Longrightarrow> upto_char c (h @ c # r) = Some (h, r)"
proof -
  assume c: "c \<notin> set h"
  have "takeWhile (\<lambda>d. d \<noteq> c) (h @ c # r) = h" "dropWhile (\<lambda>d. d \<noteq> c) (h @ c # r) = c # r"
    using c by (induction h) auto
  then show ?thesis by (simp add: upto_char_def)
qed

lemma hex_digit_mem: "d < 16 \<Longrightarrow> hex_digit d \<in> set ''0123456789abcdef''"
  unfolding hex_digit_def by (rule nth_mem) simp

lemma hex_encode_chars: "set (demo_hex_encode b) \<subseteq> set ''0123456789abcdef''"
proof (induction b)
  case (Cons c b)
  have "(of_char c :: nat) < 256" by simp
  then have "(of_char c :: nat) div 16 < 16" by (simp only: less_mult_imp_div_less)
  then have "hex_digit ((of_char c :: nat) div 16) \<in> set ''0123456789abcdef''"
      "hex_digit ((of_char c :: nat) mod 16) \<in> set ''0123456789abcdef''"
    by (simp_all only: hex_digit_mem mod_less_divisor zero_less_numeral)
  then show ?case using Cons by simp
qed simp

lemma hex_upto_found:
  assumes "c \<notin> set ''0123456789abcdef''"
  shows "hex_upto c (demo_hex_encode b @ c # r) = Some (b, r)"
proof -
  have "c \<notin> set (demo_hex_encode b)"
    using assms hex_encode_chars [of b] by blast
  then show ?thesis
    by (simp add: hex_upto_def upto_char_found demo_hex_decode_encode)
qed

lemma digits_upto_found:
  assumes "c \<notin> set ''0123456789''"
  shows "upto_char c (show_nat n @ c # r) = Some (show_nat n, r)"
  using assms show_nat_digits [of c n] by (intro upto_char_found) blast

lemma demo_text_not_Nil: "demo_text j \<noteq> []"
  by (cases j rule: demo_text.cases) simp_all

lemma demo_text_head: "hd (demo_text j) \<in> set ''ntfids[{''"
  by (cases j rule: demo_text.cases) simp_all

lemma demo_value_text:
  "length (demo_text j) \<le> k \<Longrightarrow> demo_value k (demo_text j @ r) = Some (j, r)"
proof (induction j arbitrary: k r rule: demo_text.induct)
  case (6 xs)
  have items: "length (concat (map demo_text ys)) < k' \<Longrightarrow>
      demo_items k' (concat (map demo_text ys) @ CHR '']'' # r') = Some (ys, r')"
    if "set ys \<subseteq> set xs" for ys k' r'
    using that
  proof (induction ys arbitrary: k')
    case Nil
    then show ?case by (cases k') simp_all
  next
    case (Cons y ys)
    obtain k'' where k: "k' = Suc k''" using Cons.prems by (cases k') simp_all
    obtain c s where t: "demo_text y = c # s" using demo_text_not_Nil by (cases "demo_text y") simp_all
    have "c \<noteq> CHR '']''" using demo_text_head [of y] t by auto
    moreover have "demo_value k'' (demo_text y @ concat (map demo_text ys) @ CHR '']'' # r')
        = Some (y, concat (map demo_text ys) @ CHR '']'' # r')"
      using Cons.prems k "6.IH" [of y k''] by simp
    moreover have "demo_items k'' (concat (map demo_text ys) @ CHR '']'' # r') = Some (ys, r')"
      using Cons.prems k t by (intro Cons.IH) simp_all
    ultimately show ?case using k t by simp
  qed
  obtain k' where "k = Suc k'" using 6(2) by (cases k) simp_all
  then show ?case using 6(2) items [of xs k' r] by simp
next
  case (7 m)
  let ?t = "\<lambda>(i, v). demo_hex_encode i @ '':'' @ demo_text v"
  have members: "length (concat (map ?t ys)) < k' \<Longrightarrow>
      demo_members k' (concat (map ?t ys) @ CHR ''}'' # r') = Some (ys, r')"
    if "set ys \<subseteq> set m" for ys k' r'
    using that
  proof (induction ys arbitrary: k')
    case Nil
    then show ?case by (cases k') simp_all
  next
    case (Cons y ys)
    obtain i v where y: "y = (i, v)" by force
    obtain k'' where k: "k' = Suc k''" using Cons.prems by (cases k') simp_all
    let ?rest = "concat (map ?t ys) @ CHR ''}'' # r'"
    have key: "hex_upto (CHR '':'') (demo_hex_encode i @ CHR '':'' # demo_text v @ ?rest) = Some (i, demo_text v @ ?rest)"
      by (rule hex_upto_found) simp
    obtain c s where t: "demo_hex_encode i @ CHR '':'' # demo_text v @ ?rest = c # s"
      by (cases "demo_hex_encode i") simp_all
    have "c \<in> set (demo_hex_encode i) \<union> {CHR '':''}"
      using t by (cases "demo_hex_encode i") auto
    then have c: "c \<noteq> CHR ''}''" using hex_encode_chars [of i] by auto
    have "demo_value k'' (demo_text v @ ?rest) = Some (v, ?rest)"
      using Cons.prems k y "7.IH" [of "(i, v)" i v k''] by simp
    moreover have "demo_members k'' ?rest = Some (ys, r')"
      using Cons.prems k y by (intro Cons.IH) simp_all
    ultimately have "demo_members (Suc k'') (c # s) = Some (y # ys, r')"
      using key c y unfolding t by simp
    then show ?case using k y unfolding t [symmetric] by simp
  qed
  obtain k' where "k = Suc k'" using 7(2) by (cases k) simp_all
  then show ?case using 7(2) members [of m k' r] by simp
qed (auto simp: hex_upto_found digits_upto_found read_show_nat gr0_conv_Suc Suc_le_eq split: if_splits
      elim!: less_natE)

lemma demo_parse_text: "demo_parse (demo_text j) = Inr j"
  using demo_value_text [of j "length (demo_text j)" "[]"] by (simp add: demo_parse_def)

lemma demo_text_chars: "c \<in> set (demo_text j) \<Longrightarrow> 0x20 < (of_char c :: nat) \<and> (of_char c :: nat) < 0x80"
proof (induction j rule: demo_text.induct)
  case (3 w)
  then show ?case using show_nat_digits [of c "unat w"] by auto
next
  case (4 f)
  then show ?case using show_nat_digits [of c "unat (f64_bits f)"] by auto
next
  case (5 s)
  then show ?case using hex_encode_chars [of s] by auto
next
  case (6 xs)
  then show ?case by auto
next
  case (7 m)
  then consider "c \<in> set ''{:}''" | i v where "(i, v) \<in> set m" "c \<in> set (demo_hex_encode i)"
    | i v where "(i, v) \<in> set m" "c \<in> set (demo_text v)" by fastforce
  then show ?case
  proof cases
    case 2
    then show ?thesis using hex_encode_chars [of i] by auto
  next
    case 3
    then show ?thesis using 7(1) by blast
  qed auto
qed (auto split: if_splits)


section \<open>Manifests and keys\<close>

record demo_manifest =
  dm_name :: string
  dm_tools :: "string list"
  dm_mcp :: "string list"
  dm_delegates :: "string list"

definition json_strings :: "string list \<Rightarrow> 'n json" where
  "json_strings ss = JArray (map JString ss)"

fun strings_of_json :: "'n json \<Rightarrow> string list option" where
  "strings_of_json (JArray xs) = those (map j_as_str xs)"
| "strings_of_json _ = None"

definition demo_man_to_json :: "demo_manifest \<Rightarrow> json_fault + 'n json" where
  "demo_man_to_json m = Inr (JObject
     [(''name'', JString (dm_name m)), (''tools'', json_strings (dm_tools m)),
      (''mcp_servers'', json_strings (dm_mcp m)), (''delegates'', json_strings (dm_delegates m))])"

definition demo_man_of_json :: "'n json \<Rightarrow> json_fault + demo_manifest" where
  "demo_man_of_json j =
     (case (Option.bind (j_get ''name'' j) j_as_str, Option.bind (j_get ''tools'' j) strings_of_json,
            Option.bind (j_get ''mcp_servers'' j) strings_of_json,
            Option.bind (j_get ''delegates'' j) strings_of_json) of
        (Some n, Some t, Some s, Some d) \<Rightarrow>
          Inr \<lparr>dm_name = n, dm_tools = t, dm_mcp = s, dm_delegates = d\<rparr>
      | _ \<Rightarrow> Inl (Custom_Fault ''manifest''))"

lemma those_strings [simp]: "those (map (j_as_str \<circ> JString) ss) = Some ss"
  by (induction ss) simp_all

lemma strings_of_json_strings [simp]: "strings_of_json (json_strings ss) = Some ss"
  by (simp add: json_strings_def)

definition demo_sign :: "char \<Rightarrow> bytes \<Rightarrow> bytes" where
  "demo_sign k m = k # take 63 (m @ replicate 63 (CHR 0x00))"

definition demo_ext :: "bool \<Rightarrow> (demo_manifest, demo_num, char) ext" where
  "demo_ext checks = \<lparr>
     x_num_text = demo_num_text,
     x_str_text = demo_str_text,
     x_num_of_u32 = DInt,
     x_num_of_f64 = demo_num_of_f64,
     x_num_as_f64 = demo_as_f64,
     x_num_as_u64 = demo_as_u64,
     x_json_text = demo_text,
     x_json_parse = demo_parse,
     x_man_to_json = demo_man_to_json,
     x_man_of_json = demo_man_of_json,
     x_tools = (\<lambda>m. map Local_Tool (dm_tools m)),
     x_mcp_names = dm_mcp,
     x_delegate_names = dm_delegates,
     x_sha256 = (\<lambda>m. m),
     x_sign = demo_sign,
     x_verifying_key = (\<lambda>k. replicate 32 k),
     x_vk_from_bytes = (\<lambda>b. if length b = 32 then Inr () else Inl ''Cannot decompress Edwards point''),
     x_verify = (\<lambda>b m s. if s = demo_sign (hd b) m then Inr () else Inl ''signature error''),
     x_hex_encode = demo_hex_encode,
     x_hex_decode = demo_hex_decode,
     x_unified_diff = (\<lambda>a b. if a = b then [] else ''-'' @ a @ ''+'' @ b),
     x_f64_text = (\<lambda>f. show_nat (unat (f64_bits f))),
     x_overflow_checks = checks\<rparr>"


section \<open>The instance satisfies the laws\<close>

lemma demo_ext_simps [simp]:
  "x_num_text (demo_ext checks) = demo_num_text"
  "x_str_text (demo_ext checks) = demo_str_text"
  "x_num_of_u32 (demo_ext checks) = DInt"
  "x_num_of_f64 (demo_ext checks) = demo_num_of_f64"
  "x_num_as_f64 (demo_ext checks) = demo_as_f64"
  "x_num_as_u64 (demo_ext checks) = demo_as_u64"
  "x_json_text (demo_ext checks) = demo_text"
  "x_json_parse (demo_ext checks) = demo_parse"
  "x_man_to_json (demo_ext checks) = demo_man_to_json"
  "x_man_of_json (demo_ext checks) = demo_man_of_json"
  "x_tools (demo_ext checks) = (\<lambda>m. map Local_Tool (dm_tools m))"
  "x_mcp_names (demo_ext checks) = dm_mcp"
  "x_delegate_names (demo_ext checks) = dm_delegates"
  "x_sha256 (demo_ext checks) = (\<lambda>m. m)"
  "x_sign (demo_ext checks) = demo_sign"
  "x_verifying_key (demo_ext checks) = (\<lambda>k. replicate 32 k)"
  "x_vk_from_bytes (demo_ext checks) = (\<lambda>b. if length b = 32 then Inr () else Inl ''Cannot decompress Edwards point'')"
  "x_verify (demo_ext checks) = (\<lambda>b m s. if s = demo_sign (hd b) m then Inr () else Inl ''signature error'')"
  "x_hex_encode (demo_ext checks) = demo_hex_encode"
  "x_hex_decode (demo_ext checks) = demo_hex_decode"
  "x_unified_diff (demo_ext checks) = (\<lambda>a b. if a = b then [] else ''-'' @ a @ ''+'' @ b)"
  "x_f64_text (demo_ext checks) = (\<lambda>f. show_nat (unat (f64_bits f)))"
  "x_overflow_checks (demo_ext checks) = checks"
  by (simp_all add: demo_ext_def)

lemma demo_str_prefix_free:
  "demo_str_text s = Inr t \<Longrightarrow> demo_str_text s' = Inr t' \<Longrightarrow> t @ u = t' @ u' \<Longrightarrow> s = s' \<and> u = u'"
  using esc_prefix_free [of s u s' u'] by (auto simp: demo_str_text_def)

lemma demo_json_text_laws [simp]: "json_text_laws (demo_ext b)"
  unfolding json_text_laws_def demo_ext_simps
  by (intro conjI allI impI demo_num_text_inj)
    (simp add: demo_str_text_def,
     (blast dest: demo_str_prefix_free [THEN conjunct1] demo_str_prefix_free [THEN conjunct2])+,
     (simp_all add: demo_num_text_chars))

lemma demo_json_num_laws [simp]: "json_num_laws (demo_ext b)"
  unfolding json_num_laws_def demo_ext_simps
  by (auto simp: demo_num_of_f64_def split: if_splits elim!: demo_as_f64.elims)

lemma demo_manifest_laws [simp]: "manifest_laws (demo_ext b)"
  by (simp add: manifest_laws_def demo_man_to_json_def demo_man_of_json_def json_strings_def)

lemma demo_crypto_laws [simp]: "crypto_laws (demo_ext b)"
  by (auto simp: crypto_laws_def demo_sign_def demo_hex_decode_encode min_def)


section \<open>Sample manifests\<close>

definition demo_man :: "string list \<Rightarrow> demo_manifest" where
  "demo_man tools = \<lparr>dm_name = ''agent'', dm_tools = tools, dm_mcp = [''files''], dm_delegates = []\<rparr>"

lemma demo_man_simps [simp]:
  "dm_name (demo_man tools) = ''agent''" "dm_tools (demo_man tools) = tools"
  "dm_mcp (demo_man tools) = [''files'']" "dm_delegates (demo_man tools) = []"
  by (simp_all add: demo_man_def)

end
