(* ===== verification/Veh_Intent.thy ===== *)
theory Veh_Intent
  imports Veh_Serde Veh_Demo
begin

text \<open>
  \<^verbatim>\<open>src/intent.rs\<close>: the mutation intent with its builders and the rollback intent, the governance
  scope, and the JSON shapes their serde attributes derive.
\<close>

section \<open>Mutation intents\<close>

record 'n mutation_intent =
  mi_goal :: string
  mi_rationale :: string
  mi_expected_improvement :: "f64 option"
  mi_constraints :: "string list"
  mi_metadata :: "'n json"

definition intent_new :: "string \<Rightarrow> 'n mutation_intent" where
  "intent_new g = \<lparr>mi_goal = g, mi_rationale = [], mi_expected_improvement = None,
                   mi_constraints = [], mi_metadata = JNull\<rparr>"

definition with_rationale :: "'n mutation_intent \<Rightarrow> string \<Rightarrow> 'n mutation_intent" where
  "with_rationale i r = i\<lparr>mi_rationale := r\<rparr>"

definition with_expected_improvement :: "'n mutation_intent \<Rightarrow> f64 \<Rightarrow> 'n mutation_intent" where
  "with_expected_improvement i d = i\<lparr>mi_expected_improvement := Some d\<rparr>"

definition with_constraint :: "'n mutation_intent \<Rightarrow> string \<Rightarrow> 'n mutation_intent" where
  "with_constraint i tag = i\<lparr>mi_constraints := mi_constraints i @ [tag]\<rparr>"

definition intent_rollback :: "string \<Rightarrow> 'n mutation_intent" where
  "intent_rollback target =
     \<lparr>mi_goal = ''rollback'', mi_rationale = ''revert to '' @ target, mi_expected_improvement = None,
      mi_constraints = [], mi_metadata = JObject [(''rollback_target'', JString target)]\<rparr>"

definition rollback_target :: "'n mutation_intent \<Rightarrow> string option" where
  "rollback_target i =
     (if mi_goal i \<noteq> ''rollback'' then None
      else Option.bind (j_get ''rollback_target'' (mi_metadata i)) j_as_str)"

definition intent_to_json :: "('m, 'n, 'k) ext \<Rightarrow> 'n mutation_intent \<Rightarrow> 'n json" where
  "intent_to_json X i = JObject
     [(''goal'', JString (mi_goal i)),
      (''rationale'', JString (mi_rationale i)),
      (''expected_improvement'', json_of_option (json_of_f64 X) (mi_expected_improvement i)),
      (''constraints'', json_of_strings (mi_constraints i)),
      (''metadata'', mi_metadata i)]"

definition intent_from_json :: "('m, 'n, 'k) ext \<Rightarrow> ('n, 'n mutation_intent) decoder" where
  "intent_from_json X j =
     res_bind (struct_view [''goal'', ''rationale'', ''expected_improvement'', ''constraints'', ''metadata''] j) (\<lambda>w.
     res_bind (field_req w ''goal'' dec_string) (\<lambda>g.
     res_bind (field_default w ''rationale'' [] dec_string) (\<lambda>r.
     res_bind (field_default w ''expected_improvement'' None (dec_option (dec_f64 X))) (\<lambda>e.
     res_bind (field_default w ''constraints'' [] (dec_vec dec_string)) (\<lambda>c.
     res_bind (field_default w ''metadata'' JNull dec_value) (\<lambda>m.
     Inr \<lparr>mi_goal = g, mi_rationale = r, mi_expected_improvement = e,
          mi_constraints = c, mi_metadata = m\<rparr>))))))"


section \<open>Governance scope\<close>

record allowed_scope =
  sc_allowed_tools :: "string list"
  sc_allowed_mcp_servers :: "string list"
  sc_allowed_delegates :: "string list"
  sc_max_generation :: "u32 option"
  sc_gated_capabilities :: "string list"

definition scope_default :: allowed_scope where
  "scope_default = \<lparr>sc_allowed_tools = [], sc_allowed_mcp_servers = [], sc_allowed_delegates = [],
                    sc_max_generation = None, sc_gated_capabilities = []\<rparr>"

definition scope_to_json :: "('m, 'n, 'k) ext \<Rightarrow> allowed_scope \<Rightarrow> 'n json" where
  "scope_to_json X s = JObject
     [(''allowed_tools'', json_of_strings (sc_allowed_tools s)),
      (''allowed_mcp_servers'', json_of_strings (sc_allowed_mcp_servers s)),
      (''allowed_delegates'', json_of_strings (sc_allowed_delegates s)),
      (''max_generation'', json_of_option (json_of_u32 X) (sc_max_generation s)),
      (''gated_capabilities'', json_of_strings (sc_gated_capabilities s))]"

definition scope_from_json :: "('m, 'n, 'k) ext \<Rightarrow> ('n, allowed_scope) decoder" where
  "scope_from_json X j =
     res_bind (struct_view [''allowed_tools'', ''allowed_mcp_servers'', ''allowed_delegates'',
                            ''max_generation'', ''gated_capabilities''] j) (\<lambda>w.
     res_bind (field_default w ''allowed_tools'' [] (dec_vec dec_string)) (\<lambda>t.
     res_bind (field_default w ''allowed_mcp_servers'' [] (dec_vec dec_string)) (\<lambda>s.
     res_bind (field_default w ''allowed_delegates'' [] (dec_vec dec_string)) (\<lambda>d.
     res_bind (field_default w ''max_generation'' None (dec_option (dec_u32 X))) (\<lambda>g.
     res_bind (field_default w ''gated_capabilities'' [] (dec_vec dec_string)) (\<lambda>c.
     Inr \<lparr>sc_allowed_tools = t, sc_allowed_mcp_servers = s, sc_allowed_delegates = d,
          sc_max_generation = g, sc_gated_capabilities = c\<rparr>))))))"


section \<open>Lemmas\<close>

definition wf_intent :: "'n mutation_intent \<Rightarrow> bool" where
  "wf_intent i \<longleftrightarrow> wf_json (mi_metadata i)"

lemma wf_intent_to_json [simp, veh_wf]: "wf_json (intent_to_json X i) \<longleftrightarrow> wf_intent i"
  by (simp add: intent_to_json_def wf_intent_def)

lemma wf_scope_to_json [simp, veh_wf]: "wf_json (scope_to_json X s)"
  by (simp add: scope_to_json_def)

lemma wf_intent_new [simp, veh_wf]: "wf_intent (intent_new g)"
  by (simp add: wf_intent_def intent_new_def)

lemma wf_intent_rollback [simp, veh_wf]: "wf_intent (intent_rollback t)"
  by (simp add: wf_intent_def intent_rollback_def)

lemma rollback_target_rollback [simp]: "rollback_target (intent_rollback t) = Some t"
  by (simp add: rollback_target_def intent_rollback_def)

lemma rollback_target_new [simp]: "g \<noteq> ''rollback'' \<Longrightarrow> rollback_target (intent_new g) = None"
  by (simp add: rollback_target_def intent_new_def)

lemma intent_round_trip:
  assumes "json_num_laws X"
  shows "intent_from_json X (intent_to_json X i)
       = Inr (i\<lparr>mi_expected_improvement := finite_only (mi_expected_improvement i)\<rparr>)"
  by (simp add: intent_from_json_def intent_to_json_def field_req_def field_default_def
      dec_option_f64 [OF assms] dec_value_def)

lemma scope_round_trip:
  assumes "json_num_laws X"
  shows "scope_from_json X (scope_to_json X s) = Inr s"
  by (simp add: scope_from_json_def scope_to_json_def field_default_def dec_option_u32 [OF assms])

lemma intent_to_json_finite_only:
  assumes "json_num_laws X"
  shows "intent_to_json X (i\<lparr>mi_expected_improvement := finite_only (mi_expected_improvement i)\<rparr>)
       = intent_to_json X i"
  by (simp add: intent_to_json_def json_of_finite_only [OF assms])


section \<open>Properties\<close>

text \<open>
  A rollback intent names its target, also after it was written to JSON and read back; an intent
  with any other goal names none.
\<close>

lemma rollback_target_survives:
  assumes "json_num_laws X"
  shows "(\<exists>i. intent_from_json X (intent_to_json X (intent_rollback t)) = Inr i \<and> rollback_target i = Some t) \<and>
     (mi_goal j \<noteq> ''rollback'' \<longrightarrow> rollback_target j = None)"
  by (simp add: intent_round_trip [OF assms]) (simp add: rollback_target_def intent_rollback_def)

end
