(* ===== verification/Veh_Artifact.thy ===== *)
theory Veh_Artifact
  imports Veh_Demo
begin

text \<open>
  \<^verbatim>\<open>src/artifact.rs\<close>: the artifact wrapper, the canonical JSON writer behind hashing and signing,
  and the capability SBOM. The reference for the writer is \<open>render (norm_json v)\<close>: sort the entries
  of every object, then print the tree; the lemmas show that the writer implements it, that it never
  fails, that it does not depend on the order of object entries and that it loses nothing else.
\<close>

section \<open>Data\<close>

record 'm agent_artifact =
  manifest :: 'm

definition artifact_new :: "'m \<Rightarrow> 'm agent_artifact" where
  "artifact_new m = \<lparr>manifest = m\<rparr>"


section \<open>Canonical JSON\<close>

text \<open>
  The writer, arm by arm. It produces the bytes it appends to the output buffer; an I/O error is
  its message. The members of an object are written in the order of its sorted keys, each value
  looked up by its key.
\<close>

function write_canonical :: "('m, 'n, 'k) ext \<Rightarrow> 'n json \<Rightarrow> string + bytes"
  and write_items :: "('m, 'n, 'k) ext \<Rightarrow> nat \<Rightarrow> 'n json list \<Rightarrow> string + bytes"
  and write_members ::
    "('m, 'n, 'k) ext \<Rightarrow> (string \<times> 'n json) list \<Rightarrow> nat \<Rightarrow> string list \<Rightarrow> string + bytes"
where
  "write_canonical X JNull = Inr ''null''"
| "write_canonical X (JBool b) = Inr (if b then ''true'' else ''false'')"
| "write_canonical X (JNumber n) = Inr (x_num_text X n)"
| "write_canonical X (JString s) = x_str_text X s"
| "write_canonical X (JArray items) =
     res_bind (write_items X 0 items) (\<lambda>body. Inr (''['' @ body @ '']''))"
| "write_canonical X (JObject m) =
     res_bind (write_members X m 0 (sort (map fst m))) (\<lambda>body. Inr (''{'' @ body @ ''}''))"
| "write_items X idx [] = Inr []"
| "write_items X idx (item # items) =
     res_bind (write_canonical X item) (\<lambda>t.
     res_bind (write_items X (idx + 1) items) (\<lambda>rest.
     Inr ((if idx > 0 then '','' else []) @ t @ rest)))"
| "write_members X m idx [] = Inr []"
| "write_members X m idx (key # keys) =
     res_bind (x_str_text X key) (\<lambda>encoded_key.
     case map_of m key of
       None \<Rightarrow> Inl ''canonical_json: key vanished mid-iteration''
     | Some v \<Rightarrow>
         res_bind (write_canonical X v) (\<lambda>t.
         res_bind (write_members X m (idx + 1) keys) (\<lambda>rest.
         Inr ((if idx > 0 then '','' else []) @ encoded_key @ '':'' @ t @ rest))))"
  by pat_completeness auto
termination
  by (relation "measures
       [\<lambda>a. case a of Inl (X, v) \<Rightarrow> Suc (2 * size v)
          | Inr (Inl (X, idx, xs)) \<Rightarrow> 2 * size_list size xs
          | Inr (Inr (X, m, idx, ks)) \<Rightarrow> 2 * size (JObject m),
        \<lambda>a. case a of Inl _ \<Rightarrow> 0 | Inr (Inl _) \<Rightarrow> 0 | Inr (Inr (X, m, idx, ks)) \<Rightarrow> length ks]")
    (auto dest!: map_of_SomeD size_json_entry)

definition canonical_json :: "('m, 'n, 'k) ext \<Rightarrow> 'n json \<Rightarrow> bytes res" where
  "canonical_json X v = map_err Canonical (write_canonical X v)"

definition canonical_bytes :: "('m, 'n, 'k) ext \<Rightarrow> 'm agent_artifact \<Rightarrow> bytes res" where
  "canonical_bytes X a =
     res_bind (map_err Json (x_man_to_json X (manifest a))) (canonical_json X)"


section \<open>Capability SBOM\<close>

text \<open>Tools, MCP servers and delegates with their kind prefix; sorted, duplicates removed.\<close>

definition tool_capability :: "tool_spec \<Rightarrow> string" where
  "tool_capability t = (case t of Local_Tool name \<Rightarrow> ''tool:'' @ name)"

definition capability_sbom :: "('m, 'n, 'k) ext \<Rightarrow> 'm agent_artifact \<Rightarrow> string list" where
  "capability_sbom X a =
     (let out = map tool_capability (x_tools X (manifest a))
              @ map (\<lambda>name. ''mcp:'' @ name) (x_mcp_names X (manifest a))
              @ map (\<lambda>name. ''delegate:'' @ name) (x_delegate_names X (manifest a))
      in remdups_adj (sort out))"


section \<open>The reference printer\<close>

text \<open>Normal form: the entries of every object sorted by key.\<close>

fun norm_json :: "'n json \<Rightarrow> 'n json" where
  "norm_json (JArray xs) = JArray (map norm_json xs)"
| "norm_json (JObject m) = JObject (sort_key fst (map (\<lambda>(k, v). (k, norm_json v)) m))"
| "norm_json v = v"

fun join :: "string \<Rightarrow> string list \<Rightarrow> string" where
  "join sep [] = []"
| "join sep [x] = x"
| "join sep (x # y # ys) = x @ sep @ join sep (y # ys)"

text \<open>The text of a string, for a library that never fails on one.\<close>

definition str_lit :: "('m, 'n, 'k) ext \<Rightarrow> string \<Rightarrow> string" where
  "str_lit X s = (case x_str_text X s of Inl _ \<Rightarrow> [] | Inr t \<Rightarrow> t)"

fun render :: "('m, 'n, 'k) ext \<Rightarrow> 'n json \<Rightarrow> string" where
  "render X JNull = ''null''"
| "render X (JBool b) = (if b then ''true'' else ''false'')"
| "render X (JNumber n) = x_num_text X n"
| "render X (JString s) = str_lit X s"
| "render X (JArray xs) = ''['' @ join '','' (map (render X) xs) @ '']''"
| "render X (JObject m) =
     ''{'' @ join '','' (map (\<lambda>(k, v). str_lit X k @ '':'' @ render X v) m) @ ''}''"


section \<open>The writer implements the reference printer\<close>

lemma str_lit_text: "json_text_laws X \<Longrightarrow> x_str_text X s = Inr (str_lit X s)"
  by (erule str_text_total [of X s]) (simp add: str_lit_def)

lemma join_Cons: "join sep (x # xs) = x @ (if xs = [] then [] else sep @ join sep xs)"
  by (cases xs) auto

text \<open>Printing the members by key lookup is printing the sorted entries.\<close>

lemma members_of_sorted_entries:
  assumes "distinct (map fst m)"
  shows "map (\<lambda>k. F k (h (the (map_of m k)))) (sort (map fst m))
       = map (\<lambda>(k, v). F k v) (sort_key fst (map (\<lambda>(k, v). (k, h v)) m))"
proof -
  have entry: "map_of m (fst e) = Some (snd e)" if "e \<in> set (sort_key fst m)" for e
    using that assms by (simp add: map_of_is_SomeI)
  have "map (\<lambda>e. F (fst e) (h (the (map_of m (fst e))))) (sort_key fst m)
      = map (\<lambda>e. F (fst e) (h (snd e))) (sort_key fst m)"
    by (rule map_cong [OF refl]) (simp only: entry option.sel)
  then show ?thesis
    by (simp only: sort_key_fst_map [symmetric] sort_key_map split_beta fst_conv snd_conv map_map comp_def)
qed

lemma write_refines:
  shows "json_text_laws X \<Longrightarrow> wf_json v \<Longrightarrow>
           write_canonical X v = Inr (render X (norm_json v))"
    and "json_text_laws X \<Longrightarrow> (\<forall>x \<in> set xs. wf_json x) \<Longrightarrow> write_items X idx xs =
           Inr ((if idx > 0 \<and> xs \<noteq> [] then '','' else []) @
                join '','' (map (\<lambda>x. render X (norm_json x)) xs))"
    and "json_text_laws X \<Longrightarrow> wf_json (JObject m) \<Longrightarrow> set ks \<subseteq> fst ` set m \<Longrightarrow>
         write_members X m jdx ks =
           Inr ((if jdx > 0 \<and> ks \<noteq> [] then '','' else []) @
                join '','' (map (\<lambda>k. str_lit X k @ '':'' @ render X (norm_json (the (map_of m k)))) ks))"
proof (induction X v and X idx xs and X m jdx ks
    rule: write_canonical_write_items_write_members.induct)
  case (6 X m)
  then show ?case
    by (simp add: members_of_sorted_entries
        [where F = "\<lambda>k v. str_lit X k @ CHR '':'' # render X v" and h = norm_json])
next
  case (10 X m idx key keys)
  note str = str_lit_text [OF "10.prems"(1), of key]
  obtain v where v: "map_of m key = Some v"
    using "10.prems"(3) by (metis (no_types) list.set_intros(1) map_of_eq_None_iff not_Some_eq subset_eq)
  then have "wf_json v"
    using "10.prems"(2) by (auto dest!: map_of_SomeD)
  with "10.IH"(1) [OF str v] "10.IH"(2) [OF str v] "10.prems" v str show ?case
    by (simp add: join_Cons)
qed (simp_all add: str_lit_text join_Cons comp_def)

text \<open>The writer never fails on a well-formed value.\<close>

lemma canonical_json_render:
  "json_text_laws X \<Longrightarrow> wf_json v \<Longrightarrow> canonical_json X v = Inr (render X (norm_json v))"
  by (simp add: canonical_json_def write_refines(1))


section \<open>The reference printer is prefix free\<close>

text \<open>
  A rest is \<open>delimited\<close> when it does not go on with a number character. Followed by delimited rests,
  two printed values that give the same text are the same value and leave the same rest.
\<close>

definition delimited :: "string \<Rightarrow> bool" where
  "delimited u \<longleftrightarrow> u = [] \<or> hd u \<notin> num_chars"

lemma delimited_simps [simp]:
  "delimited []"
  "delimited (c # u) \<longleftrightarrow> c \<notin> num_chars"
  by (simp_all add: delimited_def)

lemma join_prefix_free:
  assumes pf: "\<And>x y u u'. x \<in> set xs \<Longrightarrow> r x @ u = r y @ u' \<Longrightarrow> delimited u \<Longrightarrow> delimited u'
                 \<Longrightarrow> x = y \<and> u = u'"
    and first: "\<And>y. \<exists>d t. r y = d # t \<and> d \<noteq> c"
    and c: "c \<noteq> CHR '',''" "c \<notin> num_chars"
    and eq: "join '','' (map r xs) @ c # u = join '','' (map r ys) @ c # u'"
  shows "xs = ys \<and> u = u'"
  using pf eq
proof (induction xs arbitrary: ys)
  case Nil
  show ?case
  proof (cases ys)
    case (Cons y ys')
    obtain d t where "r y = d # t" "d \<noteq> c" using first [of y] by blast
    with Nil.prems(2) Cons show ?thesis by (simp add: join_Cons)
  qed (use Nil.prems(2) in simp)
next
  case (Cons x xs)
  have comma: "CHR '','' \<notin> num_chars" by (simp add: num_chars_def)
  let ?t = "\<lambda>zs v. if zs = [] then c # v else CHR '','' # join '','' (map r zs) @ c # v"
  have split: "join '','' (map r (z # zs)) @ c # v = r z @ ?t zs v" for z zs v
    by (simp add: join_Cons)
  have delim: "delimited (?t zs v)" for zs v
    using c(2) comma by simp
  obtain y ys' where ys: "ys = y # ys'"
  proof (cases ys)
    case Nil
    obtain d t where "r x = d # t" "d \<noteq> c" using first [of x] by blast
    with Cons.prems(2) Nil show ?thesis by (simp add: join_Cons)
  qed (rule that)
  have xy: "x = y \<and> ?t xs u = ?t ys' u'"
    by (rule Cons.prems(1)) (use Cons.prems(2) in \<open>simp_all only: ys split delim list.set_intros\<close>)
  have "xs = ys' \<and> u = u'"
  proof (cases "xs = [] \<or> ys' = []")
    case True
    then show ?thesis using xy c(1) by (auto split: if_splits)
  next
    case False
    then have "join '','' (map r xs) @ c # u = join '','' (map r ys') @ c # u'"
      using xy by simp
    then show ?thesis by (intro Cons.IH Cons.prems(1)) auto
  qed
  with xy ys show ?case by simp
qed

lemma num_text_prefix_free:
  assumes "json_text_laws X" and "x_num_text X n @ u = x_num_text X n' @ u'"
    and "delimited u" and "delimited u'"
  shows "n = n' \<and> u = u'"
proof -
  have chars: "set (x_num_text X k) \<subseteq> num_chars" for k
    using assms(1) by (simp add: json_text_laws_def)
  have tw: "takeWhile (\<lambda>c. c \<in> num_chars) (x_num_text X k @ v) = x_num_text X k"
    if "delimited v" for k v
  proof -
    have "takeWhile (\<lambda>c. c \<in> num_chars) (x_num_text X k @ v)
        = x_num_text X k @ takeWhile (\<lambda>c. c \<in> num_chars) v"
      using chars by (intro takeWhile_append2) auto
    also have "takeWhile (\<lambda>c. c \<in> num_chars) v = []"
      using that by (cases v) auto
    finally show ?thesis by simp
  qed
  have "x_num_text X n = x_num_text X n'"
    using tw [OF assms(3), of n] tw [OF assms(4), of n'] assms(2) by simp
  then show ?thesis
    using assms(1,2) by (auto simp: json_text_laws_def inj_def)
qed

lemma str_lit_prefix_free:
  assumes "json_text_laws X" and "str_lit X s @ u = str_lit X s' @ u'"
  shows "s = s' \<and> u = u'"
  using assms(1) assms(2) str_lit_text [OF assms(1), of s] str_lit_text [OF assms(1), of s']
  unfolding json_text_laws_def by blast

text \<open>The first character of a printed value tells its constructor.\<close>

definition head_ok :: "'n json \<Rightarrow> char \<Rightarrow> bool" where
  "head_ok v c = (case v of
       JNull \<Rightarrow> c = CHR ''n'' | JBool b \<Rightarrow> c = (if b then CHR ''t'' else CHR ''f'')
     | JNumber _ \<Rightarrow> c \<in> num_chars | JString _ \<Rightarrow> c = CHR 0x22
     | JArray _ \<Rightarrow> c = CHR ''['' | JObject _ \<Rightarrow> c = CHR ''{'')"

lemma render_head:
  assumes "json_text_laws X"
  shows "\<exists>c t. render X v = c # t \<and> head_ok v c"
proof (cases v)
  case (JNumber n)
  have "x_num_text X n \<noteq> []" and "set (x_num_text X n) \<subseteq> num_chars"
    using assms by (auto simp: json_text_laws_def)
  then show ?thesis using JNumber by (cases "x_num_text X n") (auto simp: head_ok_def)
next
  case (JString s)
  then show ?thesis
    using str_lit_text [OF assms, of s] str_text_total [OF assms, of s] by (auto simp: head_ok_def)
qed (auto simp: head_ok_def)

lemma str_lit_head:
  assumes "json_text_laws X"
  obtains t where "str_lit X s = CHR 0x22 # t"
  using str_lit_text [OF assms, of s] str_text_total [OF assms, of s] by auto

lemma member_prefix_free:
  assumes laws: "json_text_laws X"
    and v: "\<And>w u u'. render X v @ u = render X w @ u' \<Longrightarrow> delimited u \<Longrightarrow> delimited u'
              \<Longrightarrow> v = w \<and> u = u'"
    and eq: "(str_lit X k @ CHR '':'' # render X v) @ u = (str_lit X l @ CHR '':'' # render X w) @ u'"
    and d: "delimited u" "delimited u'"
  shows "(k, v) = (l, w) \<and> u = u'"
proof -
  have "k = l \<and> CHR '':'' # render X v @ u = CHR '':'' # render X w @ u'"
    by (rule str_lit_prefix_free [OF laws]) (use eq in simp)
  then show ?thesis using v [of u w u'] d by simp
qed

lemma render_prefix_free:
  assumes laws: "json_text_laws X"
  shows "render X v @ u = render X w @ u' \<Longrightarrow> delimited u \<Longrightarrow> delimited u' \<Longrightarrow> v = w \<and> u = u'"
proof (induction v arbitrary: w u u')
  case JNull
  then show ?case using render_head [OF laws, of w]
    by (cases w) (auto simp: head_ok_def num_chars_def split: if_splits)
next
  case (JBool b)
  then show ?case using render_head [OF laws, of w]
    by (cases w) (auto simp: head_ok_def num_chars_def split: if_splits)
next
  case (JNumber n)
  then obtain n' where w: "w = JNumber n'"
    using render_head [OF laws, of w] render_head [OF laws, of "JNumber n"]
    by (cases w) (auto simp: head_ok_def num_chars_def split: if_splits)
  then show ?case
    using num_text_prefix_free [OF laws, of n u n' u'] JNumber w by simp
next
  case (JString s)
  then obtain s' where w: "w = JString s'"
    using render_head [OF laws, of w] render_head [OF laws, of "JString s"]
    by (cases w) (auto simp: head_ok_def num_chars_def split: if_splits)
  then show ?case
    using str_lit_prefix_free [OF laws, of s u s' u'] JString w by simp
next
  case (JArray xs)
  then obtain ys where w: "w = JArray ys"
    using render_head [OF laws, of w]
    by (cases w) (auto simp: head_ok_def num_chars_def split: if_splits)
  have "xs = ys \<and> u = u'"
  proof (rule join_prefix_free [where r = "render X" and c = "CHR '']''"])
    show "\<exists>d t. render X y = d # t \<and> d \<noteq> CHR '']''" for y
      using render_head [OF laws, of y]
      by (cases y) (auto simp: head_ok_def num_chars_def split: if_splits)
    show "join '','' (map (render X) xs) @ CHR '']'' # u = join '','' (map (render X) ys) @ CHR '']'' # u'"
      using JArray.prems(1) w by simp
  qed (use JArray.IH in \<open>auto simp: num_chars_def\<close>)
  with w show ?case by simp
next
  case (JObject m)
  then obtain m' where w: "w = JObject m'"
    using render_head [OF laws, of w]
    by (cases w) (auto simp: head_ok_def num_chars_def split: if_splits)
  let ?r = "\<lambda>(k, v). str_lit X k @ CHR '':'' # render X v"
  have "m = m' \<and> u = u'"
  proof (rule join_prefix_free [where r = ?r and c = "CHR ''}''"])
    fix e f t t'
    assume e: "e \<in> set m" and eq: "?r e @ t = ?r f @ t'" and d: "delimited t" "delimited t'"
    obtain k v l w where kv: "e = (k, v)" "f = (l, w)" by (cases e; cases f)
    have "(k, v) = (l, w) \<and> t = t'"
    proof (rule member_prefix_free [OF laws])
      show "v = w \<and> u = u'"
        if "render X v @ u = render X w @ u'" "delimited u" "delimited u'" for w u u'
        using JObject.IH [OF e _ that] kv(1) by simp
      show "(str_lit X k @ CHR '':'' # render X v) @ t = (str_lit X l @ CHR '':'' # render X w) @ t'"
        using eq kv by simp
    qed (fact d)+
    then show "e = f \<and> t = t'" using kv by simp
  next
    show "\<exists>d t. ?r y = d # t \<and> d \<noteq> CHR ''}''" for y
      by (cases y; rule str_lit_head [OF laws, of "fst y"]) auto
    show "join '','' (map ?r m) @ CHR ''}'' # u = join '','' (map ?r m') @ CHR ''}'' # u'"
      using JObject.prems(1) w by simp
  qed (auto simp: num_chars_def)
  with w show ?case by simp
qed


section \<open>What the canonical bytes determine\<close>

text \<open>
  Semantic equality of JSON values: arrays element by element, objects as finite maps, whatever
  the order of their entries.
\<close>

inductive json_eq :: "'n json \<Rightarrow> 'n json \<Rightarrow> bool" where
  eq_null: "json_eq JNull JNull"
| eq_bool: "json_eq (JBool b) (JBool b)"
| eq_number: "json_eq (JNumber n) (JNumber n)"
| eq_string: "json_eq (JString s) (JString s)"
| eq_array: "list_all2 json_eq xs ys \<Longrightarrow> json_eq (JArray xs) (JArray ys)"
| eq_object: "(\<And>k. rel_option json_eq (map_of m k) (map_of m' k)) \<Longrightarrow>
    json_eq (JObject m) (JObject m')"
monos list_all2_mono option.rel_mono_strong

inductive_simps json_eq_simps [simp]:
  "json_eq JNull w" "json_eq (JBool b) w" "json_eq (JNumber n) w" "json_eq (JString s) w"
  "json_eq (JArray xs) w" "json_eq (JObject m) w"

lemma map_of_norm: "map_of (map (\<lambda>(k, v). (k, norm_json v)) m) k = map_option norm_json (map_of m k)"
  by (simp add: map_of_map)

lemma fst_norm_entries [simp]: "map fst (map (\<lambda>(k, v). (k, norm_json v)) m) = map fst m"
  by (simp add: comp_def split_beta)

lemma norm_object_eq_iff:
  assumes "distinct (map fst m)" and "distinct (map fst m')"
  shows "norm_json (JObject m) = norm_json (JObject m') \<longleftrightarrow>
         (\<forall>k. map_option norm_json (map_of m k) = map_option norm_json (map_of m' k))"
    (is "?l \<longleftrightarrow> ?r")
proof -
  let ?n = "map (\<lambda>(k, v). (k, norm_json v)) m" and ?n' = "map (\<lambda>(k, v). (k, norm_json v)) m'"
  have d: "distinct (map fst ?n)" "distinct (map fst ?n')"
    using assms by (simp_all only: fst_norm_entries)
  have "?l \<longleftrightarrow> sort_key fst ?n = sort_key fst ?n'"
    by (simp only: norm_json.simps json.inject)
  also have "\<dots> \<longleftrightarrow> mset ?n = mset ?n'"
  proof
    assume "sort_key fst ?n = sort_key fst ?n'"
    then have "mset (sort_key fst ?n) = mset (sort_key fst ?n')" by (rule arg_cong)
    then show "mset ?n = mset ?n'" by (simp only: mset_sort)
  qed (rule sort_key_perm_distinct [OF _ d(1)])
  also have "\<dots> \<longleftrightarrow> set ?n = set ?n'"
    by (rule set_eq_iff_mset_eq_distinct
        [OF d(1) [THEN distinct_map [THEN iffD1, THEN conjunct1]]
            d(2) [THEN distinct_map [THEN iffD1, THEN conjunct1]], symmetric])
  also have "\<dots> \<longleftrightarrow> map_of ?n = map_of ?n'"
    using d by (simp only: map_of_inject_set)
  also have "\<dots> \<longleftrightarrow> ?r"
    by (simp only: fun_eq_iff map_of_norm)
  finally show ?thesis .
qed

lemma json_eq_norm:
  "json_eq v w \<Longrightarrow> wf_json v \<Longrightarrow> wf_json w \<Longrightarrow> norm_json v = norm_json w"
proof (induction rule: json_eq.induct)
  case (eq_array xs ys)
  then have "map norm_json xs = map norm_json ys"
    by (auto simp: list_all2_conv_all_nth intro!: nth_equalityI)
  then show ?case by simp
next
  case (eq_object m m')
  have "map_option norm_json (map_of m k) = map_option norm_json (map_of m' k)" for k
    using eq_object.IH [of k] eq_object.prems
    by (cases "map_of m k"; cases "map_of m' k") (fastforce dest: map_of_SomeD)+
  then show ?case
    using eq_object.prems norm_object_eq_iff [of m m'] by (simp del: norm_json.simps)
qed auto

lemma norm_json_eq:
  "norm_json v = norm_json w \<Longrightarrow> wf_json v \<Longrightarrow> wf_json w \<Longrightarrow> json_eq v w"
proof (induction v arbitrary: w)
  case (JArray xs)
  from JArray.prems(1) obtain ys where w: "w = JArray ys" "map norm_json xs = map norm_json ys"
    by (cases w) auto
  then have "length xs = length ys" and "\<And>i. i < length ys \<Longrightarrow> norm_json (xs ! i) = norm_json (ys ! i)"
    by (metis length_map) (metis length_map nth_map w(2))
  then show ?case
    using JArray w(1) by (auto simp: list_all2_conv_all_nth)
next
  case (JObject m)
  from JObject.prems(1) obtain m' where w: "w = JObject m'" by (cases w) auto
  have eq: "map_option norm_json (map_of m k) = map_option norm_json (map_of m' k)" for k
    using JObject.prems w norm_object_eq_iff [of m m'] by (simp del: norm_json.simps)
  have "rel_option json_eq (map_of m k) (map_of m' k)" for k
  proof (cases "map_of m k")
    case None
    with eq [of k] show ?thesis by simp
  next
    case (Some a)
    then obtain b where b: "map_of m' k = Some b" "norm_json a = norm_json b"
      using eq [of k] by (cases "map_of m' k") auto
    have "json_eq a b"
      using JObject.IH [of "(k, a)" a b] JObject.prems w Some b
      by (fastforce dest!: map_of_SomeD)
    with Some b show ?thesis by simp
  qed
  with w show ?case by simp
qed (case_tac w; simp)+

lemma canonical_json_eq_iff:
  assumes "json_text_laws X" and "wf_json v" and "wf_json w"
  shows "canonical_json X v = canonical_json X w \<longleftrightarrow> json_eq v w"
proof -
  have "canonical_json X v = canonical_json X w \<longleftrightarrow> norm_json v = norm_json w"
    using assms render_prefix_free [OF assms(1), of "norm_json v" "[]" "norm_json w" "[]"]
    by (auto simp: canonical_json_render)
  then show ?thesis
    using json_eq_norm norm_json_eq assms by blast
qed

lemma json_eq_refl: "wf_json v \<Longrightarrow> json_eq v v"
  by (simp add: norm_json_eq)

lemma json_eq_get:
  "json_eq v w \<Longrightarrow> rel_option json_eq (j_get k v) (j_get k w)"
  by (cases v; cases w) (auto split: if_splits)


text \<open>Objects with the same keys in the same order are compared value by value.\<close>

lemma rel_option_map_of:
  "list_all2 R (map snd m) (map snd m') \<Longrightarrow> map fst m = map fst m' \<Longrightarrow>
   rel_option R (map_of m k) (map_of m' k)"
proof (induction m arbitrary: m')
  case (Cons e m)
  then show ?case by (cases m') auto
qed simp

lemma json_eq_same_keys:
  assumes "distinct (map fst m)" and keys: "map fst m = map fst m'"
  shows "json_eq (JObject m) (JObject m') \<longleftrightarrow> list_all2 json_eq (map snd m) (map snd m')"
proof
  assume "json_eq (JObject m) (JObject m')"
  then have r: "rel_option json_eq (map_of m k) (map_of m' k)" for k by simp
  have len: "length m = length m'" using keys by (metis length_map)
  show "list_all2 json_eq (map snd m) (map snd m')"
  proof (rule list_all2_all_nthI)
    fix i
    assume "i < length (map snd m)"
    then have i: "i < length m" "i < length m'" using len by simp_all
    have "map_of m (fst (m ! i)) = Some (snd (m ! i))"
      using i assms(1) by (intro map_of_is_SomeI) simp_all
    moreover have "map_of m' (fst (m' ! i)) = Some (snd (m' ! i))"
      using i assms by (intro map_of_is_SomeI) simp_all
    moreover have "fst (m ! i) = fst (m' ! i)"
      using keys i by (metis nth_map)
    ultimately show "json_eq (map snd m ! i) (map snd m' ! i)"
      using r [of "fst (m ! i)"] i by simp
  qed (use len in simp)
next
  assume "list_all2 json_eq (map snd m) (map snd m')"
  then show "json_eq (JObject m) (JObject m')"
    using rel_option_map_of [OF _ keys] by (intro json_eq.eq_object)
qed


section \<open>The SBOM is a set in its one sorted listing\<close>

definition capability_set :: "('m, 'n, 'k) ext \<Rightarrow> 'm agent_artifact \<Rightarrow> string set" where
  "capability_set X a =
     tool_capability ` set (x_tools X (manifest a))
     \<union> (\<lambda>name. ''mcp:'' @ name) ` set (x_mcp_names X (manifest a))
     \<union> (\<lambda>name. ''delegate:'' @ name) ` set (x_delegate_names X (manifest a))"

lemma sorted_distinct_adj: "sorted xs \<Longrightarrow> distinct_adj xs \<Longrightarrow> distinct xs"
  for xs :: "'a :: linorder list"
proof (induction xs)
  case (Cons x xs)
  then have "x \<notin> set xs" by (cases xs) (auto dest: antisym)
  with Cons show ?case by (cases xs) auto
qed simp

lemma remdups_adj_sort: "remdups_adj (sort xs) = sorted_list_of_set (set xs)"
  for xs :: "'a :: linorder list"
  by (rule sorted_distinct_set_unique) (simp_all add: sorted_remdups_adj sorted_distinct_adj)

lemma capability_sbom_eq: "capability_sbom X a = sorted_list_of_set (capability_set X a)"
  by (simp add: capability_sbom_def capability_set_def remdups_adj_sort Un_assoc)

lemma finite_capability_set [simp]: "finite (capability_set X a)"
  by (simp add: capability_set_def)

lemma set_capability_sbom [simp]: "set (capability_sbom X a) = capability_set X a"
  by (simp add: capability_sbom_eq)

lemma sbom_prefixed:
  assumes "c \<in> set (capability_sbom X a)"
  shows "\<exists>name. c = ''tool:'' @ name \<or> c = ''mcp:'' @ name \<or> c = ''delegate:'' @ name"
  using assms by (auto simp: capability_set_def tool_capability_def split: tool_spec.splits)


section \<open>Properties\<close>

text \<open>
  The canonical writer implements the reference printer: on every JSON value with distinct
  object keys it succeeds and prints the value with the entries of every object sorted by key.
\<close>

theorem canonical_json_reference:
  assumes "json_text_laws X" and "wf_json v"
  shows "canonical_json X v = Inr (render X (norm_json v))"
  using assms by (rule canonical_json_render)

theorem canonical_json_reference_witness:
  "canonical_json (demo_ext True) (JObject [(''b'', JArray [JNull, JBool True]), (''a'', JString ''x'')])
     = Inr (render (demo_ext True) (JObject [(''a'', JString ''x''), (''b'', JArray [JNull, JBool True])]))"
  using canonical_json_reference
    [of "demo_ext True" "JObject [(''b'', JArray [JNull, JBool True]), (''a'', JString ''x'')]"]
  by (simp add: demo_json_text_laws)

text \<open>
  C25: Canonical bytes identify an artifact exactly: serialisation and canonicalisation of every
  manifest succeed, and two artifacts have the same canonical bytes if and only if their manifests
  are the same JSON value up to the order of object entries.
\<close>

theorem canonical_bytes_identify:
  assumes "json_text_laws X" and "manifest_laws X"
  shows "\<exists>ja jb ba bb.
     x_man_to_json X (manifest a) = Inr ja \<and> canonical_bytes X a = Inr ba \<and>
     x_man_to_json X (manifest b) = Inr jb \<and> canonical_bytes X b = Inr bb \<and>
     (ba = bb \<longleftrightarrow> json_eq ja jb)"
proof -
  obtain ja jb where j: "x_man_to_json X (manifest a) = Inr ja" "wf_json ja"
      "x_man_to_json X (manifest b) = Inr jb" "wf_json jb"
    using assms(2) unfolding manifest_laws_def by blast
  show ?thesis
    using canonical_json_eq_iff [OF assms(1) j(2,4)] j
    by (simp add: canonical_bytes_def canonical_json_render [OF assms(1)])
qed

theorem canonical_bytes_identify_witness:
  "\<exists>ja jb ba bb.
     x_man_to_json (demo_ext True) (demo_man [''t'']) = Inr ja \<and>
     canonical_bytes (demo_ext True) (artifact_new (demo_man [''t''])) = Inr ba \<and>
     x_man_to_json (demo_ext True) (demo_man []) = Inr jb \<and>
     canonical_bytes (demo_ext True) (artifact_new (demo_man [])) = Inr bb \<and> (ba = bb \<longleftrightarrow> json_eq ja jb)"
  using canonical_bytes_identify [of "demo_ext True" "artifact_new (demo_man [''t''])" "artifact_new (demo_man [])"]
  by (simp add: artifact_new_def del: demo_ext_simps)

text \<open>
  The capability SBOM is the sorted, duplicate-free listing of exactly the manifest's tools,
  MCP servers and delegates, each under its kind prefix.
\<close>

theorem capability_sbom_listing:
  "sorted (capability_sbom X a) \<and> distinct (capability_sbom X a) \<and>
   set (capability_sbom X a) =
     {''tool:'' @ t |t. Local_Tool t \<in> set (x_tools X (manifest a))} \<union>
     {''mcp:'' @ s |s. s \<in> set (x_mcp_names X (manifest a))} \<union>
     {''delegate:'' @ d |d. d \<in> set (x_delegate_names X (manifest a))}"
proof -
  have "tool_capability ` T = {''tool:'' @ t |t. Local_Tool t \<in> T}" for T
  proof (rule set_eqI)
    fix c
    have "c \<in> tool_capability ` T \<longleftrightarrow> (\<exists>x \<in> T. c = tool_capability x)" by blast
    also have "\<dots> \<longleftrightarrow> (\<exists>t. Local_Tool t \<in> T \<and> c = ''tool:'' @ t)"
      by (metis tool_spec.exhaust tool_spec.case tool_capability_def)
    finally show "c \<in> tool_capability ` T \<longleftrightarrow> c \<in> {''tool:'' @ t |t. Local_Tool t \<in> T}" by blast
  qed
  moreover have "(\<lambda>n. p @ n) ` N = {p @ n |n. n \<in> N}" for p :: string and N
    by blast
  ultimately have "capability_set X a =
     {''tool:'' @ t |t. Local_Tool t \<in> set (x_tools X (manifest a))} \<union>
     {''mcp:'' @ s |s. s \<in> set (x_mcp_names X (manifest a))} \<union>
     {''delegate:'' @ d |d. d \<in> set (x_delegate_names X (manifest a))}"
    unfolding capability_set_def by (simp only:)
  then have "set (capability_sbom X a) = \<dots>"
    by (simp only: set_capability_sbom)
  then show ?thesis
    by (intro conjI) (simp_all only: capability_sbom_eq sorted_sorted_list_of_set distinct_sorted_list_of_set)
qed

end
