(* ===== verification/Veh_Evaluator.thy ===== *)
theory Veh_Evaluator
  imports Veh_Artifact Veh_Serde
begin

text \<open>
  \<^verbatim>\<open>src/evaluator.rs\<close>: evaluation results, the \<open>Evaluator\<close> trait as the record of its two methods,
  the default staged method, the stub and the composite evaluator.
\<close>

record 'n eval_result =
  er_score :: f64
  er_details :: "'n json"

definition from_score :: "f64 \<Rightarrow> 'n eval_result" where
  "from_score s = \<lparr>er_score = s, er_details = JNull\<rparr>"

definition eval_to_json :: "('m, 'n, 'k) ext \<Rightarrow> 'n eval_result \<Rightarrow> 'n json" where
  "eval_to_json X r = JObject [(''score'', json_of_f64 X (er_score r)), (''details'', er_details r)]"

datatype eval_stage = Continue | Promote | Stop

definition stage_name :: "eval_stage \<Rightarrow> string" where
  "stage_name s = (case s of Continue \<Rightarrow> ''continue'' | Promote \<Rightarrow> ''promote'' | Stop \<Rightarrow> ''stop'')"

record 'n staged_result =
  sr_result :: "'n eval_result"
  sr_decision :: eval_stage

definition staged_new :: "'n eval_result \<Rightarrow> eval_stage \<Rightarrow> 'n staged_result" where
  "staged_new r d = \<lparr>sr_result = r, sr_decision = d\<rparr>"

text \<open>A trait object: the two methods an implementation supplies.\<close>

record ('m, 'n) evaluator =
  ev_evaluate :: "'m agent_artifact \<Rightarrow> 'n eval_result res"
  ev_evaluate_staged :: "'m agent_artifact \<Rightarrow> nat \<Rightarrow> 'n staged_result res"

text \<open>The trait's default \<open>evaluate_staged\<close>: one evaluation, and go on.\<close>

definition default_evaluate_staged ::
  "('m agent_artifact \<Rightarrow> 'n eval_result res) \<Rightarrow> 'm agent_artifact \<Rightarrow> nat \<Rightarrow> 'n staged_result res" where
  "default_evaluate_staged evaluate a stage =
     res_bind (evaluate a) (\<lambda>result. Inr (staged_new result Continue))"

definition stub_evaluate :: "f64 \<Rightarrow> 'm agent_artifact \<Rightarrow> 'n eval_result res" where
  "stub_evaluate score a = Inr (from_score score)"

definition stub_evaluator :: "f64 \<Rightarrow> ('m, 'n) evaluator" where
  "stub_evaluator score = \<lparr>ev_evaluate = stub_evaluate score,
     ev_evaluate_staged = default_evaluate_staged (stub_evaluate score)\<rparr>"

text \<open>The composite runs its stages in order; \<open>Stop\<close> and \<open>Promote\<close> leave the loop.\<close>

fun composite_loop ::
  "('m, 'n) evaluator list \<Rightarrow> 'm agent_artifact \<Rightarrow> nat \<Rightarrow> 'n staged_result list
     \<Rightarrow> 'n staged_result list res" where
  "composite_loop [] a idx out = Inr out"
| "composite_loop (stage # stages) a idx out =
     res_bind (ev_evaluate_staged stage a idx) (\<lambda>staged.
       if sr_decision staged = Stop \<or> sr_decision staged = Promote then Inr (out @ [staged])
       else composite_loop stages a (idx + 1) (out @ [staged]))"

definition composite_run ::
  "('m, 'n) evaluator list \<Rightarrow> 'm agent_artifact \<Rightarrow> 'n staged_result list res" where
  "composite_run stages a = composite_loop stages a 0 []"

definition composite_evaluate ::
  "('m, 'n) evaluator list \<Rightarrow> 'm agent_artifact \<Rightarrow> 'n eval_result res" where
  "composite_evaluate stages a =
     res_bind (composite_run stages a) (\<lambda>runs.
       ok_or (EvaluatorError ''composite has no stages'')
         (case rev runs of [] \<Rightarrow> None | s # _ \<Rightarrow> Some (sr_result s)))"

definition composite_evaluator :: "('m, 'n) evaluator list \<Rightarrow> ('m, 'n) evaluator" where
  "composite_evaluator stages = \<lparr>ev_evaluate = composite_evaluate stages,
     ev_evaluate_staged = default_evaluate_staged (composite_evaluate stages)\<rparr>"


section \<open>Lemmas\<close>

lemma wf_eval_to_json [simp, veh_wf]: "wf_json (eval_to_json X r) \<longleftrightarrow> wf_json (er_details r)"
  by (simp add: eval_to_json_def)

lemma j_get_score_eval [simp]: "j_get ''score'' (eval_to_json X r) = Some (json_of_f64 X (er_score r))"
  by (simp add: eval_to_json_def)

lemma j_get_details_eval [simp]: "j_get ''details'' (eval_to_json X r) = Some (er_details r)"
  by (simp add: eval_to_json_def)

lemma stage_name_inject [simp]: "stage_name s = stage_name t \<longleftrightarrow> s = t"
  by (cases s; cases t) (simp_all add: stage_name_def)

text \<open>
  The abstract specification of a staged run: stage results line up with a prefix of the stages,
  every one but the last said \<open>Continue\<close>, and the run ended early only on a decision to leave.
\<close>

definition staged_prefix ::
  "('m, 'n) evaluator list \<Rightarrow> 'm agent_artifact \<Rightarrow> nat \<Rightarrow> 'n staged_result list \<Rightarrow> bool" where
  "staged_prefix stages a idx out \<longleftrightarrow>
     length out \<le> length stages \<and>
     (\<forall>i < length out. ev_evaluate_staged (stages ! i) a (idx + i) = Inr (out ! i)) \<and>
     (\<forall>i. Suc i < length out \<longrightarrow> sr_decision (out ! i) = Continue) \<and>
     (length out < length stages \<longrightarrow> out \<noteq> [] \<and> sr_decision (last out) \<noteq> Continue)"

lemma staged_prefix_Cons:
  assumes "ev_evaluate_staged stage a idx = Inr s" and "sr_decision s = Continue"
    and "staged_prefix stages a (Suc idx) out"
  shows "staged_prefix (stage # stages) a idx (s # out)"
proof -
  have "ev_evaluate_staged ((stage # stages) ! i) a (idx + i) = Inr ((s # out) ! i)"
    if "i < length (s # out)" for i
    using that assms(1,3) by (cases i) (auto simp: staged_prefix_def)
  moreover have "sr_decision ((s # out) ! i) = Continue" if "Suc i < length (s # out)" for i
    using that assms(2,3) by (cases i) (auto simp: staged_prefix_def)
  ultimately show ?thesis
    using assms(3) by (auto simp: staged_prefix_def)
qed

lemma composite_loop_acc:
  "composite_loop stages a idx out = res_bind (composite_loop stages a idx []) (\<lambda>r. Inr (out @ r))"
proof (induction stages arbitrary: idx out)
  case (Cons stage stages)
  show ?case
  proof (cases "ev_evaluate_staged stage a idx")
    case (Inr s)
    then show ?thesis
      by (simp add: Cons.IH [of _ "out @ [s]"] Cons.IH [of _ "[s]"] res_bind_def split: sum.split)
  qed simp
qed simp

lemma composite_loop_prefix:
  "composite_loop stages a idx [] = Inr out \<Longrightarrow> staged_prefix stages a idx out"
proof (induction stages arbitrary: idx out)
  case Nil
  then show ?case by (simp add: staged_prefix_def)
next
  case (Cons stage stages)
  then obtain s where s: "ev_evaluate_staged stage a idx = Inr s" by auto
  show ?case
  proof (cases "sr_decision s = Continue")
    case False
    then have "out = [s]"
      using Cons.prems s by (cases "sr_decision s") auto
    then show ?thesis using s False by (simp add: staged_prefix_def)
  next
    case True
    then obtain r where r: "composite_loop stages a (Suc idx) [] = Inr r" "out = s # r"
      using Cons.prems s composite_loop_acc [of stages a "Suc idx" "[s]"]
      by (auto simp: res_bind_Inr_iff)
    then show ?thesis
      using staged_prefix_Cons [OF s True] Cons.IH by simp
  qed
qed

lemma composite_loop_error:
  "composite_loop stages a idx out = Inl e \<Longrightarrow>
   \<exists>i < length stages. ev_evaluate_staged (stages ! i) a (idx + i) = Inl e"
proof (induction stages arbitrary: idx out)
  case (Cons stage stages)
  show ?case
  proof (cases "ev_evaluate_staged stage a idx")
    case (Inl e')
    with Cons.prems show ?thesis by (intro exI [of _ 0]) simp
  next
    case (Inr s)
    then have "composite_loop stages a (Suc idx) (out @ [s]) = Inl e"
      using Cons.prems by (auto split: if_splits)
    then obtain i where "i < length stages" "ev_evaluate_staged (stages ! i) a (Suc idx + i) = Inl e"
      using Cons.IH by blast
    then show ?thesis by (intro exI [of _ "Suc i"]) simp
  qed
qed simp


section \<open>Properties\<close>

text \<open>
  C32: A composite run evaluates a prefix of its stages in order, each with its own index, every
  stage before the last one having said \<open>Continue\<close>; it covers all stages unless one decided to leave,
  and the composite's result is the one of the last stage that ran. Without stages there is no result.
\<close>

theorem composite_runs_prefix:
  "(composite_evaluate stages a = Inr r \<longrightarrow>
      (\<exists>out. composite_run stages a = Inr out \<and> staged_prefix stages a 0 out \<and> out \<noteq> [] \<and>
             r = sr_result (last out))) \<and>
   composite_evaluate [] a = Inl (EvaluatorError ''composite has no stages'')"
proof (intro conjI impI)
  assume "composite_evaluate stages a = Inr r"
  then obtain out where out: "composite_run stages a = Inr out"
      "(case rev out of [] \<Rightarrow> None | s # _ \<Rightarrow> Some (sr_result s)) = Some r"
    by (auto simp: composite_evaluate_def res_bind_Inr_iff ok_or_Inr_iff)
  then have "out \<noteq> [] \<and> r = sr_result (last out)"
    by (cases out rule: rev_cases) auto
  then show "\<exists>out. composite_run stages a = Inr out \<and> staged_prefix stages a 0 out \<and> out \<noteq> [] \<and>
      r = sr_result (last out)"
    using out(1) composite_loop_prefix by (auto simp: composite_run_def)
qed (simp add: composite_evaluate_def composite_run_def)

definition demo_stage :: "f64 \<Rightarrow> eval_stage \<Rightarrow> (unit, unit) evaluator" where
  "demo_stage score d = \<lparr>ev_evaluate = stub_evaluate score,
     ev_evaluate_staged = (\<lambda>a i. Inr (staged_new (from_score score) d))\<rparr>"

theorem composite_runs_prefix_witness:
  "\<exists>out. composite_run [demo_stage 0 Continue, demo_stage 1 Stop, demo_stage 0 Promote] \<lparr>manifest = ()\<rparr> = Inr out \<and>
     staged_prefix [demo_stage 0 Continue, demo_stage 1 Stop, demo_stage 0 Promote] \<lparr>manifest = ()\<rparr> 0 out \<and>
     out \<noteq> [] \<and> from_score 1 = sr_result (last out)"
  using composite_runs_prefix [of "[demo_stage 0 Continue, demo_stage 1 Stop, demo_stage 0 Promote]"
      "\<lparr>manifest = ()\<rparr>" "from_score 1"]
  by (simp add: composite_evaluate_def composite_run_def demo_stage_def staged_new_def)

text \<open>
  A composite run fails only with the error of the stage it was running.
\<close>

lemma composite_run_error:
  assumes "composite_run stages a = Inl e"
  shows "\<exists>i < length stages. ev_evaluate_staged (stages ! i) a i = Inl e"
  using composite_loop_error [of stages a 0 "[]" e] assms by (simp add: composite_run_def)

definition demo_failing :: "(unit, unit) evaluator" where
  "demo_failing = \<lparr>ev_evaluate = (\<lambda>_. Inl (EvaluatorError ''down'')),
     ev_evaluate_staged = default_evaluate_staged (\<lambda>_. Inl (EvaluatorError ''down''))\<rparr>"

end
