(* ===== verification/Veh_Node.thy ===== *)
theory Veh_Node
  imports Veh_Intent Veh_Evaluator
begin

text \<open>
  \<^verbatim>\<open>src/node.rs\<close> and \<^verbatim>\<open>src/diff.rs\<close>: the lineage node, its status, the JSON shape its serde
  attributes derive (the line of a JSONL ledger and the entry of a DAG export), and the manifest
  diff. \<open>reload\<close> is what one write and one read make of a node: an expected improvement that is not
  finite and a \<open>null\<close> evaluation result come back as absent, everything else is unchanged.
\<close>

section \<open>Nodes\<close>

datatype node_status = Promoted | Rejected

definition status_default :: node_status where
  "status_default = Promoted"

definition status_name :: "node_status \<Rightarrow> string" where
  "status_name s = (case s of Promoted \<Rightarrow> ''promoted'' | Rejected \<Rightarrow> ''rejected'')"

type_synonym agent_id = string

record ('m, 'n) agent_node =
  n_agent_id :: agent_id
  n_parent_id :: "agent_id option"
  n_generation :: u32
  n_created_at :: string
  n_mutation_intent :: "'n mutation_intent"
  n_capability_sbom :: "string list"
  n_eval_results :: "'n json option"
  n_mutation_diff :: string
  n_allowed_scope :: allowed_scope
  n_artifact :: "'m agent_artifact"
  n_signer_public_key :: string
  n_signature :: string
  n_status :: node_status
  n_parent_agent_success :: bool
  n_valid_parent :: bool
  n_eval_stage :: "eval_stage option"

definition json_of_stage :: "eval_stage \<Rightarrow> 'n json" where
  "json_of_stage s = JString (stage_name s)"

definition json_of_status :: "node_status \<Rightarrow> 'n json" where
  "json_of_status s = JString (status_name s)"


section \<open>JSON shape\<close>

definition node_field_names :: "string list" where
  "node_field_names =
     [''agent_id'', ''parent_id'', ''generation'', ''created_at'', ''mutation_intent'',
      ''capability_sbom'', ''eval_results'', ''mutation_diff'', ''allowed_scope'', ''artifact'',
      ''signer_public_key'', ''signature'', ''status'', ''parent_agent_success'', ''valid_parent'',
      ''eval_stage'']"

text \<open>Serialisation fails only where the manifest's does.\<close>

definition node_to_json :: "('m, 'n, 'k) ext \<Rightarrow> ('m, 'n) agent_node \<Rightarrow> json_fault + 'n json" where
  "node_to_json X n = res_bind (x_man_to_json X (manifest (n_artifact n))) (\<lambda>man. Inr (JObject
     [(''agent_id'', JString (n_agent_id n)),
      (''parent_id'', json_of_option JString (n_parent_id n)),
      (''generation'', json_of_u32 X (n_generation n)),
      (''created_at'', JString (n_created_at n)),
      (''mutation_intent'', intent_to_json X (n_mutation_intent n)),
      (''capability_sbom'', json_of_strings (n_capability_sbom n)),
      (''eval_results'', json_of_option id (n_eval_results n)),
      (''mutation_diff'', JString (n_mutation_diff n)),
      (''allowed_scope'', scope_to_json X (n_allowed_scope n)),
      (''artifact'', JObject [(''manifest'', man)]),
      (''signer_public_key'', JString (n_signer_public_key n)),
      (''signature'', JString (n_signature n)),
      (''status'', json_of_status (n_status n)),
      (''parent_agent_success'', JBool (n_parent_agent_success n)),
      (''valid_parent'', JBool (n_valid_parent n)),
      (''eval_stage'', json_of_option json_of_stage (n_eval_stage n))]))"

definition artifact_from_json :: "('m, 'n, 'k) ext \<Rightarrow> ('n, 'm agent_artifact) decoder" where
  "artifact_from_json X j =
     res_bind (struct_view [''manifest''] j) (\<lambda>w.
     res_bind (field_req w ''manifest'' (x_man_of_json X)) (\<lambda>m. Inr (artifact_new m)))"

definition dec_status :: "('n, node_status) decoder" where
  "dec_status = dec_unit_variant [(''promoted'', Promoted), (''rejected'', Rejected)]"

definition dec_stage :: "('n, eval_stage) decoder" where
  "dec_stage = dec_unit_variant [(''continue'', Continue), (''promote'', Promote), (''stop'', Stop)]"

definition node_from_json :: "('m, 'n, 'k) ext \<Rightarrow> ('n, ('m, 'n) agent_node) decoder" where
  "node_from_json X j =
     res_bind (struct_view node_field_names j) (\<lambda>w.
     res_bind (field_req w ''agent_id'' dec_string) (\<lambda>i.
     res_bind (field_default w ''parent_id'' None (dec_option dec_string)) (\<lambda>p.
     res_bind (field_req w ''generation'' (dec_u32 X)) (\<lambda>g.
     res_bind (field_req w ''created_at'' dec_string) (\<lambda>c.
     res_bind (field_req w ''mutation_intent'' (intent_from_json X)) (\<lambda>mi.
     res_bind (field_req w ''capability_sbom'' (dec_vec dec_string)) (\<lambda>sb.
     res_bind (field_default w ''eval_results'' None (dec_option dec_value)) (\<lambda>ev.
     res_bind (field_default w ''mutation_diff'' [] dec_string) (\<lambda>d.
     res_bind (field_req w ''allowed_scope'' (scope_from_json X)) (\<lambda>sc.
     res_bind (field_req w ''artifact'' (artifact_from_json X)) (\<lambda>a.
     res_bind (field_req w ''signer_public_key'' dec_string) (\<lambda>pk.
     res_bind (field_req w ''signature'' dec_string) (\<lambda>sg.
     res_bind (field_default w ''status'' status_default dec_status) (\<lambda>st.
     res_bind (field_default w ''parent_agent_success'' False dec_bool) (\<lambda>ps.
     res_bind (field_default w ''valid_parent'' False dec_bool) (\<lambda>vp.
     res_bind (field_default w ''eval_stage'' None (dec_option dec_stage)) (\<lambda>es.
     Inr \<lparr>n_agent_id = i, n_parent_id = p, n_generation = g, n_created_at = c,
          n_mutation_intent = mi, n_capability_sbom = sb, n_eval_results = ev,
          n_mutation_diff = d, n_allowed_scope = sc, n_artifact = a,
          n_signer_public_key = pk, n_signature = sg, n_status = st,
          n_parent_agent_success = ps, n_valid_parent = vp, n_eval_stage = es\<rparr>)))))))))))))))))"


section \<open>Manifest diff\<close>

text \<open>Canonical bytes are valid UTF-8, so the lossy conversion to text changes nothing.\<close>

definition manifest_diff ::
  "('m, 'n, 'k) ext \<Rightarrow> 'm agent_artifact \<Rightarrow> 'm agent_artifact \<Rightarrow> string res" where
  "manifest_diff X parent candidate =
     res_bind (canonical_bytes X parent) (\<lambda>parent_bytes.
     res_bind (canonical_bytes X candidate) (\<lambda>candidate_bytes.
     Inr (x_unified_diff X parent_bytes candidate_bytes)))"


section \<open>The round trip\<close>

definition wf_node :: "('m, 'n) agent_node \<Rightarrow> bool" where
  "wf_node n \<longleftrightarrow> wf_intent (n_mutation_intent n) \<and>
     (case n_eval_results n of None \<Rightarrow> True | Some v \<Rightarrow> wf_json v)"

definition drop_null :: "'n json option \<Rightarrow> 'n json option" where
  "drop_null x = (case x of Some JNull \<Rightarrow> None | _ \<Rightarrow> x)"

definition reload :: "('m, 'n) agent_node \<Rightarrow> ('m, 'n) agent_node" where
  "reload n = n\<lparr>
     n_mutation_intent := (n_mutation_intent n)\<lparr>
       mi_expected_improvement := finite_only (mi_expected_improvement (n_mutation_intent n))\<rparr>,
     n_eval_results := drop_null (n_eval_results n)\<rparr>"

lemma dec_option_value: "dec_option dec_value (json_of_option id x) = Inr (drop_null x)"
proof (cases x)
  case (Some j)
  then show ?thesis by (cases j) (simp_all add: drop_null_def dec_value_def)
qed (simp add: drop_null_def)

lemma json_of_drop_null [simp]: "json_of_option id (drop_null x) = json_of_option id x"
  by (auto simp: drop_null_def json_of_option_def split: option.splits json.splits)

lemma dec_status_name [simp]: "dec_status (json_of_status s) = Inr s"
  by (cases s) (simp_all add: dec_status_def json_of_status_def status_name_def)

lemma dec_option_stage [simp]: "dec_option dec_stage (json_of_option json_of_stage s) = Inr s"
proof (cases s)
  case (Some t)
  then show ?thesis by (cases t) (simp_all add: dec_stage_def json_of_stage_def stage_name_def)
qed simp

lemma artifact_round_trip:
  "x_man_of_json X j = Inr m \<Longrightarrow> artifact_from_json X (JObject [(''manifest'', j)]) = Inr (artifact_new m)"
  by (simp add: artifact_from_json_def field_req_def)

lemma artifact_new_manifest [simp]: "artifact_new (manifest a) = a"
  by (simp add: artifact_new_def)

lemma node_to_json_total:
  assumes "manifest_laws X"
  obtains j where "node_to_json X n = Inr j" and "wf_node n \<Longrightarrow> wf_json j"
proof -
  from assms obtain man where man: "x_man_to_json X (manifest (n_artifact n)) = Inr man" "wf_json man"
    unfolding manifest_laws_def by blast
  then show ?thesis
    by (intro that [of "case node_to_json X n of Inr j \<Rightarrow> j | Inl _ \<Rightarrow> JNull"])
      (auto simp: node_to_json_def wf_node_def json_of_status_def json_of_stage_def
        json_of_option_def split: option.splits)
qed

lemma node_reload:
  assumes "json_num_laws X" and "manifest_laws X" and "node_to_json X n = Inr j"
  shows "node_from_json X j = Inr (reload n)"
proof -
  from assms(2) obtain man where man: "x_man_to_json X (manifest (n_artifact n)) = Inr man"
      "x_man_of_json X man = Inr (manifest (n_artifact n))"
    unfolding manifest_laws_def by blast
  from assms(3) man(1) show ?thesis
    by (auto simp: node_to_json_def node_from_json_def field_req_def field_default_def
        dec_u32_of_u32 [OF assms(1)] intent_round_trip [OF assms(1)] scope_round_trip [OF assms(1)]
        artifact_round_trip [OF man(2)] dec_option_value reload_def)
qed

lemma finite_only_idem [simp]: "finite_only (finite_only x) = finite_only x"
  by (auto simp: finite_only_def split: option.splits)

lemma drop_null_idem [simp]: "drop_null (drop_null x) = drop_null x"
  by (auto simp: drop_null_def split: option.splits json.splits)

lemma reload_idem [simp]: "reload (reload n) = reload n"
  by (simp add: reload_def)

lemma reload_simps [simp]:
  "n_agent_id (reload n) = n_agent_id n"
  "n_parent_id (reload n) = n_parent_id n"
  "n_generation (reload n) = n_generation n"
  "n_status (reload n) = n_status n"
  "n_valid_parent (reload n) = n_valid_parent n"
  "n_artifact (reload n) = n_artifact n"
  "n_signature (reload n) = n_signature n"
  "n_signer_public_key (reload n) = n_signer_public_key n"
  by (simp_all add: reload_def)


section \<open>Properties\<close>

text \<open>
  The node codec is lossless: a node whose expected improvement is absent or finite and whose
  evaluation result is not an explicit \<open>null\<close> reads back from its JSON exactly.
\<close>

theorem node_json_round_trip:
  assumes "json_num_laws X" and "manifest_laws X"
    and "finite_only (mi_expected_improvement (n_mutation_intent n))
           = mi_expected_improvement (n_mutation_intent n)"
    and "n_eval_results n \<noteq> Some JNull"
  shows "\<exists>j. node_to_json X n = Inr j \<and> node_from_json X j = Inr n"
proof -
  obtain j where j: "node_to_json X n = Inr j"
    using node_to_json_total [OF assms(2)] by blast
  have "drop_null (n_eval_results n) = n_eval_results n"
    using assms(4) by (auto simp: drop_null_def split: option.splits json.splits)
  then have "reload n = n"
    using assms(3) by (simp add: reload_def)
  then show ?thesis
    using node_reload [OF assms(1,2) j] j by simp
qed

definition demo_child :: "(demo_manifest, demo_num) agent_node" where
  "demo_child = \<lparr>n_agent_id = ''c1'', n_parent_id = Some ''p1'', n_generation = 7,
     n_created_at = ''2026-01-01T00:00:00Z'',
     n_mutation_intent = with_expected_improvement (intent_new ''faster'') 1,
     n_capability_sbom = [''tool:search''], n_eval_results = Some (JObject [(''score'', JNull)]),
     n_mutation_diff = ''-a'', n_allowed_scope = scope_default\<lparr>sc_max_generation := Some 9\<rparr>,
     n_artifact = artifact_new (demo_man [''search'']), n_signer_public_key = [], n_signature = [],
     n_status = Rejected, n_parent_agent_success = True, n_valid_parent = False,
     n_eval_stage = Some Stop\<rparr>"

theorem node_json_round_trip_witness:
  "\<exists>j. node_to_json (demo_ext True) demo_child = Inr j \<and> node_from_json (demo_ext True) j = Inr demo_child"
proof (rule node_json_round_trip)
  show "finite_only (mi_expected_improvement (n_mutation_intent demo_child))
      = mi_expected_improvement (n_mutation_intent demo_child)"
    by (simp add: demo_child_def with_expected_improvement_def finite_only_def f64_eval)
qed (simp_all add: demo_child_def)

end
