(* ===== verification/Veh_Identity.thy ===== *)
theory Veh_Identity
  imports Veh_Node Veh_Demo
begin

text \<open>
  \<^verbatim>\<open>src/identity.rs\<close>: the signing payload, the agent id, signing and verification of nodes.
  The lemmas describe the payload as a JSON object, give verification as a plain condition on the
  node, show that every signed node verifies, and reduce a tampered node that still verifies under
  its id to a SHA-256 collision.
\<close>

section \<open>Commit inputs and the signing payload\<close>

record ('m, 'n) commit_inputs =
  ci_parent_id :: "agent_id option"
  ci_generation :: u32
  ci_created_at :: string
  ci_mutation_intent :: "'n mutation_intent"
  ci_mutation_diff :: string
  ci_allowed_scope :: allowed_scope
  ci_eval_results :: "'n json option"
  ci_artifact :: "'m agent_artifact"
  ci_status :: node_status
  ci_parent_agent_success :: bool
  ci_valid_parent :: bool
  ci_eval_stage :: "eval_stage option"

text \<open>The map is filled by one insertion per field, in source order; the manifest may fail.\<close>

definition payload_entries ::
  "('m, 'n, 'k) ext \<Rightarrow> ('m, 'n) commit_inputs \<Rightarrow> 'n json \<Rightarrow> (string \<times> 'n json) list" where
  "payload_entries X ci man =
     (j_insert ''eval_stage'' (json_of_option json_of_stage (ci_eval_stage ci))
     (j_insert ''valid_parent'' (JBool (ci_valid_parent ci))
     (j_insert ''parent_agent_success'' (JBool (ci_parent_agent_success ci))
     (j_insert ''status'' (json_of_status (ci_status ci))
     (j_insert ''manifest'' man
     (j_insert ''capability_sbom'' (json_of_strings (capability_sbom X (ci_artifact ci)))
     (j_insert ''eval_results'' (json_of_option id (ci_eval_results ci))
     (j_insert ''allowed_scope'' (scope_to_json X (ci_allowed_scope ci))
     (j_insert ''mutation_diff'' (JString (ci_mutation_diff ci))
     (j_insert ''mutation_intent'' (intent_to_json X (ci_mutation_intent ci))
     (j_insert ''created_at'' (JString (ci_created_at ci))
     (j_insert ''generation'' (json_of_u32 X (ci_generation ci))
     (j_insert ''parent_id'' (json_of_option JString (ci_parent_id ci))
     []))))))))))))) "

definition signing_payload :: "('m, 'n, 'k) ext \<Rightarrow> ('m, 'n) commit_inputs \<Rightarrow> bytes res" where
  "signing_payload X ci =
     res_bind (map_err Json (x_man_to_json X (manifest (ci_artifact ci)))) (\<lambda>man.
     canonical_json X (JObject (payload_entries X ci man)))"


section \<open>Identifier, signing, verification\<close>

definition compute_agent_id :: "('m, 'n, 'k) ext \<Rightarrow> bytes \<Rightarrow> bytes \<Rightarrow> agent_id" where
  "compute_agent_id X payload signature = x_hex_encode X (x_sha256 X (payload @ signature))"

definition sign_node ::
  "('m, 'n, 'k) ext \<Rightarrow> ('m, 'n) commit_inputs \<Rightarrow> 'k \<Rightarrow> ('m, 'n) agent_node res" where
  "sign_node X ci key =
     res_bind (signing_payload X ci) (\<lambda>payload.
     let signature = x_sign X key payload;
         agent_id = compute_agent_id X payload signature;
         verifying = x_verifying_key X key
     in Inr \<lparr>n_agent_id = agent_id,
             n_parent_id = ci_parent_id ci,
             n_generation = ci_generation ci,
             n_created_at = ci_created_at ci,
             n_mutation_intent = ci_mutation_intent ci,
             n_capability_sbom = capability_sbom X (ci_artifact ci),
             n_eval_results = ci_eval_results ci,
             n_mutation_diff = ci_mutation_diff ci,
             n_allowed_scope = ci_allowed_scope ci,
             n_artifact = ci_artifact ci,
             n_signer_public_key = x_hex_encode X verifying,
             n_signature = x_hex_encode X signature,
             n_status = ci_status ci,
             n_parent_agent_success = ci_parent_agent_success ci,
             n_valid_parent = ci_valid_parent ci,
             n_eval_stage = ci_eval_stage ci\<rparr>)"

definition inputs_of_node :: "('m, 'n) agent_node \<Rightarrow> ('m, 'n) commit_inputs" where
  "inputs_of_node n =
     \<lparr>ci_parent_id = n_parent_id n,
      ci_generation = n_generation n,
      ci_created_at = n_created_at n,
      ci_mutation_intent = n_mutation_intent n,
      ci_mutation_diff = n_mutation_diff n,
      ci_allowed_scope = n_allowed_scope n,
      ci_eval_results = n_eval_results n,
      ci_artifact = n_artifact n,
      ci_status = n_status n,
      ci_parent_agent_success = n_parent_agent_success n,
      ci_valid_parent = n_valid_parent n,
      ci_eval_stage = n_eval_stage n\<rparr>"

definition exactly :: "nat \<Rightarrow> veh_error \<Rightarrow> bytes \<Rightarrow> bytes res" where
  "exactly k e b = (if length b = k then Inr b else Inl e)"

definition verify_node :: "('m, 'n, 'k) ext \<Rightarrow> ('m, 'n) agent_node \<Rightarrow> unit res" where
  "verify_node X n =
     res_bind (signing_payload X (inputs_of_node n)) (\<lambda>payload.
     res_bind (map_err (\<lambda>e. SignatureInvalid (''hex decode: '' @ e)) (x_hex_decode X (n_signature n)))
       (\<lambda>signature_bytes.
     res_bind (exactly 64 (SignatureInvalid ''wrong signature length'') signature_bytes) (\<lambda>signature.
     let expected_id = compute_agent_id X payload signature
     in if expected_id \<noteq> n_agent_id n then Inl (HashMismatch (n_agent_id n) expected_id)
        else
          res_bind (map_err (\<lambda>e. InvalidKey (''hex decode: '' @ e)) (x_hex_decode X (n_signer_public_key n)))
            (\<lambda>pk_bytes.
          res_bind (exactly 32 (InvalidKey ''wrong key length'') pk_bytes) (\<lambda>pk_array.
          res_bind (map_err InvalidKey (x_vk_from_bytes X pk_array)) (\<lambda>_.
          map_err SignatureInvalid (x_verify X pk_array payload signature)))))))"


section \<open>The payload as an object\<close>

lemma payload_entries_list:
  "payload_entries X ci man =
     [(''parent_id'', json_of_option JString (ci_parent_id ci)),
      (''generation'', json_of_u32 X (ci_generation ci)),
      (''created_at'', JString (ci_created_at ci)),
      (''mutation_intent'', intent_to_json X (ci_mutation_intent ci)),
      (''mutation_diff'', JString (ci_mutation_diff ci)),
      (''allowed_scope'', scope_to_json X (ci_allowed_scope ci)),
      (''eval_results'', json_of_option id (ci_eval_results ci)),
      (''capability_sbom'', json_of_strings (capability_sbom X (ci_artifact ci))),
      (''manifest'', man),
      (''status'', json_of_status (ci_status ci)),
      (''parent_agent_success'', JBool (ci_parent_agent_success ci)),
      (''valid_parent'', JBool (ci_valid_parent ci)),
      (''eval_stage'', json_of_option json_of_stage (ci_eval_stage ci))]"
  by (simp add: payload_entries_def j_insert_def)

definition wf_inputs :: "('m, 'n) commit_inputs \<Rightarrow> bool" where
  "wf_inputs ci \<longleftrightarrow> wf_intent (ci_mutation_intent ci) \<and>
     (case ci_eval_results ci of None \<Rightarrow> True | Some v \<Rightarrow> wf_json v)"

lemma wf_payload:
  assumes "wf_inputs ci" and "wf_json man"
  shows "wf_json (JObject (payload_entries X ci man))"
  using assms
  by (auto simp: payload_entries_list wf_inputs_def json_of_status_def json_of_stage_def
      json_of_option_def split: option.splits)

lemma wf_inputs_of_node [simp]: "wf_inputs (inputs_of_node n) \<longleftrightarrow> wf_node n"
  by (simp add: wf_inputs_def inputs_of_node_def wf_node_def)

text \<open>With lawful libraries the payload exists, and it is the canonical text of the object.\<close>

lemma signing_payload_total:
  assumes "json_text_laws X" and "manifest_laws X" and "wf_inputs ci"
  obtains man where "x_man_to_json X (manifest (ci_artifact ci)) = Inr man" and "wf_json man"
    and "signing_payload X ci = Inr (render X (norm_json (JObject (payload_entries X ci man))))"
proof -
  from assms(2) obtain man where man: "x_man_to_json X (manifest (ci_artifact ci)) = Inr man" "wf_json man"
    unfolding manifest_laws_def by blast
  then show ?thesis
    using that assms wf_payload [OF assms(3) man(2), of X]
    by (simp add: signing_payload_def canonical_json_render)
qed

lemma sign_node_total:
  assumes "json_text_laws X" and "manifest_laws X" and "wf_inputs ci"
  obtains n where "sign_node X ci key = Inr n"
  by (rule signing_payload_total [OF assms]) (simp add: sign_node_def Let_def)

lemma sign_node_fields:
  assumes "sign_node X ci key = Inr n"
  shows "inputs_of_node n = ci"
    and "n_capability_sbom n = capability_sbom X (ci_artifact ci)"
    and "n_signer_public_key n = x_hex_encode X (x_verifying_key X key)"
  using assms by (auto simp: sign_node_def Let_def inputs_of_node_def)

lemma sign_node_payload:
  assumes "sign_node X ci key = Inr n"
  obtains payload where "signing_payload X ci = Inr payload"
    and "n_signature n = x_hex_encode X (x_sign X key payload)"
    and "n_agent_id n = compute_agent_id X payload (x_sign X key payload)"
  using assms by (auto simp: sign_node_def Let_def)

lemma inputs_of_node_simps [simp]:
  "ci_parent_id (inputs_of_node n) = n_parent_id n"
  "ci_generation (inputs_of_node n) = n_generation n"
  "ci_created_at (inputs_of_node n) = n_created_at n"
  "ci_mutation_intent (inputs_of_node n) = n_mutation_intent n"
  "ci_mutation_diff (inputs_of_node n) = n_mutation_diff n"
  "ci_allowed_scope (inputs_of_node n) = n_allowed_scope n"
  "ci_eval_results (inputs_of_node n) = n_eval_results n"
  "ci_artifact (inputs_of_node n) = n_artifact n"
  "ci_status (inputs_of_node n) = n_status n"
  "ci_parent_agent_success (inputs_of_node n) = n_parent_agent_success n"
  "ci_valid_parent (inputs_of_node n) = n_valid_parent n"
  "ci_eval_stage (inputs_of_node n) = n_eval_stage n"
  by (simp_all add: inputs_of_node_def)


section \<open>Verification as a condition\<close>

lemma exactly_Inr_iff: "exactly k e b = Inr b' \<longleftrightarrow> length b = k \<and> b' = b"
  by (auto simp: exactly_def)

text \<open>\<open>verify_node\<close> accepts exactly the nodes that pass all of its checks.\<close>

lemma verify_node_iff:
  "verify_node X n = Inr () \<longleftrightarrow>
     (\<exists>payload sig pk.
        signing_payload X (inputs_of_node n) = Inr payload \<and>
        x_hex_decode X (n_signature n) = Inr sig \<and> length sig = 64 \<and>
        n_agent_id n = compute_agent_id X payload sig \<and>
        x_hex_decode X (n_signer_public_key n) = Inr pk \<and> length pk = 32 \<and>
        x_vk_from_bytes X pk = Inr () \<and> x_verify X pk payload sig = Inr ())"
  unfolding verify_node_def Let_def
  by (auto simp: res_bind_Inr_iff map_err_Inr_iff exactly_Inr_iff split: if_splits)

lemma sign_node_verifies:
  assumes laws: "crypto_laws X" and sign: "sign_node X ci key = Inr n"
  shows "verify_node X n = Inr ()"
proof -
  obtain payload where p: "signing_payload X ci = Inr payload"
      "n_signature n = x_hex_encode X (x_sign X key payload)"
      "n_agent_id n = compute_agent_id X payload (x_sign X key payload)"
    using sign by (rule sign_node_payload)
  show ?thesis
    unfolding verify_node_iff using laws p sign_node_fields [OF sign]
    by (intro exI [of _ payload] exI [of _ "x_sign X key payload"] exI [of _ "x_verifying_key X key"])
      (simp add: crypto_laws_def)
qed


section \<open>What the payload determines\<close>

lemma json_eq_option_string [simp]:
  "json_eq (json_of_option JString a) (json_of_option JString b) \<longleftrightarrow> a = b"
  by (cases a; cases b) auto

lemma json_eq_strings [simp]: "json_eq (json_of_strings ss) (json_of_strings ts) \<longleftrightarrow> ss = ts"
proof (induction ss arbitrary: ts)
  case Nil
  show ?case by (cases ts) (auto simp: json_of_strings_def)
next
  case (Cons s ss)
  then show ?case by (cases ts) (auto simp: json_of_strings_def)
qed

lemma json_eq_status [simp]: "json_eq (json_of_status s) (json_of_status t) \<longleftrightarrow> s = t"
  by (cases s; cases t) (simp_all add: json_of_status_def status_name_def)

lemma json_eq_option_stage [simp]:
  "json_eq (json_of_option json_of_stage a) (json_of_option json_of_stage b) \<longleftrightarrow> a = b"
  by (cases a; cases b) (auto simp: json_of_stage_def)

lemma json_eq_u32:
  "json_num_laws X \<Longrightarrow> json_eq (json_of_u32 X v) (json_of_u32 X w) \<longleftrightarrow> v = w"
  using json_of_u32_inject [of X v w] by (auto simp: json_of_u32_def)

lemma json_eq_option_u32:
  "json_num_laws X \<Longrightarrow>
   json_eq (json_of_option (json_of_u32 X) a) (json_of_option (json_of_u32 X) b) \<longleftrightarrow> a = b"
  using json_eq_u32 [of X] by (cases a; cases b) (auto simp: json_of_u32_def)

lemma json_eq_option_f64:
  assumes "json_num_laws X"
  shows "json_eq (json_of_option (json_of_f64 X) a) (json_of_option (json_of_f64 X) b)
         \<longleftrightarrow> finite_only a = finite_only b"
proof -
  let ?j = "\<lambda>x. json_of_option (json_of_f64 X) x"
  have flat: "?j x = JNull \<or> (\<exists>n. ?j x = JNumber n)" for x
    by (auto simp: json_of_option_def json_of_f64_def split: option.splits)
  have "json_eq (?j a) (?j b) \<longleftrightarrow> ?j a = ?j b"
    using flat [of a] flat [of b] by auto
  also have "\<dots> \<longleftrightarrow> finite_only a = finite_only b"
    using dec_option_f64 [OF assms] json_of_finite_only [OF assms] by (metis sum.inject(2))
  finally show ?thesis .
qed

lemma json_eq_scope:
  assumes "json_num_laws X"
  shows "json_eq (scope_to_json X s) (scope_to_json X t) \<longleftrightarrow> s = t"
  unfolding scope_to_json_def
  by (subst json_eq_same_keys) (auto simp: json_eq_option_u32 [OF assms])

definition same_intent :: "'n mutation_intent \<Rightarrow> 'n mutation_intent \<Rightarrow> bool" where
  "same_intent i j \<longleftrightarrow>
     mi_goal i = mi_goal j \<and> mi_rationale i = mi_rationale j \<and>
     finite_only (mi_expected_improvement i) = finite_only (mi_expected_improvement j) \<and>
     mi_constraints i = mi_constraints j \<and> json_eq (mi_metadata i) (mi_metadata j)"

lemma json_eq_intent:
  assumes "json_num_laws X"
  shows "json_eq (intent_to_json X i) (intent_to_json X j) \<longleftrightarrow> same_intent i j"
  unfolding intent_to_json_def same_intent_def
  by (subst json_eq_same_keys) (auto simp: json_eq_option_f64 [OF assms])

text \<open>
  Two commit inputs have the same signed content when they agree field by field, JSON values up to
  the order of object entries, an expected improvement up to non-finite values, and an absent
  evaluation result with \<open>null\<close>.
\<close>

definition same_content ::
  "('m, 'n, 'k) ext \<Rightarrow> ('m, 'n) commit_inputs \<Rightarrow> ('m, 'n) commit_inputs \<Rightarrow> bool" where
  "same_content X a b \<longleftrightarrow>
     ci_parent_id a = ci_parent_id b \<and> ci_generation a = ci_generation b \<and>
     ci_created_at a = ci_created_at b \<and>
     same_intent (ci_mutation_intent a) (ci_mutation_intent b) \<and>
     ci_mutation_diff a = ci_mutation_diff b \<and> ci_allowed_scope a = ci_allowed_scope b \<and>
     json_eq (json_of_option id (ci_eval_results a)) (json_of_option id (ci_eval_results b)) \<and>
     capability_sbom X (ci_artifact a) = capability_sbom X (ci_artifact b) \<and>
     rel_sum (=) json_eq (x_man_to_json X (manifest (ci_artifact a)))
                         (x_man_to_json X (manifest (ci_artifact b))) \<and>
     ci_status a = ci_status b \<and>
     ci_parent_agent_success a = ci_parent_agent_success b \<and>
     ci_valid_parent a = ci_valid_parent b \<and> ci_eval_stage a = ci_eval_stage b"

lemma json_eq_payload:
  assumes "json_num_laws X"
    and "x_man_to_json X (manifest (ci_artifact a)) = Inr man"
    and "x_man_to_json X (manifest (ci_artifact b)) = Inr man'"
  shows "json_eq (JObject (payload_entries X a man)) (JObject (payload_entries X b man'))
         \<longleftrightarrow> same_content X a b"
  unfolding payload_entries_list same_content_def
  by (subst json_eq_same_keys)
    (auto simp: json_eq_u32 [OF assms(1)] json_eq_intent [OF assms(1)] json_eq_scope [OF assms(1)]
      assms(2,3))

lemma signing_payload_eq_iff:
  assumes laws: "json_text_laws X" "json_num_laws X" "manifest_laws X"
    and wf: "wf_inputs a" "wf_inputs b"
  shows "signing_payload X a = signing_payload X b \<longleftrightarrow> same_content X a b"
proof -
  obtain man where man: "x_man_to_json X (manifest (ci_artifact a)) = Inr man" "wf_json man"
    using signing_payload_total [OF laws(1,3) wf(1)] by blast
  obtain man' where man': "x_man_to_json X (manifest (ci_artifact b)) = Inr man'" "wf_json man'"
    using signing_payload_total [OF laws(1,3) wf(2)] by blast
  have "signing_payload X a = signing_payload X b \<longleftrightarrow>
      json_eq (JObject (payload_entries X a man)) (JObject (payload_entries X b man'))"
    using canonical_json_eq_iff [OF laws(1) wf_payload [OF wf(1) man(2)] wf_payload [OF wf(2) man'(2)]]
    by (simp add: signing_payload_def man man')
  then show ?thesis
    by (simp only: json_eq_payload [OF laws(2) man(1) man'(1)])
qed

lemma hex_encode_inject:
  "crypto_laws X \<Longrightarrow> x_hex_encode X a = x_hex_encode X b \<longleftrightarrow> a = b"
  unfolding crypto_laws_def by (metis sum.inject(2))

text \<open>Two verified nodes with one id have the same signed content, or collide under SHA-256.\<close>

lemma verified_same_id:
  assumes laws: "json_text_laws X" "json_num_laws X" "manifest_laws X" "crypto_laws X"
    and wf: "wf_node n" "wf_node n'"
    and ver: "verify_node X n = Inr ()" "verify_node X n' = Inr ()"
    and id: "n_agent_id n = n_agent_id n'"
  shows "same_content X (inputs_of_node n) (inputs_of_node n') \<or>
         (\<exists>x y. x \<noteq> y \<and> x_sha256 X x = x_sha256 X y)"
proof -
  from ver obtain p s p' s' where
      n: "signing_payload X (inputs_of_node n) = Inr p" "length s = 64"
        "n_agent_id n = compute_agent_id X p s"
    and n': "signing_payload X (inputs_of_node n') = Inr p'" "length s' = 64"
        "n_agent_id n' = compute_agent_id X p' s'"
    unfolding verify_node_iff by blast
  from id n(3) n'(3) have sha: "x_sha256 X (p @ s) = x_sha256 X (p' @ s')"
    by (simp add: compute_agent_id_def hex_encode_inject [OF laws(4)])
  show ?thesis
  proof (cases "p @ s = p' @ s'")
    case True
    then have "p = p'" using n(2) n'(2) by (simp add: append_eq_append_conv)
    then have "signing_payload X (inputs_of_node n) = signing_payload X (inputs_of_node n')"
      using n(1) n'(1) by simp
    then show ?thesis
      using signing_payload_eq_iff [OF laws(1-3)] wf by simp
  next
    case False
    with sha show ?thesis by blast
  qed
qed

text \<open>The two signed messages are different and have the same digest.\<close>

definition sha_collision ::
  "('m, 'n, 'k) ext \<Rightarrow> ('m, 'n) commit_inputs \<Rightarrow> 'k \<Rightarrow> ('m, 'n) commit_inputs \<Rightarrow> 'k \<Rightarrow> bool" where
  "sha_collision X a k b k' \<longleftrightarrow> (\<exists>p q. signing_payload X a = Inr p \<and> signing_payload X b = Inr q \<and>
     p @ x_sign X k p \<noteq> q @ x_sign X k' q \<and>
     x_sha256 X (p @ x_sign X k p) = x_sha256 X (q @ x_sign X k' q))"

text \<open>Different signed contents have different ids, or are such a collision.\<close>

lemma signed_same_id:
  assumes laws: "json_text_laws X" "json_num_laws X" "manifest_laws X" "crypto_laws X"
    and wf: "wf_inputs a" "wf_inputs b"
    and sign: "sign_node X a k = Inr n" "sign_node X b k' = Inr n'"
    and diff: "\<not> same_content X a b" and same: "n_agent_id n = n_agent_id n'"
  shows "sha_collision X a k b k'"
proof -
  obtain p where p: "signing_payload X a = Inr p"
      "n_agent_id n = compute_agent_id X p (x_sign X k p)"
    using sign(1) by (rule sign_node_payload)
  obtain q where q: "signing_payload X b = Inr q"
      "n_agent_id n' = compute_agent_id X q (x_sign X k' q)"
    using sign(2) by (rule sign_node_payload)
  have "x_sha256 X (p @ x_sign X k p) = x_sha256 X (q @ x_sign X k' q)"
    using same p(2) q(2) by (simp add: compute_agent_id_def hex_encode_inject [OF laws(4)])
  moreover have "length (x_sign X k p) = length (x_sign X k' q)"
    using laws(4) by (simp add: crypto_laws_def)
  then have "p @ x_sign X k p \<noteq> q @ x_sign X k' q"
    using p(1) q(1) diff signing_payload_eq_iff [OF laws(1-3) wf] by auto
  ultimately show ?thesis using p(1) q(1) by (auto simp: sha_collision_def)
qed

text \<open>With a digest that never collides, ids tell signed contents apart.\<close>

lemma signed_ids_differ:
  assumes laws: "json_text_laws X" "json_num_laws X" "manifest_laws X" "crypto_laws X" "inj (x_sha256 X)"
    and wf: "wf_inputs a" "wf_inputs b"
    and sign: "sign_node X a k = Inr n" "sign_node X b k' = Inr n'"
    and diff: "\<not> same_content X a b"
  shows "n_agent_id n \<noteq> n_agent_id n'"
  using signed_same_id [OF laws(1-4) wf sign diff] laws(5) by (auto simp: sha_collision_def inj_eq)

text \<open>The recorded SBOM is no input of verification.\<close>

lemma inputs_of_node_sbom [simp]: "inputs_of_node (n\<lparr>n_capability_sbom := c\<rparr>) = inputs_of_node n"
  by (simp add: inputs_of_node_def)

lemma verify_node_depends:
  assumes "signing_payload X (inputs_of_node n) = signing_payload X (inputs_of_node n')"
    and "n_signature n = n_signature n'" and "n_agent_id n = n_agent_id n'"
    and "n_signer_public_key n = n_signer_public_key n'"
  shows "verify_node X n = verify_node X n'"
  unfolding verify_node_def assms ..

lemma verify_node_ignores_sbom: "verify_node X (n\<lparr>n_capability_sbom := c\<rparr>) = verify_node X n"
  by (rule verify_node_depends) simp_all

text \<open>Reloading a node keeps its payload, hence its verification result.\<close>

lemma signing_payload_reload:
  assumes "json_num_laws X"
  shows "signing_payload X (inputs_of_node (reload n)) = signing_payload X (inputs_of_node n)"
proof -
  have "payload_entries X (inputs_of_node (reload n)) man = payload_entries X (inputs_of_node n) man" for man
    by (simp add: payload_entries_list reload_def intent_to_json_finite_only [OF assms])
  then show ?thesis
    by (simp add: signing_payload_def)
qed

lemma verify_node_reload:
  assumes "json_num_laws X"
  shows "verify_node X (reload n) = verify_node X n"
  by (rule verify_node_depends) (simp_all add: signing_payload_reload [OF assms])


section \<open>Properties\<close>

definition demo_inputs :: "string list \<Rightarrow> node_status \<Rightarrow> (demo_manifest, demo_num) commit_inputs" where
  "demo_inputs tools st =
     \<lparr>ci_parent_id = None, ci_generation = 0, ci_created_at = ''2026-01-01T00:00:00Z'',
      ci_mutation_intent = intent_new ''genesis'', ci_mutation_diff = [], ci_allowed_scope = scope_default,
      ci_eval_results = None, ci_artifact = artifact_new (demo_man tools), ci_status = st,
      ci_parent_agent_success = True, ci_valid_parent = (st = Promoted), ci_eval_stage = None\<rparr>"

lemma wf_demo_inputs [simp]: "wf_inputs (demo_inputs tools st)"
  by (simp add: demo_inputs_def wf_inputs_def)

text \<open>Every sample input signs; the node is named to keep the witnesses small.\<close>

definition demo_node :: "string list \<Rightarrow> node_status \<Rightarrow> char \<Rightarrow> (demo_manifest, demo_num) agent_node" where
  "demo_node tools st key =
     (case sign_node (demo_ext True) (demo_inputs tools st) key of Inr n \<Rightarrow> n)"

lemma demo_node_signed: "sign_node (demo_ext True) (demo_inputs tools st) key = Inr (demo_node tools st key)"
  by (rule sign_node_total [of "demo_ext True" "demo_inputs tools st" key]) (simp_all add: demo_node_def)

lemma wf_demo_node [simp]: "wf_node (demo_node tools st key)"
  using sign_node_fields(1) [OF demo_node_signed, of tools st key] wf_demo_inputs [of tools st]
  by (simp flip: wf_inputs_of_node)

lemma demo_node_verifies: "verify_node (demo_ext True) (demo_node tools st key) = Inr ()"
  by (rule sign_node_verifies [OF _ demo_node_signed]) simp

text \<open>
  C10: Signing always succeeds on well-formed inputs; the node it returns verifies, carries the inputs
  unchanged, the SBOM of its artifact, and the public key of the signer.
\<close>

theorem sign_then_verify:
  assumes "json_text_laws X" and "manifest_laws X" and "crypto_laws X" and "wf_inputs ci"
  shows "\<exists>n. sign_node X ci key = Inr n \<and> verify_node X n = Inr () \<and> inputs_of_node n = ci \<and>
     n_capability_sbom n = capability_sbom X (ci_artifact ci) \<and>
     x_hex_decode X (n_signer_public_key n) = Inr (x_verifying_key X key)"
proof -
  obtain n where n: "sign_node X ci key = Inr n"
    using sign_node_total [OF assms(1,2,4)] .
  then show ?thesis
    using sign_node_verifies [OF assms(3) n] sign_node_fields [OF n] assms(3)
    by (auto simp: crypto_laws_def)
qed

theorem sign_then_verify_witness:
  "\<exists>n. sign_node (demo_ext True) (demo_inputs [''search''] Promoted) (CHR ''k'') = Inr n \<and>
     verify_node (demo_ext True) n = Inr () \<and> inputs_of_node n = demo_inputs [''search''] Promoted \<and>
     n_capability_sbom n =
       capability_sbom (demo_ext True) (ci_artifact (demo_inputs [''search''] Promoted)) \<and>
     x_hex_decode (demo_ext True) (n_signer_public_key n) =
       Inr (x_verifying_key (demo_ext True) (CHR ''k''))"
  by (rule sign_then_verify) simp_all

text \<open>
  C11: The signing payload determines exactly the signed content: the payloads of two well-formed
  inputs agree if and only if parent id, generation, timestamp, intent, diff, scope, evaluation
  results, SBOM, manifest, status, flags and stage agree, JSON values up to the order of object entries
  and floats up to non-finite ones.
\<close>

theorem payload_determines_content:
  assumes "json_text_laws X" and "json_num_laws X" and "manifest_laws X"
    and "wf_inputs a" and "wf_inputs b"
  shows "\<exists>p q. signing_payload X a = Inr p \<and> signing_payload X b = Inr q \<and>
     (p = q \<longleftrightarrow> same_content X a b)"
proof -
  obtain p q where "signing_payload X a = Inr p" "signing_payload X b = Inr q"
    using signing_payload_total [OF assms(1,3)] assms(4,5) by metis
  then show ?thesis
    using signing_payload_eq_iff [OF assms] by simp
qed

theorem payload_determines_content_witness:
  "\<exists>p q. signing_payload (demo_ext True) (demo_inputs [''search''] Promoted) = Inr p \<and>
     signing_payload (demo_ext True) (demo_inputs [''search''] Rejected) = Inr q \<and> p \<noteq> q"
proof -
  have "\<not> same_content (demo_ext True) (demo_inputs [''search''] Promoted) (demo_inputs [''search''] Rejected)"
    by (simp add: same_content_def demo_inputs_def)
  then show ?thesis
    using payload_determines_content [of "demo_ext True" "demo_inputs [''search''] Promoted"
        "demo_inputs [''search''] Rejected"] by auto
qed

text \<open>
  C8: Tamper evidence: if a node verifies under the id of another verified node and any signed field
  differs, the two payloads, each followed by its own node's signature, are a SHA-256 collision.
\<close>

theorem tampering_is_collision:
  assumes "json_text_laws X" and "json_num_laws X" and "manifest_laws X" and "crypto_laws X"
    and "wf_node n" and "wf_node n'"
    and "verify_node X n = Inr ()" and "verify_node X n' = Inr ()"
    and "n_agent_id n = n_agent_id n'"
    and "\<not> same_content X (inputs_of_node n) (inputs_of_node n')"
  shows "\<exists>p q s t. signing_payload X (inputs_of_node n) = Inr p \<and>
     signing_payload X (inputs_of_node n') = Inr q \<and>
     x_hex_decode X (n_signature n) = Inr s \<and> x_hex_decode X (n_signature n') = Inr t \<and>
     p @ s \<noteq> q @ t \<and> x_sha256 X (p @ s) = x_sha256 X (q @ t)"
proof -
  from assms(7,8) obtain p s q t where
      n: "signing_payload X (inputs_of_node n) = Inr p" "length s = 64"
        "n_agent_id n = compute_agent_id X p s" "x_hex_decode X (n_signature n) = Inr s"
    and n': "signing_payload X (inputs_of_node n') = Inr q" "length t = 64"
        "n_agent_id n' = compute_agent_id X q t" "x_hex_decode X (n_signature n') = Inr t"
    unfolding verify_node_iff by blast
  have "p \<noteq> q"
    using signing_payload_eq_iff [OF assms(1-3), of "inputs_of_node n" "inputs_of_node n'"]
      assms(5,6,10) n(1) n'(1) by auto
  then have "p @ s \<noteq> q @ t" using n(2) n'(2) by simp
  moreover have "x_sha256 X (p @ s) = x_sha256 X (q @ t)"
    using assms(9) n(3) n'(3) by (simp add: compute_agent_id_def hex_encode_inject [OF assms(4)])
  ultimately show ?thesis using n(1,4) n'(1,4) by blast
qed

text \<open>A digest that collides everywhere, for the witness.\<close>

definition weak_ext :: "(demo_manifest, demo_num, char) ext" where
  "weak_ext = (demo_ext True)\<lparr>x_sha256 := \<lambda>_. replicate 32 (CHR 0x00)\<rparr>"

lemma laws_ignore_digest [simp]:
  "json_text_laws (X\<lparr>x_sha256 := h\<rparr>) = json_text_laws X"
  "json_num_laws (X\<lparr>x_sha256 := h\<rparr>) = json_num_laws X"
  "manifest_laws (X\<lparr>x_sha256 := h\<rparr>) = manifest_laws X"
  "crypto_laws (X\<lparr>x_sha256 := h\<rparr>) = crypto_laws X"
  by (simp_all add: json_text_laws_def json_num_laws_def manifest_laws_def crypto_laws_def)

lemma weak_ext_laws:
  "json_text_laws weak_ext" "json_num_laws weak_ext" "manifest_laws weak_ext" "crypto_laws weak_ext"
  unfolding weak_ext_def laws_ignore_digest by (rule demo_json_text_laws demo_json_num_laws
    demo_manifest_laws demo_crypto_laws)+

theorem tampering_is_collision_witness:
  "\<exists>p q s t. p @ s \<noteq> q @ t \<and> x_sha256 weak_ext (p @ s) = x_sha256 weak_ext (q @ t)"
proof -
  obtain n where n: "sign_node weak_ext (demo_inputs [] Promoted) (CHR ''k'') = Inr n"
    using sign_node_total [OF weak_ext_laws(1,3) wf_demo_inputs] .
  obtain n' where n': "sign_node weak_ext (demo_inputs [] Rejected) (CHR ''k'') = Inr n'"
    using sign_node_total [OF weak_ext_laws(1,3) wf_demo_inputs] .
  have digest: "compute_agent_id weak_ext p s = compute_agent_id weak_ext q t" for p s q t
    by (simp add: compute_agent_id_def weak_ext_def)
  have "n_agent_id n = n_agent_id n'"
    by (rule sign_node_payload [OF n], rule sign_node_payload [OF n']) (simp only: digest)
  moreover have "\<not> same_content weak_ext (inputs_of_node n) (inputs_of_node n')"
    by (simp add: sign_node_fields(1) [OF n] sign_node_fields(1) [OF n'] same_content_def demo_inputs_def)
  moreover have "wf_node n" "wf_node n'"
    using sign_node_fields(1) [OF n] sign_node_fields(1) [OF n']
    by (simp_all flip: wf_inputs_of_node)
  ultimately show ?thesis
    using tampering_is_collision [of weak_ext n n', OF weak_ext_laws]
      sign_node_verifies [OF weak_ext_laws(4) n] sign_node_verifies [OF weak_ext_laws(4) n'] by blast
qed

text \<open>
  A node survives storage: what a serialised node reads back as verifies exactly when the
  original does.
\<close>

theorem stored_node_verifies:
  assumes "json_num_laws X" and "manifest_laws X"
  shows "\<exists>j n'. node_to_json X n = Inr j \<and> node_from_json X j = Inr n' \<and>
     n_agent_id n' = n_agent_id n \<and> verify_node X n' = verify_node X n"
proof -
  obtain j where "node_to_json X n = Inr j"
    using node_to_json_total [OF assms(2)] by blast
  then show ?thesis
    using node_reload [OF assms] verify_node_reload [OF assms(1)] by auto
qed

theorem stored_node_verifies_witness:
  "\<exists>j n'. node_to_json (demo_ext True) (demo_node [''search''] Promoted (CHR ''k'')) = Inr j \<and>
     node_from_json (demo_ext True) j = Inr n' \<and>
     n_agent_id n' = n_agent_id (demo_node [''search''] Promoted (CHR ''k'')) \<and>
     verify_node (demo_ext True) n' = Inr ()"
  using stored_node_verifies [of "demo_ext True" "demo_node [''search''] Promoted (CHR ''k'')"]
  by (simp add: demo_node_verifies)

end
