(* ===== verification/Veh_Policy.thy ===== *)
theory Veh_Policy
  imports Veh_Identity
begin

text \<open>
  \<^verbatim>\<open>src/policy.rs\<close>: the decision type, the default gate and its allow-list lookup. A gate is the
  function a \<open>PolicyGate\<close> object supplies; the result type leaves room for the panic that
  \<open>parent.generation + 1\<close> raises in a build with overflow checks. The locale \<open>scope_gate\<close> is what
  the lifecycle runner expects of a gate, and the default gate is shown to provide it.
\<close>

section \<open>The gate\<close>

datatype policy_decision = Approve | Deny string | RequireApproval string

type_synonym ('m, 'n) policy_gate =
  "('m, 'n) agent_node \<Rightarrow> 'n mutation_intent \<Rightarrow> string list \<Rightarrow> policy_decision res"

text \<open>\<open>str::split_once\<close> with a character: the parts around its first occurrence.\<close>

definition split_once :: "char \<Rightarrow> string \<Rightarrow> (string \<times> string) option" where
  "split_once c s = (case dropWhile (\<lambda>x. x \<noteq> c) s of
       [] \<Rightarrow> None
     | _ # rest \<Rightarrow> Some (takeWhile (\<lambda>x. x \<noteq> c) s, rest))"

definition capability_in_scope :: "string \<Rightarrow> allowed_scope \<Rightarrow> bool" where
  "capability_in_scope capability scope =
     (case split_once (CHR '':'') capability of
        None \<Rightarrow> False
      | Some (kind, name) \<Rightarrow>
          if kind = ''tool'' then list_ex (\<lambda>allowed. name = allowed) (sc_allowed_tools scope)
          else if kind = ''mcp'' then list_ex (\<lambda>allowed. name = allowed) (sc_allowed_mcp_servers scope)
          else if kind = ''delegate'' then list_ex (\<lambda>allowed. name = allowed) (sc_allowed_delegates scope)
          else False)"

definition depth_check :: "('m, 'n, 'k) ext \<Rightarrow> u32 \<Rightarrow> u32 option \<Rightarrow> string option res" where
  "depth_check X generation max_generation =
     (case max_generation of
        None \<Rightarrow> Inr None
      | Some mx \<Rightarrow> res_bind (u32_succ X generation) (\<lambda>next.
          Inr (if next > mx
               then Some (''max_generation '' @ show_nat (unat mx) @ '' exceeded (parent gen '' @
                          show_nat (unat generation) @ '')'')
               else None)))"

definition added_capabilities :: "('m, 'n) agent_node \<Rightarrow> string list \<Rightarrow> string list" where
  "added_capabilities parent candidate_sbom =
     filter (\<lambda>s. s \<notin> set (n_capability_sbom parent)) candidate_sbom"

text \<open>The rules after the depth rule: additions against the allow-lists, then the gated tags.\<close>

definition scope_decision ::
  "('m, 'n) agent_node \<Rightarrow> 'n mutation_intent \<Rightarrow> string list \<Rightarrow> policy_decision" where
  "scope_decision parent intent candidate_sbom =
     (let scope = n_allowed_scope parent in
      case find (\<lambda>cap. \<not> capability_in_scope cap scope) (added_capabilities parent candidate_sbom) of
        Some cap \<Rightarrow> RequireApproval (''capability '' @ cap @ '' outside allowed_scope'')
      | None \<Rightarrow>
          (case find (\<lambda>gated. list_ex (\<lambda>c. c = gated) candidate_sbom
                              \<or> list_ex (\<lambda>c. c = gated) (mi_constraints intent))
                  (sc_gated_capabilities scope) of
             Some gated \<Rightarrow> RequireApproval (''gated capability '' @ gated @ '' present'')
           | None \<Rightarrow> Approve))"

definition default_evaluate :: "('m, 'n, 'k) ext \<Rightarrow> ('m, 'n) policy_gate" where
  "default_evaluate X parent intent candidate_sbom =
     res_bind (depth_check X (n_generation parent) (sc_max_generation (n_allowed_scope parent))) (\<lambda>depth.
     case depth of
       Some reason \<Rightarrow> Inr (Deny reason)
     | None \<Rightarrow> Inr (scope_decision parent intent candidate_sbom))"


section \<open>Allow-lists\<close>

lemma split_once_append: "c \<notin> set k \<Longrightarrow> split_once c (k @ c # n) = Some (k, n)"
  by (simp add: split_once_def dropWhile_append takeWhile_append)

lemma split_once_Some_iff:
  "split_once c s = Some (k, n) \<longleftrightarrow> s = k @ c # n \<and> c \<notin> set k"
proof
  assume "split_once c s = Some (k, n)"
  then obtain d where d: "dropWhile (\<lambda>x. x \<noteq> c) s = d # n" and k: "k = takeWhile (\<lambda>x. x \<noteq> c) s"
    by (auto simp add: split_once_def simp del: dropWhile_eq_Cons_conv split: list.splits)
  then have "dropWhile (\<lambda>x. x \<noteq> c) s = c # n"
    using hd_dropWhile [of "\<lambda>x. x \<noteq> c" s] by simp
  then have "s = k @ c # n"
    using takeWhile_dropWhile_id [of "\<lambda>x. x \<noteq> c" s] k by simp
  moreover have "c \<notin> set k"
    using k by (auto dest: set_takeWhileD)
  ultimately show "s = k @ c # n \<and> c \<notin> set k" ..
qed (auto simp: split_once_append)

lemma split_once_None_iff: "split_once c s = None \<longleftrightarrow> c \<notin> set s"
proof -
  have "split_once c s = None \<longleftrightarrow> dropWhile (\<lambda>x. x \<noteq> c) s = []"
    unfolding split_once_def by (cases "dropWhile (\<lambda>x. x \<noteq> c) s") (simp_all only: list.case, simp_all)
  then show ?thesis by (auto simp: dropWhile_eq_Nil_conv)
qed

text \<open>A capability is in scope exactly when it is one of the tags the allow-lists spell out.\<close>

definition scope_capabilities :: "allowed_scope \<Rightarrow> string set" where
  "scope_capabilities scope =
     (\<lambda>n. ''tool:'' @ n) ` set (sc_allowed_tools scope) \<union>
     (\<lambda>n. ''mcp:'' @ n) ` set (sc_allowed_mcp_servers scope) \<union>
     (\<lambda>n. ''delegate:'' @ n) ` set (sc_allowed_delegates scope)"

lemma capability_in_scope_iff: "capability_in_scope c s \<longleftrightarrow> c \<in> scope_capabilities s"
proof (cases "split_once (CHR '':'') c")
  case None
  then have "CHR '':'' \<notin> set c" by (simp add: split_once_None_iff)
  then have "c \<notin> scope_capabilities s" by (auto simp: scope_capabilities_def)
  then show ?thesis using None by (simp add: capability_in_scope_def)
next
  case (Some p)
  obtain k n where p: "p = (k, n)" by force
  with Some have c: "c = k @ CHR '':'' # n" "CHR '':'' \<notin> set k"
    by (simp_all add: split_once_Some_iff)
  have tag: "c = t @ CHR '':'' # x \<longleftrightarrow> k = t \<and> n = x" if "CHR '':'' \<notin> set t" for t x
  proof
    assume "c = t @ CHR '':'' # x"
    then have "split_once (CHR '':'') c = Some (t, x)"
      using that by (simp add: split_once_append)
    then show "k = t \<and> n = x" using Some p by simp
  qed (simp add: c)
  have tags: "c = ''tool:'' @ x \<longleftrightarrow> k = ''tool'' \<and> n = x"
    "c = ''mcp:'' @ x \<longleftrightarrow> k = ''mcp'' \<and> n = x"
    "c = ''delegate:'' @ x \<longleftrightarrow> k = ''delegate'' \<and> n = x" for x
    using tag [of "''tool''" x] tag [of "''mcp''" x] tag [of "''delegate''" x] by simp_all
  show ?thesis
    unfolding capability_in_scope_def scope_capabilities_def Some p Un_iff image_iff tags
    by (simp add: list_ex_iff)
qed


lemma capability_in_scope_update [simp]:
  "capability_in_scope c (s\<lparr>sc_gated_capabilities := g\<rparr>) = capability_in_scope c s"
  "capability_in_scope c (s\<lparr>sc_max_generation := mx\<rparr>) = capability_in_scope c s"
  by (simp_all add: capability_in_scope_iff scope_capabilities_def)


section \<open>The decision\<close>

lemma find_None_set: "find P xs = None \<longleftrightarrow> (\<forall>x \<in> set xs. \<not> P x)"
  by (auto simp: find_None_iff)

lemma find_Some_set: "find P xs = Some x \<Longrightarrow> x \<in> set xs \<and> P x"
  by (auto simp: find_Some_iff)

definition depth_exceeded :: "('m, 'n) agent_node \<Rightarrow> bool" where
  "depth_exceeded p \<longleftrightarrow>
     (case sc_max_generation (n_allowed_scope p) of None \<Rightarrow> False | Some mx \<Rightarrow> n_generation p + 1 > mx)"

definition widens :: "('m, 'n) agent_node \<Rightarrow> string list \<Rightarrow> bool" where
  "widens p sbom \<longleftrightarrow>
     \<not> set sbom \<subseteq> set (n_capability_sbom p) \<union> scope_capabilities (n_allowed_scope p)"

definition gated :: "('m, 'n) agent_node \<Rightarrow> 'n mutation_intent \<Rightarrow> string list \<Rightarrow> bool" where
  "gated p i sbom \<longleftrightarrow>
     set (sc_gated_capabilities (n_allowed_scope p)) \<inter> (set sbom \<union> set (mi_constraints i)) \<noteq> {}"

definition depth_overflows :: "('m, 'n, 'k) ext \<Rightarrow> ('m, 'n) agent_node \<Rightarrow> bool" where
  "depth_overflows X p \<longleftrightarrow>
     sc_max_generation (n_allowed_scope p) \<noteq> None \<and> n_generation p = - 1 \<and> x_overflow_checks X"

text \<open>The reference decision: overflow, then depth, then the allow-lists, then the gated tags.\<close>

lemma default_evaluate_cases:
  "depth_overflows X p \<Longrightarrow> default_evaluate X p i sbom = Inl Overflow_Panic"
  "\<not> depth_overflows X p \<Longrightarrow> depth_exceeded p \<Longrightarrow> \<exists>r. default_evaluate X p i sbom = Inr (Deny r)"
  "\<not> depth_overflows X p \<Longrightarrow> \<not> depth_exceeded p \<Longrightarrow> widens p sbom \<or> gated p i sbom \<Longrightarrow>
     \<exists>r. default_evaluate X p i sbom = Inr (RequireApproval r)"
  "\<not> depth_overflows X p \<Longrightarrow> \<not> depth_exceeded p \<Longrightarrow> \<not> widens p sbom \<Longrightarrow> \<not> gated p i sbom \<Longrightarrow>
     default_evaluate X p i sbom = Inr Approve"
proof -
  let ?depth = "depth_check X (n_generation p) (sc_max_generation (n_allowed_scope p))"
  let ?out = "find (\<lambda>cap. \<not> capability_in_scope cap (n_allowed_scope p)) (added_capabilities p sbom)"
  let ?gate = "find (\<lambda>g. list_ex (\<lambda>c. c = g) sbom \<or> list_ex (\<lambda>c. c = g) (mi_constraints i))
                 (sc_gated_capabilities (n_allowed_scope p))"
  have over: "?depth = Inl Overflow_Panic" if "depth_overflows X p"
    using that by (auto simp: depth_check_def depth_overflows_def u32_succ_def)
  have depth: "\<exists>d. ?depth = Inr d \<and> (d \<noteq> None \<longleftrightarrow> depth_exceeded p)" if "\<not> depth_overflows X p"
    using that
    by (auto simp: depth_check_def depth_overflows_def u32_succ_def depth_exceeded_def split: option.split)
  have out: "?out = None \<longleftrightarrow> \<not> widens p sbom"
    unfolding find_None_set
    by (auto simp: widens_def added_capabilities_def capability_in_scope_iff)
  have gate: "?gate = None \<longleftrightarrow> \<not> gated p i sbom"
    unfolding find_None_set by (auto simp: gated_def list_ex_iff)
  show "depth_overflows X p \<Longrightarrow> default_evaluate X p i sbom = Inl Overflow_Panic"
    by (simp add: default_evaluate_def over)
  show "\<not> depth_overflows X p \<Longrightarrow> depth_exceeded p \<Longrightarrow> \<exists>r. default_evaluate X p i sbom = Inr (Deny r)"
    using depth by (auto simp: default_evaluate_def)
  show "\<exists>r. default_evaluate X p i sbom = Inr (RequireApproval r)"
    if "\<not> depth_overflows X p" "\<not> depth_exceeded p" "widens p sbom \<or> gated p i sbom"
  proof -
    have "?depth = Inr None" using depth that by auto
    then show ?thesis
      using that(3) out gate by (cases ?out; cases ?gate) (auto simp: default_evaluate_def scope_decision_def)
  qed
  show "default_evaluate X p i sbom = Inr Approve"
    if "\<not> depth_overflows X p" "\<not> depth_exceeded p" "\<not> widens p sbom" "\<not> gated p i sbom"
  proof -
    have "?depth = Inr None" using depth that by auto
    then show ?thesis
      using that out gate by (simp add: default_evaluate_def scope_decision_def)
  qed
qed

lemma default_evaluate_Approve_iff:
  "default_evaluate X p i sbom = Inr Approve \<longleftrightarrow>
     \<not> depth_overflows X p \<and> \<not> depth_exceeded p \<and> \<not> widens p sbom \<and> \<not> gated p i sbom"
  using default_evaluate_cases [where X = X and p = p and i = i and sbom = sbom] by force

lemma default_evaluate_Deny_iff:
  "(\<exists>r. default_evaluate X p i sbom = Inr (Deny r)) \<longleftrightarrow> \<not> depth_overflows X p \<and> depth_exceeded p"
  using default_evaluate_cases [where X = X and p = p and i = i and sbom = sbom] by force


section \<open>What the runner expects of a gate\<close>

text \<open>
  An approved candidate adds nothing outside the parent's scope, and touches no gated capability.
\<close>

locale scope_gate =
  fixes evaluate :: "('m, 'n) policy_gate"
  assumes approve_scope: "evaluate p i sbom = Inr Approve \<Longrightarrow>
      set sbom \<subseteq> set (n_capability_sbom p) \<union> scope_capabilities (n_allowed_scope p)"
    and approve_ungated: "evaluate p i sbom = Inr Approve \<Longrightarrow> \<not> gated p i sbom"
begin

lemma approve_closed_scope:
  assumes "evaluate p i sbom = Inr Approve" and "scope_capabilities (n_allowed_scope p) = {}"
  shows "set sbom \<subseteq> set (n_capability_sbom p)"
  using approve_scope [OF assms(1)] assms(2) by simp

lemma approve_not_gated_tag:
  assumes "evaluate p i sbom = Inr Approve" and "g \<in> set (sc_gated_capabilities (n_allowed_scope p))"
  shows "g \<notin> set sbom \<and> g \<notin> set (mi_constraints i)"
  using approve_ungated [OF assms(1)] assms(2) by (auto simp: gated_def)

end

interpretation default_gate: scope_gate "default_evaluate X"
  by unfold_locales (auto simp: default_evaluate_Approve_iff widens_def)


section \<open>Properties\<close>

text \<open>
  C9: The default gate decides by its four rules in order, for any parent but one at the last generation
  in a build with overflow checks: it denies exactly when the child's generation, which wraps to zero
  after the last one, exceeds the scope's maximum, asks for approval exactly when the candidate adds a
  capability that neither the parent nor the allow-lists name or a gated tag is present, and approves
  otherwise.
\<close>

theorem default_gate_decision:
  assumes "\<not> (x_overflow_checks X \<and> n_generation p = - 1)"
  shows "(default_evaluate X p i sbom = Inr Approve \<longleftrightarrow>
      \<not> depth_exceeded p \<and> set sbom \<subseteq> set (n_capability_sbom p) \<union> scope_capabilities (n_allowed_scope p) \<and>
      set (sc_gated_capabilities (n_allowed_scope p)) \<inter> (set sbom \<union> set (mi_constraints i)) = {}) \<and>
    ((\<exists>r. default_evaluate X p i sbom = Inr (Deny r)) \<longleftrightarrow> depth_exceeded p) \<and>
    ((\<exists>r. default_evaluate X p i sbom = Inr (RequireApproval r)) \<longleftrightarrow>
      \<not> depth_exceeded p \<and>
      (\<not> set sbom \<subseteq> set (n_capability_sbom p) \<union> scope_capabilities (n_allowed_scope p) \<or>
       set (sc_gated_capabilities (n_allowed_scope p)) \<inter> (set sbom \<union> set (mi_constraints i)) \<noteq> {}))"
proof -
  have no: "\<not> depth_overflows X p"
    using assms by (auto simp: depth_overflows_def)
  note cases = default_evaluate_cases [where X = X and p = p and i = i and sbom = sbom]
  have "(\<exists>r. default_evaluate X p i sbom = Inr (RequireApproval r)) \<longleftrightarrow>
      \<not> depth_exceeded p \<and> (widens p sbom \<or> gated p i sbom)"
    using cases(2-4) [OF no] by force
  then show ?thesis
    using no by (simp add: default_evaluate_Approve_iff default_evaluate_Deny_iff widens_def gated_def)
qed

theorem default_gate_decision_witness:
  "default_evaluate (demo_ext True) (demo_child\<lparr>n_allowed_scope := scope_default\<rparr>) (intent_new ''g'')
     [''tool:search''] = Inr Approve"
  using default_gate_decision [of "demo_ext True" "demo_child\<lparr>n_allowed_scope := scope_default\<rparr>"
      "intent_new ''g''" "[''tool:search'']"]
  by (simp add: demo_child_def scope_default_def depth_exceeded_def)

text \<open>
  C35: The recorded SBOM is trusted but not protected: a node whose stored capability list has been
  extended by a candidate's SBOM verifies as before, and with that node as parent the default gate
  approves the candidate without review unless the depth rule or a gated tag stops it.
\<close>

theorem forged_sbom_widens_gate:
  assumes "verify_node X n = Inr ()" and "\<not> (x_overflow_checks X \<and> n_generation n = - 1)"
    and "n' = n\<lparr>n_capability_sbom := capability_sbom X a @ n_capability_sbom n\<rparr>"
    and "\<not> depth_exceeded n" and "\<not> gated n i (capability_sbom X a)"
  shows "verify_node X n' = Inr () \<and> default_evaluate X n' i (capability_sbom X a) = Inr Approve"
proof -
  have "\<not> depth_overflows X n'" "\<not> depth_exceeded n'" "\<not> gated n' i (capability_sbom X a)"
    using assms(2-5)
    by (auto simp: depth_overflows_def depth_exceeded_def gated_def split: option.splits)
  moreover have "\<not> widens n' (capability_sbom X a)"
    using assms(3) by (auto simp: widens_def)
  ultimately show ?thesis
    using assms(1,3) by (simp add: default_evaluate_Approve_iff verify_node_ignores_sbom)
qed

theorem forged_sbom_widens_gate_witness:
  "\<exists>n' a. verify_node (demo_ext True) n' = Inr () \<and> n_artifact n' = artifact_new (demo_man [''a'']) \<and>
     ''tool:shell'' \<notin> set (capability_sbom (demo_ext True) (n_artifact n')) \<and>
     ''tool:shell'' \<in> set (capability_sbom (demo_ext True) a) \<and>
     default_evaluate (demo_ext True) n' (intent_new ''g'') (capability_sbom (demo_ext True) a) = Inr Approve"
proof -
  let ?X = "demo_ext True" and ?n = "demo_node [''a''] Promoted (CHR ''k'')"
    and ?a = "artifact_new (demo_man [''shell''])"
  have inp: "inputs_of_node ?n = demo_inputs [''a''] Promoted"
    by (rule sign_node_fields(1) [OF demo_node_signed])
  have f: "n_generation ?n = ci_generation (inputs_of_node ?n)" "n_allowed_scope ?n = ci_allowed_scope (inputs_of_node ?n)"
      "n_artifact ?n = ci_artifact (inputs_of_node ?n)"
    by simp_all
  have "n_generation ?n = 0" "n_allowed_scope ?n = scope_default" "n_artifact ?n = artifact_new (demo_man [''a''])"
    unfolding f inp by (simp_all add: demo_inputs_def)
  then show ?thesis
    using forged_sbom_widens_gate [of ?X ?n "?n\<lparr>n_capability_sbom := capability_sbom ?X ?a @ n_capability_sbom ?n\<rparr>" ?a
        "intent_new ''g''"] demo_node_verifies [of "[''a'']" Promoted "CHR ''k''"]
    by (intro exI [of _ "?n\<lparr>n_capability_sbom := capability_sbom ?X ?a @ n_capability_sbom ?n\<rparr>"] exI [of _ ?a])
      (simp add: depth_exceeded_def gated_def scope_default_def capability_set_def tool_capability_def artifact_new_def)
qed

text \<open>
  A gated capability written without a kind prefix, as in the documentation's example, never
  matches an artifact's SBOM: removing such tags from the scope changes no decision on an intent that
  does not declare them itself.
\<close>

theorem bare_gate_tag_inert:
  assumes "\<forall>g \<in> set (sc_gated_capabilities (n_allowed_scope p)).
      CHR '':'' \<notin> set g \<and> g \<notin> set (mi_constraints i)"
  shows "default_evaluate X p i (capability_sbom X a) =
     default_evaluate X (p\<lparr>n_allowed_scope := (n_allowed_scope p)\<lparr>sc_gated_capabilities := []\<rparr>\<rparr>) i
       (capability_sbom X a)"
proof -
  let ?s = "n_allowed_scope p"
  have none: "find (\<lambda>g. list_ex (\<lambda>c. c = g) (capability_sbom X a) \<or> list_ex (\<lambda>c. c = g) (mi_constraints i))
      (sc_gated_capabilities ?s) = None"
    unfolding find_None_set
    using assms sbom_prefixed [of _ X a] by (fastforce simp: list_ex_iff)
  then have "scope_decision (p\<lparr>n_allowed_scope := ?s\<lparr>sc_gated_capabilities := []\<rparr>\<rparr>) i (capability_sbom X a)
      = scope_decision p i (capability_sbom X a)"
    by (simp add: scope_decision_def added_capabilities_def none cong: option.case_cong)
  then show ?thesis
    by (simp add: default_evaluate_def cong: option.case_cong)
qed

theorem bare_gate_tag_inert_witness:
  "default_evaluate (demo_ext True)
     (demo_child\<lparr>n_allowed_scope := scope_default\<lparr>sc_gated_capabilities := [''autonomous_trading'']\<rparr>\<rparr>)
     (intent_new ''g'') (capability_sbom (demo_ext True) (artifact_new (demo_man [''autonomous_trading'']))) =
   default_evaluate (demo_ext True)
     (demo_child\<lparr>n_allowed_scope := scope_default\<lparr>sc_gated_capabilities := []\<rparr>\<rparr>)
     (intent_new ''g'') (capability_sbom (demo_ext True) (artifact_new (demo_man [''autonomous_trading''])))"
  using bare_gate_tag_inert [of "demo_child\<lparr>n_allowed_scope := scope_default\<lparr>sc_gated_capabilities := [''autonomous_trading'']\<rparr>\<rparr>"
      "intent_new ''g''" "demo_ext True" "artifact_new (demo_man [''autonomous_trading''])"]
  by (simp add: intent_new_def del: demo_ext_simps)

text \<open>
  C38: At the last generation the depth rule does not deny: the successor of \<open>u32::MAX\<close> panics in a
  build with overflow checks and wraps to zero otherwise, which no maximum rejects.
\<close>

theorem depth_cap_at_u32_max:
  assumes "n_generation p = - 1" and "sc_max_generation (n_allowed_scope p) = Some mx"
  shows "default_evaluate X p i sbom =
       (if x_overflow_checks X then Inl Overflow_Panic
        else default_evaluate X (p\<lparr>n_allowed_scope := (n_allowed_scope p)\<lparr>sc_max_generation := None\<rparr>\<rparr>) i sbom)"
proof -
  have "scope_decision (p\<lparr>n_allowed_scope := (n_allowed_scope p)\<lparr>sc_max_generation := None\<rparr>\<rparr>) i sbom
      = scope_decision p i sbom"
    by (simp add: scope_decision_def Let_def added_capabilities_def cong: option.case_cong)
  then show ?thesis
    using assms by (simp add: default_evaluate_def depth_check_def u32_succ_def)
qed

theorem depth_cap_at_u32_max_witness:
  "default_evaluate (demo_ext True) (demo_child\<lparr>n_generation := - 1\<rparr>) (intent_new ''g'') [] = Inl Overflow_Panic"
  using depth_cap_at_u32_max [of "demo_child\<lparr>n_generation := - 1\<rparr>" 9 "demo_ext True" "intent_new ''g''" "[]"]
  by (simp add: demo_child_def)

end
