(* ===== verification/Veh_Ledger.thy ===== *)
theory Veh_Ledger
  imports Veh_Policy
begin

text \<open>
  \<^verbatim>\<open>src/ledger.rs\<close>, the trait and the in-memory store. A \<open>LineageStore\<close> object is the record
  of its methods over the state behind its lock; a method that takes the write lock is an \<open>op\<close>,
  one that takes the read lock is a function of the state. The locale \<open>lineage_contract\<close> is what the
  lifecycle runner relies on, stated over the abstract ledger: the nodes in insertion order, and a
  head. The in-memory store is shown to provide it.
\<close>

section \<open>The trait\<close>

record ('s, 'm, 'n) lineage_store =
  ls_append :: "('m, 'n) agent_node \<Rightarrow> ('s, unit) op"
  ls_get :: "agent_id \<Rightarrow> 's \<Rightarrow> ('m, 'n) agent_node res"
  ls_head :: "'s \<Rightarrow> agent_id option res"
  ls_set_head :: "agent_id \<Rightarrow> ('s, unit) op"
  ls_export_dag_json :: "'s \<Rightarrow> 'n json res"
  ls_nodes :: "'s \<Rightarrow> ('m, 'n) agent_node list res"

text \<open>The default \<open>nodes\<close>: decode the export.\<close>

definition default_nodes ::
  "('m, 'n, 'k) ext \<Rightarrow> ('s \<Rightarrow> 'n json res) \<Rightarrow> 's \<Rightarrow> ('m, 'n) agent_node list res" where
  "default_nodes X export s =
     res_bind (export s) (\<lambda>dag.
     res_bind (ok_or (LedgerError ''dag export missing nodes'') (j_get ''nodes'' dag)) (\<lambda>nodes.
     map_err Json (dec_vec (node_from_json X) nodes)))"


section \<open>The in-memory store\<close>

record ('m, 'n) mem_inner =
  im_nodes :: "agent_id \<rightharpoonup> ('m, 'n) agent_node"
  im_order :: "agent_id list"
  im_head :: "agent_id option"

definition mem_new :: "('m, 'n) mem_inner" where
  "mem_new = \<lparr>im_nodes = Map.empty, im_order = [], im_head = None\<rparr>"

definition mem_append :: "('m, 'n) agent_node \<Rightarrow> (('m, 'n) mem_inner, unit) op" where
  "mem_append node guard =
     (let id = n_agent_id node; status = n_status node in
      if im_nodes guard id \<noteq> None then (Inl (LedgerError (''duplicate agent_id '' @ id)), guard)
      else
        let guard = guard\<lparr>im_order := im_order guard @ [id]\<rparr>;
            guard = guard\<lparr>im_nodes := (im_nodes guard)(id \<mapsto> node)\<rparr>;
            guard = (if status = Promoted then guard\<lparr>im_head := Some id\<rparr> else guard)
        in (Inr (), guard))"

definition mem_get :: "agent_id \<Rightarrow> ('m, 'n) mem_inner \<Rightarrow> ('m, 'n) agent_node res" where
  "mem_get aid guard = ok_or (NotFound aid) (im_nodes guard aid)"

definition mem_head :: "('m, 'n) mem_inner \<Rightarrow> agent_id option res" where
  "mem_head guard = Inr (im_head guard)"

definition mem_set_head :: "agent_id \<Rightarrow> (('m, 'n) mem_inner, unit) op" where
  "mem_set_head aid guard =
     (if im_nodes guard aid = None then (Inl (NotFound aid), guard)
      else (Inr (), guard\<lparr>im_head := Some aid\<rparr>))"

definition mem_entries :: "('m, 'n) mem_inner \<Rightarrow> ('m, 'n) agent_node list" where
  "mem_entries guard = List.map_filter (im_nodes guard) (im_order guard)"

text \<open>\<open>json!\<close> unwraps the conversion of the values it is given.\<close>

definition mem_export_dag_json :: "('m, 'n, 'k) ext \<Rightarrow> ('m, 'n) mem_inner \<Rightarrow> 'n json res" where
  "mem_export_dag_json X guard =
     res_bind (map_err (\<lambda>_. Panic ''called `Result::unwrap()` on an `Err` value'')
                 (traverse (node_to_json X) (mem_entries guard))) (\<lambda>nodes.
     Inr (JObject [(''head'', json_of_option JString (im_head guard)), (''nodes'', JArray nodes)]))"

definition mem_nodes :: "('m, 'n) mem_inner \<Rightarrow> ('m, 'n) agent_node list res" where
  "mem_nodes guard = Inr (mem_entries guard)"

definition mem_store :: "('m, 'n, 'k) ext \<Rightarrow> (('m, 'n) mem_inner, 'm, 'n) lineage_store" where
  "mem_store X =
     \<lparr>ls_append = mem_append, ls_get = mem_get, ls_head = mem_head, ls_set_head = mem_set_head,
      ls_export_dag_json = mem_export_dag_json X, ls_nodes = mem_nodes\<rparr>"

lemma mem_store_simps [simp]:
  "ls_append (mem_store X) = mem_append"
  "ls_get (mem_store X) = mem_get"
  "ls_head (mem_store X) = mem_head"
  "ls_set_head (mem_store X) = mem_set_head"
  "ls_export_dag_json (mem_store X) = mem_export_dag_json X"
  "ls_nodes (mem_store X) = mem_nodes"
  by (simp_all add: mem_store_def)


section \<open>The abstract ledger\<close>

abbreviation ids :: "('m, 'n) agent_node list \<Rightarrow> agent_id list" where
  "ids ns \<equiv> map n_agent_id ns"

definition node_at :: "('m, 'n) agent_node list \<Rightarrow> agent_id \<rightharpoonup> ('m, 'n) agent_node" where
  "node_at ns i = find (\<lambda>n. n_agent_id n = i) ns"

lemma node_at_None_iff: "node_at ns i = None \<longleftrightarrow> i \<notin> set (ids ns)"
  by (auto simp: node_at_def find_None_iff)

lemma node_at_Some: "node_at ns i = Some n \<Longrightarrow> n \<in> set ns \<and> n_agent_id n = i"
  unfolding node_at_def by (drule find_Some_set) simp

lemma node_at_append:
  "node_at (ns @ [n]) i =
     (case node_at ns i of Some m \<Rightarrow> Some m | None \<Rightarrow> if n_agent_id n = i then Some n else None)"
  by (induction ns) (simp_all add: node_at_def)

lemma node_at_mem:
  assumes "distinct (ids ns)" and "n \<in> set ns"
  shows "node_at ns (n_agent_id n) = Some n"
proof -
  obtain m where m: "node_at ns (n_agent_id n) = Some m"
    using assms(2) by (cases "node_at ns (n_agent_id n)") (auto simp: node_at_None_iff)
  then have "m \<in> set ns" "n_agent_id m = n_agent_id n"
    by (auto dest: node_at_Some)
  then have "m = n"
    using assms by (auto simp: distinct_map inj_on_def)
  then show ?thesis using m by simp
qed

text \<open>A well-formed inner state: the order lists each key once, keys are ids, the head is a key.\<close>

definition mem_wf :: "('m, 'n) mem_inner \<Rightarrow> bool" where
  "mem_wf g \<longleftrightarrow> distinct (im_order g) \<and> set (im_order g) = dom (im_nodes g) \<and>
     (\<forall>i n. im_nodes g i = Some n \<longrightarrow> n_agent_id n = i) \<and>
     (\<forall>h. im_head g = Some h \<longrightarrow> h \<in> set (im_order g))"

lemma mem_new_wf [simp]: "mem_wf mem_new" "mem_entries mem_new = []" "im_head mem_new = None"
  by (simp_all add: mem_wf_def mem_new_def mem_entries_def List.map_filter_simps)

lemma map_filter_total:
  "(\<And>i. i \<in> set is \<Longrightarrow> \<exists>n. f i = Some n \<and> g n = i) \<Longrightarrow> map g (List.map_filter f is) = is"
proof (induction "is")
  case (Cons i "is")
  then obtain n where "f i = Some n" "g n = i" by force
  then show ?case using Cons by (simp add: List.map_filter_simps)
qed (simp add: List.map_filter_simps)

lemma map_filter_upd_other:
  "i \<notin> set is \<Longrightarrow> List.map_filter (f(i \<mapsto> v)) is = List.map_filter f is"
proof (induction "is")
  case (Cons j "is")
  then show ?case by (cases "f j") (auto simp: List.map_filter_simps)
qed (simp add: List.map_filter_simps)

lemma map_filter_snoc:
  "List.map_filter f (xs @ [x]) = List.map_filter f xs @ (case f x of None \<Rightarrow> [] | Some y \<Rightarrow> [y])"
  by (induction xs) (auto simp: List.map_filter_simps split: option.split)

lemma mem_wf_ids: "mem_wf g \<Longrightarrow> ids (mem_entries g) = im_order g"
  unfolding mem_entries_def by (rule map_filter_total) (auto simp: mem_wf_def)

lemma mem_wf_lookup:
  assumes wf: "mem_wf g"
  shows "im_nodes g i = node_at (mem_entries g) i"
proof (cases "im_nodes g i")
  case None
  then have "i \<notin> set (ids (mem_entries g))"
    using wf mem_wf_ids [OF wf] by (auto simp: mem_wf_def)
  then have "node_at (mem_entries g) i = None" by (simp add: node_at_None_iff)
  then show ?thesis using None by simp
next
  case (Some n)
  then have i: "n_agent_id n = i" and "i \<in> set (im_order g)"
    using wf by (auto simp: mem_wf_def)
  then have "n \<in> set (mem_entries g)"
    using Some by (force simp: mem_entries_def List.map_filter_def)
  moreover have "distinct (ids (mem_entries g))"
    using wf mem_wf_ids [OF wf] by (simp add: mem_wf_def)
  ultimately show ?thesis
    using node_at_mem [of "mem_entries g" n] i Some by simp
qed

definition pushed :: "('m, 'n) agent_node \<Rightarrow> agent_id option \<Rightarrow> agent_id option" where
  "pushed n h = (if n_status n = Promoted then Some (n_agent_id n) else h)"

lemma mem_append_duplicate:
  "im_nodes g (n_agent_id n) \<noteq> None \<Longrightarrow>
   mem_append n g = (Inl (LedgerError (''duplicate agent_id '' @ n_agent_id n)), g)"
  by (simp add: mem_append_def Let_def)

lemma mem_append_fresh:
  assumes wf: "mem_wf g" and fresh: "im_nodes g (n_agent_id n) = None"
  obtains g' where "mem_append n g = (Inr (), g')" and "mem_wf g'"
    and "mem_entries g' = mem_entries g @ [n]" and "im_head g' = pushed n (im_head g)"
proof -
  let ?g = "g\<lparr>im_order := im_order g @ [n_agent_id n],
              im_nodes := (im_nodes g)(n_agent_id n \<mapsto> n), im_head := pushed n (im_head g)\<rparr>"
  have new: "n_agent_id n \<notin> set (im_order g)"
    using wf fresh by (auto simp: mem_wf_def)
  have "mem_append n g = (Inr (), ?g)"
    using fresh by (simp add: mem_append_def pushed_def Let_def)
  moreover have "mem_wf ?g"
    using wf new by (auto simp: mem_wf_def pushed_def)
  moreover have "mem_entries ?g = mem_entries g @ [n]"
    using new by (simp add: mem_entries_def map_filter_snoc map_filter_upd_other)
  ultimately show ?thesis by (rule that) simp
qed


section \<open>What the runner expects of a store\<close>

locale lineage_contract =
  fixes S :: "('s, 'm, 'n) lineage_store"
    and inv :: "'s \<Rightarrow> bool"
    and entries :: "'s \<Rightarrow> ('m, 'n) agent_node list"
    and hd_of :: "'s \<Rightarrow> agent_id option"
  assumes distinct_ids: "inv s \<Longrightarrow> distinct (ids (entries s))"
    and head_mem: "inv s \<Longrightarrow> hd_of s = Some h \<Longrightarrow> h \<in> set (ids (entries s))"
    and append_ok: "inv s \<Longrightarrow> ls_append S n s = (Inr (), s') \<Longrightarrow>
          inv s' \<and> entries s' = entries s @ [n] \<and> hd_of s' = pushed n (hd_of s)"
    and append_err: "inv s \<Longrightarrow> ls_append S n s = (Inl e, s') \<Longrightarrow>
          inv s' \<and> entries s' = entries s \<and> hd_of s' = hd_of s"
    and append_dup: "inv s \<Longrightarrow> n_agent_id n \<in> set (ids (entries s)) \<Longrightarrow>
          \<exists>e. ls_append S n s = (Inl e, s)"
    and get_eq: "inv s \<Longrightarrow> ls_get S i s = ok_or (NotFound i) (node_at (entries s) i)"
    and head_eq: "inv s \<Longrightarrow> ls_head S s = Inr (hd_of s)"
    and set_head_ok: "inv s \<Longrightarrow> i \<in> set (ids (entries s)) \<Longrightarrow>
          \<exists>s'. ls_set_head S i s = (Inr (), s') \<and> inv s' \<and> entries s' = entries s \<and> hd_of s' = Some i"
    and set_head_err: "inv s \<Longrightarrow> i \<notin> set (ids (entries s)) \<Longrightarrow>
          ls_set_head S i s = (Inl (NotFound i), s)"
    and nodes_eq: "inv s \<Longrightarrow> ls_nodes S s = Inr (entries s)"
begin

lemma append_fresh: "inv s \<Longrightarrow> ls_append S n s = (Inr (), s') \<Longrightarrow> n_agent_id n \<notin> set (ids (entries s))"
  using append_dup [of s n] by fastforce

lemma append_entries:
  assumes "inv s" and "ls_append S n s = (r, s')"
  shows "inv s' \<and> (\<exists>new. entries s' = entries s @ new \<and> set new \<subseteq> {n})"
  using assms append_ok [of s n s'] append_err [of s n _ s'] by (cases r) auto

lemma get_mem: "inv s \<Longrightarrow> ls_get S i s = Inr n \<longleftrightarrow> n \<in> set (entries s) \<and> n_agent_id n = i"
  using node_at_mem [OF distinct_ids, of s n] node_at_Some [of "entries s" i n]
  by (auto simp: get_eq ok_or_Inr_iff)

lemma get_after_append:
  assumes "inv s" and "ls_append S n s = (Inr (), s')"
  shows "ls_get S i s' = (if i = n_agent_id n then Inr n else ls_get S i s)"
proof -
  have "node_at (entries s) (n_agent_id n) = None"
    using append_fresh [OF assms] by (simp add: node_at_None_iff)
  then show ?thesis
    using append_ok [OF assms] assms(1) by (auto simp: get_eq node_at_append split: option.split)
qed

end

lemma mem_contract:
  "lineage_contract (mem_store X) mem_wf mem_entries im_head"
proof
  fix s :: "('a, 'b) mem_inner" and n s' e i h
  show "distinct (ids (mem_entries s))" if "mem_wf s"
    using that mem_wf_ids [OF that] by (simp add: mem_wf_def)
  show "h \<in> set (ids (mem_entries s))" if "mem_wf s" "im_head s = Some h"
    using that by (simp only: mem_wf_ids [OF that(1)] mem_wf_def) blast
  show "mem_wf s' \<and> mem_entries s' = mem_entries s @ [n] \<and> im_head s' = pushed n (im_head s)"
    if "mem_wf s" "ls_append (mem_store X) n s = (Inr (), s')"
  proof (cases "im_nodes s (n_agent_id n)")
    case None
    from mem_append_fresh [OF that(1) None] show ?thesis using that(2) by (metis mem_store_simps(1) prod.inject)
  next
    case Some
    then show ?thesis using that(2) mem_append_duplicate [of s n] by simp
  qed
  show "mem_wf s' \<and> mem_entries s' = mem_entries s \<and> im_head s' = im_head s"
    if "mem_wf s" "ls_append (mem_store X) n s = (Inl e, s')"
    using that by (auto simp: mem_append_def Let_def split: if_splits)
  show "\<exists>e. ls_append (mem_store X) n s = (Inl e, s)"
    if "mem_wf s" "n_agent_id n \<in> set (ids (mem_entries s))"
  proof -
    have "im_nodes s (n_agent_id n) \<noteq> None"
      using that(2) by (simp only: mem_wf_lookup [OF that(1)] node_at_None_iff simp_thms)
    then show ?thesis by (simp add: mem_append_duplicate)
  qed
  show "ls_get (mem_store X) i s = ok_or (NotFound i) (node_at (mem_entries s) i)" if "mem_wf s"
    by (simp add: mem_get_def mem_wf_lookup [OF that])
  show "ls_head (mem_store X) s = Inr (im_head s)"
    by (simp add: mem_head_def)
  show "\<exists>s'. ls_set_head (mem_store X) i s = (Inr (), s') \<and> mem_wf s' \<and>
          mem_entries s' = mem_entries s \<and> im_head s' = Some i"
    if "mem_wf s" "i \<in> set (ids (mem_entries s))"
  proof -
    have i: "i \<in> set (im_order s)" using that mem_wf_ids by metis
    then have "im_nodes s i \<noteq> None" using that(1) by (auto simp: mem_wf_def)
    then show ?thesis using that(1) i by (auto simp: mem_set_head_def mem_wf_def mem_entries_def)
  qed
  show "ls_set_head (mem_store X) i s = (Inl (NotFound i), s)"
    if "mem_wf s" "i \<notin> set (ids (mem_entries s))"
  proof -
    have "im_nodes s i = None"
      using that(2) by (simp only: mem_wf_lookup [OF that(1)] node_at_None_iff simp_thms)
    then show ?thesis by (simp add: mem_set_head_def)
  qed
  show "ls_nodes (mem_store X) s = Inr (mem_entries s)"
    by (simp add: mem_nodes_def)
qed

interpretation mem: lineage_contract "mem_store X" mem_wf mem_entries im_head
  by (rule mem_contract)


section \<open>The default node listing\<close>

lemma traverse_to_json:
  assumes "manifest_laws X"
  obtains js where "traverse (node_to_json X) ns = Inr js" and "list_all2 (\<lambda>n j. node_to_json X n = Inr j) ns js"
proof (induction ns arbitrary: thesis)
  case Nil
  then show ?case by simp
next
  case (Cons n ns)
  obtain js where "traverse (node_to_json X) ns = Inr js" "list_all2 (\<lambda>n j. node_to_json X n = Inr j) ns js"
    using Cons.IH by blast
  moreover obtain j where "node_to_json X n = Inr j"
    using node_to_json_total [OF assms] by blast
  ultimately show ?case using Cons.prems [of "j # js"] by simp
qed

lemma traverse_from_json:
  assumes "json_num_laws X" and "manifest_laws X" and "list_all2 (\<lambda>n j. node_to_json X n = Inr j) ns js"
  shows "traverse (node_from_json X) js = Inr (map reload ns)"
  using assms(3) by (induction rule: list_all2_induct) (simp_all add: node_reload [OF assms(1,2)])

lemma default_nodes_export:
  assumes "json_num_laws X" and "manifest_laws X"
  shows "default_nodes X (mem_export_dag_json X) g = Inr (map reload (mem_entries g))"
proof -
  obtain js where js: "traverse (node_to_json X) (mem_entries g) = Inr js"
      "list_all2 (\<lambda>n j. node_to_json X n = Inr j) (mem_entries g) js"
    using traverse_to_json [OF assms(2)] by blast
  then show ?thesis
    using traverse_from_json [OF assms js(2)]
    by (simp add: default_nodes_def mem_export_dag_json_def)
qed

end
