(* ===== verification/Veh_Selector.thy ===== *)
theory Veh_Selector
  imports Veh_Ledger
begin

text \<open>
  \<^verbatim>\<open>src/selector.rs\<close>: the parent-selection strategies. A selector reads a store and answers an id.
  The hash function behind \<open>DefaultHasher\<close>, whose algorithm the standard library leaves open, and
  the clock are the record \<open>entropy\<close>; \<open>usize\<close> has 64 bits. The locale \<open>parent_selector\<close> is what a
  driver expects of a strategy: a selected id belongs to a valid parent, and there is one whenever
  the ledger has a valid parent. All five strategies are shown to provide it.
\<close>

section \<open>The trait\<close>

datatype hash_item = Hash_U64 u64 | Hash_U128 "128 word" | Hash_Str string

record entropy =
  en_hash :: "hash_item list \<Rightarrow> u64"            \<comment> \<open>a fresh \<open>DefaultHasher\<close> over the items\<close>
  en_since_epoch :: "128 word option"          \<comment> \<open>nanoseconds since the epoch, if the clock is past it\<close>

type_synonym ('s, 'm, 'n) selector = "('s, 'm, 'n) lineage_store \<Rightarrow> 's \<Rightarrow> agent_id res"

definition score_of :: "('m, 'n, 'k) ext \<Rightarrow> ('m, 'n) agent_node \<Rightarrow> f64" where
  "score_of X node =
     (case Option.bind (Option.bind (n_eval_results node) (j_get ''score'')) (j_as_f64 X) of
        None \<Rightarrow> 0
      | Some s \<Rightarrow> s)"

abbreviation no_parent :: veh_error where
  "no_parent \<equiv> LedgerError ''no valid parent nodes in ledger''"


section \<open>Latest and best\<close>

definition latest_select :: "('s, 'm, 'n) selector" where
  "latest_select store s =
     res_bind (ls_nodes store s) (\<lambda>nodes.
     ok_or no_parent (map_option n_agent_id (find n_valid_parent (rev nodes))))"

text \<open>The running best; an equal score does not replace it.\<close>

fun best_loop ::
  "('m, 'n, 'k) ext \<Rightarrow> (f64 \<times> agent_id) option \<Rightarrow> ('m, 'n) agent_node list \<Rightarrow> (f64 \<times> agent_id) option" where
  "best_loop X best [] = best"
| "best_loop X best (node # nodes) =
     (if \<not> n_valid_parent node then best_loop X best nodes
      else
        let score = score_of X node in
        best_loop X
          (case best of
             Some (b, i) \<Rightarrow> if score \<le> b then Some (b, i) else Some (score, n_agent_id node)
           | None \<Rightarrow> Some (score, n_agent_id node)) nodes)"

definition best_select :: "('m, 'n, 'k) ext \<Rightarrow> ('s, 'm, 'n) selector" where
  "best_select X store s =
     res_bind (ls_nodes store s) (\<lambda>nodes.
     ok_or no_parent (map_option snd (best_loop X None nodes)))"


section \<open>Uniform sampling\<close>

definition nanos :: "entropy \<Rightarrow> 128 word" where
  "nanos E = (case en_since_epoch E of None \<Rightarrow> 0 | Some t \<Rightarrow> t)"

definition random_index :: "entropy \<Rightarrow> u64 option \<Rightarrow> ('m, 'n) agent_node list \<Rightarrow> nat" where
  "random_index E seed valid =
     (case seed of
        Some seed \<Rightarrow> unat seed mod length valid
      | None \<Rightarrow>
          unat (en_hash E (map (\<lambda>n. Hash_Str (n_agent_id n)) valid @ [Hash_U128 (nanos E)]))
            mod length valid)"

definition random_select :: "entropy \<Rightarrow> u64 option \<Rightarrow> ('s, 'm, 'n) selector" where
  "random_select E seed store s =
     res_bind (ls_nodes store s) (\<lambda>nodes.
     let valid = filter n_valid_parent nodes in
     if valid = [] then Inl no_parent
     else
       let idx = random_index E seed valid in
       ok_or (LedgerError ''random index out of bounds'')
         (if idx < length valid then Some (n_agent_id (valid ! idx)) else None))"


section \<open>Weighted sampling\<close>

definition f64_neg_zero :: f64 where
  "f64_neg_zero = F64 0x8000000000000000"

text \<open>\<open>sum\<close> over floats starts from negative zero.\<close>

definition f64_sum :: "f64 list \<Rightarrow> f64" where
  "f64_sum ws = foldl (+) f64_neg_zero ws"

definition pseudo_unit :: "entropy \<Rightarrow> u64 option \<Rightarrow> (f64 \<times> agent_id) list \<Rightarrow> f64" where
  "pseudo_unit E seed weighted =
     (let first = (case seed of Some s \<Rightarrow> Hash_U64 s | None \<Rightarrow> Hash_U128 (nanos E));
          v = en_hash E (first # map (\<lambda>(_, i). Hash_Str i) weighted)
      in f64_of_nat (unat v) div f64_of_nat (2 ^ 64 - 1))"

fun choice_loop :: "f64 \<Rightarrow> f64 \<Rightarrow> (f64 \<times> agent_id) list \<Rightarrow> agent_id option" where
  "choice_loop r acc [] = None"
| "choice_loop r acc ((w, i) # weighted) =
     (let acc = acc + w in if r \<le> acc then Some i else choice_loop r acc weighted)"

definition last_id :: "(f64 \<times> agent_id) list \<Rightarrow> agent_id option" where
  "last_id weighted = (case rev weighted of [] \<Rightarrow> None | (_, i) # _ \<Rightarrow> Some i)"

definition weighted_choice :: "entropy \<Rightarrow> (f64 \<times> agent_id) list \<Rightarrow> u64 option \<Rightarrow> agent_id res" where
  "weighted_choice E weighted seed =
     (if weighted = [] then Inl no_parent
      else
        let total = f64_sum (map fst weighted) in
        if total \<le> 0 then ok_or (LedgerError ''weighted_choice empty fallback'') (last_id weighted)
        else
          case choice_loop (pseudo_unit E seed weighted * total) 0 weighted of
            Some i \<Rightarrow> Inr i
          | None \<Rightarrow> ok_or (LedgerError ''weighted_choice exhausted'') (last_id weighted))"

definition score_weights :: "('m, 'n, 'k) ext \<Rightarrow> ('m, 'n) agent_node list \<Rightarrow> (f64 \<times> agent_id) list" where
  "score_weights X nodes =
     map (\<lambda>n. (f64_max (score_of X n) 0, n_agent_id n)) (filter n_valid_parent nodes)"

definition score_prop_select ::
  "('m, 'n, 'k) ext \<Rightarrow> entropy \<Rightarrow> u64 option \<Rightarrow> ('s, 'm, 'n) selector" where
  "score_prop_select X E seed store s =
     res_bind (ls_nodes store s) (\<lambda>nodes. weighted_choice E (score_weights X nodes) seed)"

text \<open>Children per parent id; each increment is checked or wraps, as the build profile says.\<close>

fun count_children ::
  "('m, 'n, 'k) ext \<Rightarrow> (agent_id \<rightharpoonup> u32) \<Rightarrow> ('m, 'n) agent_node list \<Rightarrow> (agent_id \<rightharpoonup> u32) res" where
  "count_children X counts [] = Inr counts"
| "count_children X counts (n # nodes) =
     (case n_parent_id n of
        None \<Rightarrow> count_children X counts nodes
      | Some parent \<Rightarrow>
          res_bind (u32_succ X (case counts parent of None \<Rightarrow> 0 | Some c \<Rightarrow> c)) (\<lambda>c.
          count_children X (counts(parent \<mapsto> c)) nodes))"

definition child_weights ::
  "('m, 'n, 'k) ext \<Rightarrow> (agent_id \<rightharpoonup> u32) \<Rightarrow> ('m, 'n) agent_node list \<Rightarrow> (f64 \<times> agent_id) list" where
  "child_weights X counts nodes =
     map (\<lambda>n.
       let children = (case counts (n_agent_id n) of None \<Rightarrow> 0 | Some c \<Rightarrow> c);
           score = f64_max (score_of X n) 0
       in (score div (1 + f64_of_nat (unat children)), n_agent_id n))
     (filter n_valid_parent nodes)"

definition score_child_prop_select ::
  "('m, 'n, 'k) ext \<Rightarrow> entropy \<Rightarrow> u64 option \<Rightarrow> ('s, 'm, 'n) selector" where
  "score_child_prop_select X E seed store s =
     res_bind (ls_nodes store s) (\<lambda>nodes.
     res_bind (count_children X Map.empty nodes) (\<lambda>counts.
     weighted_choice E (child_weights X counts nodes) seed))"


section \<open>What a driver expects of a strategy\<close>

text \<open>
  The ledgers have fewer than \<open>2 ^ 32\<close> nodes: beyond that a child count may overflow.
\<close>

definition valid_ids :: "('m, 'n) agent_node list \<Rightarrow> agent_id set" where
  "valid_ids ns = {n_agent_id n |n. n \<in> set ns \<and> n_valid_parent n}"

lemma valid_ids_filter: "valid_ids ns = n_agent_id ` set (filter n_valid_parent ns)"
  by (auto simp: valid_ids_def)

text \<open>The promise of the trait: nothing but valid parents of the ledger it is given.\<close>

locale valid_picker =
  fixes select :: "('s, 'm, 'n) selector"
  assumes picks: "ls_nodes S s = Inr ns \<Longrightarrow> select S s = Inr i \<Longrightarrow> i \<in> valid_ids ns"

text \<open>The built-in strategies also find one whenever there is one.\<close>

locale parent_selector = valid_picker select
  for select :: "('s, 'm, 'n) selector" +
  assumes finds: "ls_nodes S s = Inr ns \<Longrightarrow> length ns < 2 ^ 32 \<Longrightarrow> valid_ids ns \<noteq> {} \<Longrightarrow>
          \<exists>i. select S s = Inr i"
    and unreadable: "ls_nodes S s = Inl e \<Longrightarrow> select S s = Inl e"
begin

lemma select_error:
  "ls_nodes S s = Inr ns \<Longrightarrow> valid_ids ns = {} \<Longrightarrow> \<exists>e. select S s = Inl e"
  using picks [of S s ns] by (cases "select S s") auto

lemma select_iff:
  assumes "ls_nodes S s = Inr ns" and "length ns < 2 ^ 32"
  shows "(\<exists>i. select S s = Inr i) \<longleftrightarrow> valid_ids ns \<noteq> {}"
  using picks [OF assms(1)] finds [OF assms] by blast

end

text \<open>On a store that meets its contract, what a strategy selects can be fetched as a valid parent.\<close>

locale evolution_store = lineage_contract S inv entries hd_of + valid_picker select
  for S :: "('s, 'm, 'n) lineage_store" and inv entries hd_of
    and select :: "('s, 'm, 'n) selector"
begin

lemma selected_parent:
  assumes "inv s" and "select S s = Inr i"
  obtains n where "ls_get S i s = Inr n" and "n \<in> set (entries s)" and "n_valid_parent n"
    and "n_agent_id n = i"
proof -
  have "i \<in> valid_ids (entries s)"
    by (rule picks [OF nodes_eq [OF assms(1)] assms(2)])
  then obtain n where n: "n \<in> set (entries s)" "n_valid_parent n" "n_agent_id n = i"
    by (auto simp: valid_ids_def)
  then show thesis
    using get_mem [OF assms(1), of i n] by (intro that) simp_all
qed

end


section \<open>The strategies meet it\<close>

interpretation latest: parent_selector latest_select
proof
  fix S :: "('a, 'b, 'c) lineage_store" and s ns i e
  show "i \<in> valid_ids ns" if "ls_nodes S s = Inr ns" "latest_select S s = Inr i"
    using that find_Some_set [of n_valid_parent "rev ns"]
    by (auto simp: latest_select_def ok_or_Inr_iff valid_ids_def)
  show "\<exists>i. latest_select S s = Inr i" if "ls_nodes S s = Inr ns" "length ns < 2 ^ 32" "valid_ids ns \<noteq> {}"
  proof -
    have "find n_valid_parent (rev ns) \<noteq> None"
      unfolding find_None_set using that(3) by (auto simp: valid_ids_def)
    then show ?thesis using that(1) by (auto simp: latest_select_def)
  qed
qed (simp add: latest_select_def)

lemma best_loop_mem:
  "best_loop X best ns = Some (b, i) \<Longrightarrow> i \<in> valid_ids ns \<or> best = Some (b, i)"
proof (induction ns arbitrary: best)
  case (Cons n ns)
  show ?case
  proof (cases "n_valid_parent n")
    case False
    then show ?thesis using Cons by (fastforce simp: valid_ids_def)
  next
    case True
    let ?b = "case best of Some (b, i) \<Rightarrow> if score_of X n \<le> b then Some (b, i) else Some (score_of X n, n_agent_id n)
        | None \<Rightarrow> Some (score_of X n, n_agent_id n)"
    have "?b = best \<or> ?b = Some (score_of X n, n_agent_id n)"
      by (auto split: option.split)
    moreover have "i \<in> valid_ids ns \<or> ?b = Some (b, i)"
      using Cons True by (simp add: Let_def)
    ultimately show ?thesis using True by (auto simp: valid_ids_def)
  qed
qed simp

lemma best_loop_Some: "best \<noteq> None \<or> valid_ids ns \<noteq> {} \<Longrightarrow> best_loop X best ns \<noteq> None"
proof (induction ns arbitrary: best)
  case (Cons n ns)
  show ?case
  proof (cases "n_valid_parent n")
    case False
    then have "valid_ids (n # ns) = valid_ids ns" by (auto simp: valid_ids_def)
    then show ?thesis using False Cons by simp
  next
    case True
    then show ?thesis using Cons.IH by (simp add: Let_def split: option.split)
  qed
qed (simp add: valid_ids_def)

interpretation best: parent_selector "best_select X"
proof
  fix S :: "('d, 'a, 'b) lineage_store" and s ns i e
  show "i \<in> valid_ids ns" if "ls_nodes S s = Inr ns" "best_select X S s = Inr i"
    using that best_loop_mem [of X None ns] by (auto simp: best_select_def ok_or_Inr_iff)
  show "\<exists>i. best_select X S s = Inr i" if "ls_nodes S s = Inr ns" "length ns < 2 ^ 32" "valid_ids ns \<noteq> {}"
    using that best_loop_Some [of None ns X] by (auto simp: best_select_def)
qed (simp add: best_select_def)

lemma random_index_lt: "valid \<noteq> [] \<Longrightarrow> random_index E seed valid < length valid"
  by (simp add: random_index_def split: option.split)

interpretation random: parent_selector "random_select E seed"
proof
  fix S :: "('a, 'b, 'c) lineage_store" and s i e and ns :: "('b, 'c) agent_node list"
  let ?v = "filter n_valid_parent ns"
  have eq: "random_select E seed S s = Inr (n_agent_id (?v ! random_index E seed ?v))"
    if "ls_nodes S s = Inr ns" "?v \<noteq> []"
    using that random_index_lt [OF that(2), of E seed] by (simp add: random_select_def Let_def)
  show "i \<in> valid_ids ns" if "ls_nodes S s = Inr ns" "random_select E seed S s = Inr i"
  proof (cases "?v = []")
    case True
    then show ?thesis using that by (simp add: random_select_def)
  next
    case False
    then have "i = n_agent_id (?v ! random_index E seed ?v)" "?v ! random_index E seed ?v \<in> set ?v"
      using eq [OF that(1)] that(2) random_index_lt [OF False, of E seed] by (simp, intro nth_mem)
    then show ?thesis unfolding valid_ids_filter by blast
  qed
  show "\<exists>i. random_select E seed S s = Inr i"
    if "ls_nodes S s = Inr ns" "length ns < 2 ^ 32" "valid_ids ns \<noteq> {}"
  proof -
    have "?v \<noteq> []" using that(3) unfolding valid_ids_filter by fastforce
    from eq [OF that(1) this] show ?thesis ..
  qed
qed (simp add: random_select_def)

lemma choice_loop_mem: "choice_loop r acc ws = Some i \<Longrightarrow> i \<in> snd ` set ws"
  by (induction r acc ws rule: choice_loop.induct) (auto simp: Let_def split: if_splits)

lemma last_id_mem: "ws \<noteq> [] \<Longrightarrow> \<exists>i. last_id ws = Some i \<and> i \<in> snd ` set ws"
  by (cases ws rule: rev_cases) (force simp: last_id_def)+

lemma weighted_choice_Inr: "weighted_choice E ws seed = Inr i \<Longrightarrow> i \<in> snd ` set ws"
  using last_id_mem [of ws] choice_loop_mem
  by (auto simp: weighted_choice_def Let_def split: if_splits option.splits)

lemma weighted_choice_total: "ws \<noteq> [] \<Longrightarrow> \<exists>i. weighted_choice E ws seed = Inr i"
  using last_id_mem [of ws] by (auto simp: weighted_choice_def Let_def split: option.split)

lemma snd_score_weights: "snd ` set (score_weights X ns) = valid_ids ns"
  by (force simp: score_weights_def valid_ids_def)

lemma snd_child_weights: "snd ` set (child_weights X c ns) = valid_ids ns"
  by (force simp: child_weights_def valid_ids_def Let_def)

interpretation score_prop: parent_selector "score_prop_select X E seed"
proof
  fix S :: "('d, 'a, 'b) lineage_store" and s ns i e
  show "i \<in> valid_ids ns" if "ls_nodes S s = Inr ns" "score_prop_select X E seed S s = Inr i"
    using that weighted_choice_Inr [of E "score_weights X ns" seed i]
    by (simp add: score_prop_select_def snd_score_weights)
  show "\<exists>i. score_prop_select X E seed S s = Inr i"
    if "ls_nodes S s = Inr ns" "length ns < 2 ^ 32" "valid_ids ns \<noteq> {}"
  proof -
    have "score_weights X ns \<noteq> []"
      using that(3) snd_score_weights [of X ns] by auto
    then show ?thesis
      using that(1) weighted_choice_total [of "score_weights X ns" E seed]
      by (simp add: score_prop_select_def)
  qed
qed (simp add: score_prop_select_def)

text \<open>With fewer than \<open>2 ^ 32\<close> nodes the counts are exact.\<close>

lemma count_children_exact:
  assumes "\<forall>p. unat (case counts p of None \<Rightarrow> 0 | Some c \<Rightarrow> c) + length ns < 2 ^ 32"
  shows "\<exists>counts'. count_children X counts ns = Inr counts' \<and>
     (\<forall>p. unat (case counts' p of None \<Rightarrow> 0 | Some c \<Rightarrow> c) =
        unat (case counts p of None \<Rightarrow> 0 | Some c \<Rightarrow> c) + length (filter (\<lambda>n. n_parent_id n = Some p) ns))"
  using assms
proof (induction ns arbitrary: counts)
  case (Cons n ns)
  show ?case
  proof (cases "n_parent_id n")
    case None
    have "\<forall>p. unat (case counts p of None \<Rightarrow> 0 | Some c \<Rightarrow> c) + length ns < 2 ^ 32"
      using Cons.prems by (metis add_lessD1 add_Suc_right length_Cons less_Suc_eq_le Suc_lessD)
    from Cons.IH [OF this] show ?thesis using None by simp
  next
    case (Some q)
    define c where "c = (case counts q of None \<Rightarrow> 0 | Some c \<Rightarrow> c)"
    have lt: "unat c + Suc (length ns) < 2 ^ 32"
      using Cons.prems [THEN spec, of q] by (simp add: c_def)
    then have "c \<noteq> - 1"
      by (auto simp: unsigned_minus_1_eq_mask mask_eq_exp_minus_1)
    then have succ: "u32_succ X c = Inr (c + 1)" and un: "unat (c + 1) = Suc (unat c)"
      by (simp_all add: u32_succ_below unat_plus_one)
    let ?counts = "counts(q \<mapsto> c + 1)"
    have "unat (case ?counts p of None \<Rightarrow> 0 | Some c \<Rightarrow> c) + length ns < 2 ^ 32" for p
      using Cons.prems [THEN spec, of p] lt un by (cases "p = q") simp_all
    then obtain counts' where c': "count_children X ?counts ns = Inr counts'"
        "\<forall>p. unat (case counts' p of None \<Rightarrow> 0 | Some c \<Rightarrow> c) =
          unat (case ?counts p of None \<Rightarrow> 0 | Some c \<Rightarrow> c) + length (filter (\<lambda>n. n_parent_id n = Some p) ns)"
      using Cons.IH [of ?counts] by blast
    have "count_children X counts (n # ns) = Inr counts'"
      using Some succ c'(1) by (simp add: c_def)
    moreover have "unat (case counts' p of None \<Rightarrow> 0 | Some c \<Rightarrow> c) =
          unat (case counts p of None \<Rightarrow> 0 | Some c \<Rightarrow> c) +
          length (filter (\<lambda>n. n_parent_id n = Some p) (n # ns))" for p
      using c'(2) [THEN spec, of p] Some un by (cases "p = q") (simp_all add: c_def)
    ultimately show ?thesis by blast
  qed
qed simp

lemma count_children_total:
  assumes "length ns < 2 ^ 32"
  obtains counts where "count_children X Map.empty ns = Inr counts"
    and "\<And>p. unat (case counts p of None \<Rightarrow> 0 | Some c \<Rightarrow> c) = length (filter (\<lambda>n. n_parent_id n = Some p) ns)"
  using count_children_exact [of Map.empty ns X] assms by auto

interpretation score_child_prop: parent_selector "score_child_prop_select X E seed"
proof
  fix S :: "('d, 'a, 'b) lineage_store" and s ns i e
  show "i \<in> valid_ids ns" if "ls_nodes S s = Inr ns" "score_child_prop_select X E seed S s = Inr i"
  proof -
    from that obtain counts where "weighted_choice E (child_weights X counts ns) seed = Inr i"
      by (auto simp: score_child_prop_select_def res_bind_Inr_iff)
    then show ?thesis
      using weighted_choice_Inr snd_child_weights [of X counts ns] by blast
  qed
  show "\<exists>i. score_child_prop_select X E seed S s = Inr i"
    if "ls_nodes S s = Inr ns" "length ns < 2 ^ 32" "valid_ids ns \<noteq> {}"
  proof -
    from that(2) obtain counts where "count_children X Map.empty ns = Inr counts"
      by (rule count_children_total)
    moreover have "child_weights X counts ns \<noteq> []"
      using that(3) snd_child_weights [of X counts ns] by auto
    ultimately show ?thesis
      using that(1) weighted_choice_total [of "child_weights X counts ns" E seed]
      by (simp add: score_child_prop_select_def)
  qed
qed (simp add: score_child_prop_select_def)


text \<open>Every strategy over the in-memory store.\<close>

interpretation mem_latest: evolution_store "mem_store X" mem_wf mem_entries im_head latest_select
  by (intro evolution_store.intro mem_contract latest.valid_picker_axioms)

interpretation mem_best: evolution_store "mem_store X" mem_wf mem_entries im_head "best_select X"
  by (intro evolution_store.intro mem_contract best.valid_picker_axioms)

interpretation mem_random: evolution_store "mem_store X" mem_wf mem_entries im_head "random_select E seed"
  by (intro evolution_store.intro mem_contract random.valid_picker_axioms)

interpretation mem_score_prop:
  evolution_store "mem_store X" mem_wf mem_entries im_head "score_prop_select X E seed"
  by (intro evolution_store.intro mem_contract score_prop.valid_picker_axioms)

interpretation mem_score_child_prop:
  evolution_store "mem_store X" mem_wf mem_entries im_head "score_child_prop_select X E seed"
  by (intro evolution_store.intro mem_contract score_child_prop.valid_picker_axioms)


section \<open>Scores and sums\<close>

lemma f64_zero_finite [simp]: "f64_is_finite 0"
  by (simp add: f64_eval)

lemma score_of_finite: "json_num_laws X \<Longrightarrow> f64_is_finite (score_of X n)"
  by (auto simp: score_of_def bind_eq_Some_conv split: option.split dest: j_as_f64_finite)

lemma score_of_not_nan: "json_num_laws X \<Longrightarrow> \<not> f64_is_nan (score_of X n)"
  by (rule f64_finite_not_nan [OF score_of_finite])

lemma not_nan_linear: "\<not> f64_is_nan x \<Longrightarrow> \<not> f64_is_nan y \<Longrightarrow> x \<le> y \<or> (y :: f64) \<le> x"
  by (auto simp: less_eq_f64_def)

text \<open>The running best is the first maximum seen so far.\<close>

definition first_max ::
  "('m, 'n, 'k) ext \<Rightarrow> ('m, 'n) agent_node list \<Rightarrow> (f64 \<times> agent_id) option \<Rightarrow> bool" where
  "first_max X ns best \<longleftrightarrow>
     (case best of
        None \<Rightarrow> \<forall>n \<in> set ns. \<not> n_valid_parent n
      | Some (b, i) \<Rightarrow> \<exists>pre n post. ns = pre @ n # post \<and> n_valid_parent n \<and> n_agent_id n = i \<and>
          b = score_of X n \<and>
          (\<forall>m \<in> set pre. n_valid_parent m \<longrightarrow> score_of X m < b) \<and>
          (\<forall>m \<in> set post. n_valid_parent m \<longrightarrow> score_of X m \<le> b))"

lemma first_max_skip: "first_max X ns best \<Longrightarrow> \<not> n_valid_parent n \<Longrightarrow> first_max X (ns @ [n]) best"
  unfolding first_max_def by (fastforce split: option.splits)

lemma first_max_keep:
  assumes "first_max X ns (Some (b, i))" and "score_of X n \<le> b"
  shows "first_max X (ns @ [n]) (Some (b, i))"
proof -
  obtain pre m post where "ns = pre @ m # post" "n_valid_parent m" "n_agent_id m = i" "b = score_of X m"
      "\<forall>k \<in> set pre. n_valid_parent k \<longrightarrow> score_of X k < b" "\<forall>k \<in> set post. n_valid_parent k \<longrightarrow> score_of X k \<le> b"
    using assms(1) by (auto simp: first_max_def)
  then show ?thesis
    using assms(2) unfolding first_max_def option.case prod.case
    by (intro exI [of _ pre] exI [of _ m] exI [of _ "post @ [n]"]) auto
qed

lemma first_max_replace:
  assumes laws: "json_num_laws X" and best: "first_max X ns best" and valid: "n_valid_parent n"
    and gt: "\<And>b i. best = Some (b, i) \<Longrightarrow> \<not> score_of X n \<le> b"
  shows "first_max X (ns @ [n]) (Some (score_of X n, n_agent_id n))"
proof -
  have "score_of X m < score_of X n" if "m \<in> set ns" "n_valid_parent m" for m
  proof (cases best)
    case None
    then show ?thesis using best that by (auto simp: first_max_def)
  next
    case (Some p)
    obtain b i where p: "p = (b, i)" by force
    have mb: "score_of X m \<le> b \<and> \<not> f64_is_nan b"
      using best Some p that score_of_not_nan [OF laws]
      by (fastforce simp: first_max_def less_eq_f64_def less_f64_def)
    have "\<not> score_of X n \<le> b" using gt Some p by blast
    then show ?thesis
      using mb score_of_not_nan [OF laws] by (auto simp: less_eq_f64_def less_f64_def)
  qed
  then show ?thesis
    using valid unfolding first_max_def option.case prod.case
    by (intro exI [of _ ns] exI [of _ n] exI [of _ "[]"]) auto
qed

lemma best_loop_first_max:
  assumes "json_num_laws X"
  shows "first_max X done best \<Longrightarrow> first_max X (done @ ns) (best_loop X best ns)"
proof (induction ns arbitrary: "done" best)
  case (Cons n ns)
  show ?case
  proof (cases "n_valid_parent n")
    case False
    then show ?thesis
      using Cons.IH [OF first_max_skip [OF Cons.prems False]] by simp
  next
    case True
    let ?new = "Some (score_of X n, n_agent_id n)"
    have "first_max X (done @ [n]) (case best of
        Some (b, i) \<Rightarrow> if score_of X n \<le> b then Some (b, i) else ?new | None \<Rightarrow> ?new)"
      using first_max_keep [of X "done" _ _ n] first_max_replace [OF assms Cons.prems True] Cons.prems
      by (auto split: option.split)
    from Cons.IH [OF this] show ?thesis using True by (simp add: Let_def)
  qed
qed simp

text \<open>Adding a zero changes no comparison.\<close>

lemma bit_len_double_pow: "0 < n \<Longrightarrow> bit_len (n * 2 ^ j) = bit_len n + j"
proof (induction j)
  case (Suc j)
  then show ?case by (subst bit_len.simps) (simp add: mult.assoc)
qed simp

lemma bit_len_le: "n < 2 ^ k \<Longrightarrow> bit_len n \<le> k"
proof (induction k arbitrary: n)
  case (Suc k)
  then show ?case
    by (cases "n = 0") (simp_all add: bit_len.simps [of n] bit_len_numeral(1))
qed (simp add: bit_len.simps)

lemma bit_len_ge: "2 ^ k \<le> n \<Longrightarrow> Suc k \<le> bit_len n"
proof (induction k arbitrary: n)
  case 0
  then show ?case by (simp add: bit_len.simps [of n])
next
  case (Suc k)
  then have "2 ^ k \<le> n div 2" and "n \<noteq> 0" by (simp, intro notI, simp)
  then show ?case using Suc.IH [of "n div 2"] by (simp add: bit_len.simps [of n])
qed

lemma round_div_exact: "0 < d \<Longrightarrow> round_div (q * d) d = q"
  by (simp add: round_div_def half_even_def)

text \<open>A magnitude written out at the smallest exponent rounds back to itself.\<close>

lemma mag_round_exact:
  assumes "m < inf_mag"
  shows "mag_round (mag_sig m * 2 ^ nat (mag_exp m + 1074)) (- 1074) = m"
proof (cases "m div 2 ^ 52 = 0")
  case True
  then have lt: "m < 2 ^ 52" by simp
  then have "bit_len m \<le> 52" by (rule bit_len_le)
  then have "max (- 1074) (- 1074 + int (bit_len m) - 53) = - 1074" by simp
  then show ?thesis
    using lt by (simp add: mag_round_def mag_round_at_def sig_at_def mag_pack_def mag_sig_def mag_exp_def inf_mag_def)
next
  case False
  define q where "q = m div 2 ^ 52"
  define f where "f = m mod 2 ^ 52"
  define j where "j = q - 1"
  have q: "q = Suc j" using False by (simp add: j_def q_def)
  have m: "m = q * 2 ^ 52 + f" and f: "f < 2 ^ 52" by (simp_all add: q_def f_def)
  have sig: "mag_sig m = 2 ^ 52 + f" and ex: "mag_exp m = int j - 1074"
    using False q unfolding mag_sig_def mag_exp_def f_def q_def by simp_all
  have "bit_len (2 ^ 52 + f) = 53"
    using bit_len_le [of "2 ^ 52 + f" 53] bit_len_ge [of 52 "2 ^ 52 + f"] f by simp
  then have len': "bit_len ((2 ^ 52 + f) * 2 ^ j) = 53 + j"
    by (subst bit_len_double_pow) simp_all
  define n where "n = (2 ^ 52 + f) * 2 ^ j"
  have len: "bit_len n = 53 + j" and "n \<noteq> 0"
    using len' by (simp_all only: n_def) simp
  have "sig_at n (- 1074) (int j - 1074) = 2 ^ 52 + f"
    using round_div_exact [of "2 ^ j" "2 ^ 52 + f"] by (auto simp: sig_at_def n_def)
  then have "mag_round n (- 1074) = mag_pack (int j - 1074) (2 ^ 52 + f)"
    using \<open>n \<noteq> 0\<close> by (simp add: mag_round_def mag_round_at_def len)
  also have "\<dots> = m"
    using assms m q by (simp add: mag_pack_def)
  finally show ?thesis by (simp add: sig ex n_def)
qed

lemma f64_add_zero_key:
  assumes "\<not> f64_is_nan x" and "f64_mag z = 0"
  shows "\<not> f64_is_nan (x + z) \<and> f64_key (x + z) = f64_key x"
proof -
  have z: "\<not> f64_is_nan z" "\<not> f64_is_infinite z" "f64_sig z = 0" "f64_exp z = - 1074"
    using assms(2)
    by (simp_all add: f64_is_nan_def f64_is_infinite_def f64_sig_def f64_exp_def mag_sig_def mag_exp_def inf_mag_def)
  show ?thesis
  proof (cases "f64_is_infinite x")
    case True
    then show ?thesis using assms(1) z by (simp add: plus_f64_def)
  next
    case False
    then have lt: "f64_mag x < inf_mag"
      using assms(1) by (simp add: f64_is_nan_def f64_is_infinite_def)
    have ge: "- 1074 \<le> f64_exp x"
      by (simp add: f64_exp_def mag_exp_def)
    let ?v = "f64_sig x * 2 ^ nat (f64_exp x + 1074)"
    have sum: "x + z = f64_of_sum (f64_sign x \<and> f64_sign z) ?v (- 1074)"
      using assms(1) z False ge by (simp add: plus_f64_def align_sum_def)
    show ?thesis
    proof (cases "f64_mag x = 0")
      case True
      then have "f64_sig x = 0" by (simp add: f64_sig_def mag_sig_def)
      then have eq: "x + z = f64_mk (f64_sign x \<and> f64_sign z) 0"
        using sum by (simp add: f64_of_sum_def)
      show ?thesis
        unfolding eq by (simp add: f64_is_nan_def f64_key_def f64_mk_mag True inf_mag_def)
    next
      case nz: False
      then have sig: "0 < mag_sig (f64_mag x)" by (auto simp: mag_sig_def)
      then have ne: "?v \<noteq> 0" by (simp add: f64_sig_def)
      have neg: "?v < 0 \<longleftrightarrow> f64_sign x"
        using sig by (simp add: f64_sig_def mult_less_0_iff zero_less_mult_iff)
      have "nat \<bar>?v\<bar> = mag_sig (f64_mag x) * 2 ^ nat (mag_exp (f64_mag x) + 1074)"
        by (simp add: f64_sig_def f64_exp_def abs_mult nat_mult_distrib nat_power_eq)
      then have mag: "mag_round (nat \<bar>?v\<bar>) (- 1074) = f64_mag x"
        by (simp only: mag_round_exact [OF lt])
      have eq: "x + z = f64_mk (f64_sign x) (f64_mag x)"
        using sum ne by (simp add: f64_of_sum_def neg mag)
      have "f64_mag x < 2 ^ 63" using lt inf_mag_lt by simp
      then show ?thesis
        unfolding eq using lt by (simp add: f64_is_nan_def f64_key_def f64_mk_mag f64_mk_sign)
    qed
  qed
qed

lemma f64_add_zero_le:
  "f64_mag z = 0 \<Longrightarrow> r \<le> acc + z \<Longrightarrow> r \<le> (acc :: f64)"
proof (cases "f64_is_nan acc")
  case True
  then show "r \<le> acc + z \<Longrightarrow> r \<le> acc"
    by (simp add: plus_f64_def)
next
  case False
  then show "f64_mag z = 0 \<Longrightarrow> r \<le> acc + z \<Longrightarrow> r \<le> acc"
    using f64_add_zero_key [OF False, of z] by (simp add: less_eq_f64_def)
qed

text \<open>The running total after \<open>k\<close> candidates, as the loop adds it up.\<close>

definition running_total :: "(f64 \<times> agent_id) list \<Rightarrow> nat \<Rightarrow> f64" where
  "running_total ws k = foldl (+) 0 (map fst (take k ws))"

lemma choice_loop_first:
  "case choice_loop r acc ws of
     None \<Rightarrow> \<forall>k < length ws. \<not> r \<le> foldl (+) acc (map fst (take (Suc k) ws))
   | Some i \<Rightarrow> \<exists>k < length ws. snd (ws ! k) = i \<and> r \<le> foldl (+) acc (map fst (take (Suc k) ws)) \<and>
       (\<forall>j < k. \<not> r \<le> foldl (+) acc (map fst (take (Suc j) ws)))"
proof (induction r acc ws rule: choice_loop.induct)
  case (2 r acc w i ws)
  show ?case
  proof (cases "r \<le> acc + w")
    case True
    then show ?thesis by (simp add: Let_def) (intro exI [of _ 0], simp)
  next
    case False
    then have IH: "case choice_loop r (acc + w) ws of
       None \<Rightarrow> \<forall>k < length ws. \<not> r \<le> foldl (+) (acc + w) (map fst (take (Suc k) ws))
     | Some i \<Rightarrow> \<exists>k < length ws. snd (ws ! k) = i \<and> r \<le> foldl (+) (acc + w) (map fst (take (Suc k) ws)) \<and>
         (\<forall>j < k. \<not> r \<le> foldl (+) (acc + w) (map fst (take (Suc j) ws)))"
      using 2 by simp
    show ?thesis
    proof (cases "choice_loop r (acc + w) ws")
      case None
      then show ?thesis using IH False by (simp add: Let_def All_less_Suc2)
    next
      case (Some i')
      then obtain k where "k < length ws" "snd (ws ! k) = i'" "r \<le> foldl (+) (acc + w) (map fst (take (Suc k) ws))"
          "\<forall>j < k. \<not> r \<le> foldl (+) (acc + w) (map fst (take (Suc j) ws))"
        using IH by auto
      then show ?thesis using Some False by (simp add: Let_def) (intro exI [of _ "Suc k"], simp add: All_less_Suc2)
    qed
  qed
qed simp

text \<open>Sums that start from the one or the other zero differ by the sign of a zero at most.\<close>

definition same_up_to_zero :: "f64 \<Rightarrow> f64 \<Rightarrow> bool" where
  "same_up_to_zero x y \<longleftrightarrow> x = y \<or> f64_mag x = 0 \<and> f64_mag y = 0"

lemma same_up_to_zero_add:
  assumes "same_up_to_zero x y"
  shows "same_up_to_zero (x + w) (y + w)"
proof (cases "x = y")
  case False
  then have m: "f64_mag x = 0" "f64_mag y = 0" using assms by (simp_all add: same_up_to_zero_def)
  then have "f64_sig x = 0" "f64_sig y = 0" "f64_exp x = f64_exp y"
    by (simp_all add: f64_sig_def f64_exp_def mag_sig_def)
  moreover have "\<not> f64_is_nan x" "\<not> f64_is_nan y" "\<not> f64_is_infinite x" "\<not> f64_is_infinite y"
    using m by (simp_all add: f64_is_nan_def f64_is_infinite_def inf_mag_def)
  ultimately show ?thesis
    by (simp add: plus_f64_def same_up_to_zero_def f64_of_sum_def f64_mk_mag)
qed (simp add: same_up_to_zero_def)

lemma same_up_to_zero_sum: "same_up_to_zero x y \<Longrightarrow> same_up_to_zero (foldl (+) x ws) (foldl (+) y ws)"
  by (induction ws arbitrary: x y) (simp_all add: same_up_to_zero_add)

lemma same_up_to_zero_le: "same_up_to_zero x y \<Longrightarrow> r \<le> x \<Longrightarrow> r \<le> y"
  by (auto simp: same_up_to_zero_def less_eq_f64_def f64_key_def f64_is_nan_def inf_mag_def split: if_splits)

lemma first_reached_weight:
  assumes "k < length ws" and "r \<le> running_total ws (Suc k)" and "\<And>j. j < k \<Longrightarrow> \<not> r \<le> running_total ws (Suc j)"
    and "0 < r"
  shows "f64_mag (fst (ws ! k)) \<noteq> 0"
proof
  assume zero: "f64_mag (fst (ws ! k)) = 0"
  have "running_total ws (Suc k) = running_total ws k + fst (ws ! k)"
    using assms(1) by (simp add: running_total_def take_Suc_conv_app_nth)
  then have le: "r \<le> running_total ws k"
    using f64_add_zero_le [OF zero] assms(2) by simp
  show False
  proof (cases k)
    case 0
    then show False using le assms(4) by (simp add: running_total_def less_eq_f64_def less_f64_def)
  next
    case (Suc j)
    then show False using le assms(3) [of j] by simp
  qed
qed

lemma last_id_last: "ws \<noteq> [] \<Longrightarrow> last_id ws = Some (snd (last ws))"
  by (cases ws rule: rev_cases) (auto simp: last_id_def split: prod.split)

lemma sum_running_total: "r \<le> f64_sum (map fst ws) \<Longrightarrow> r \<le> running_total ws (length ws)"
  unfolding f64_sum_def running_total_def
  by (rule same_up_to_zero_le [OF same_up_to_zero_sum])
    (simp_all add: same_up_to_zero_def f64_neg_zero_def zero_f64_def f64_mag_def)

section \<open>Properties\<close>

definition stock_selectors ::
  "('m, 'n, 'k) ext \<Rightarrow> entropy \<Rightarrow> u64 option \<Rightarrow> ('s, 'm, 'n) selector list" where
  "stock_selectors X E seed =
     [latest_select, best_select X, random_select E seed, score_prop_select X E seed,
      score_child_prop_select X E seed]"

lemma stock_selector: "sel \<in> set (stock_selectors X E seed) \<Longrightarrow> parent_selector sel"
  using latest.parent_selector_axioms best.parent_selector_axioms random.parent_selector_axioms
    score_prop.parent_selector_axioms score_child_prop.parent_selector_axioms
  by (auto simp: stock_selectors_def)

lemma stock_store:
  assumes "sel \<in> set (stock_selectors X E seed)"
  shows "evolution_store (mem_store X') mem_wf mem_entries im_head sel"
  by (rule evolution_store.intro [OF mem_contract parent_selector.axioms(1) [OF stock_selector [OF assms]]])

text \<open>
  C29: On a ledger of fewer than \<open>2 ^ 32\<close> nodes every built-in strategy, whatever its seed, the clock and
  the hash function, selects a recorded node that is a valid parent when the ledger has one, and reports
  an error exactly when it has none.
\<close>

theorem selectors_pick_valid_parents:
  assumes "mem_wf s" and "length (mem_entries s) < 2 ^ 32" and "sel \<in> set (stock_selectors X E seed)"
  shows "case sel (mem_store X) s of
      Inr i \<Rightarrow> \<exists>n. mem_get i s = Inr n \<and> n_valid_parent n
    | Inl e \<Rightarrow> \<forall>n \<in> set (mem_entries s). \<not> n_valid_parent n"
proof -
  have nodes: "ls_nodes (mem_store X) s = Inr (mem_entries s)"
    by (simp add: mem_nodes_def)
  have store: "evolution_store (mem_store X) mem_wf mem_entries im_head sel"
    by (rule stock_store [OF assms(3)])
  have sel: "parent_selector sel"
    by (rule stock_selector [OF assms(3)])
  show ?thesis
  proof (cases "sel (mem_store X) s")
    case (Inl e)
    then have "valid_ids (mem_entries s) = {}"
      using parent_selector.finds [OF sel nodes assms(2)] by auto
    then show ?thesis using Inl by (auto simp: valid_ids_def)
  next
    case (Inr i)
    obtain n where "ls_get (mem_store X) i s = Inr n" "n_valid_parent n"
      by (rule evolution_store.selected_parent [OF store assms(1) Inr])
    then show ?thesis using Inr by auto
  qed
qed

definition demo_ledger1 :: "(demo_manifest, demo_num) mem_inner" where
  "demo_ledger1 = snd (mem_append (demo_node [''a''] Promoted (CHR ''k'')) mem_new)"

lemma demo_ledger1_facts [simp]:
  "mem_wf demo_ledger1" "mem_entries demo_ledger1 = [demo_node [''a''] Promoted (CHR ''k'')]"
proof -
  obtain g where "mem_append (demo_node [''a''] Promoted (CHR ''k'')) mem_new = (Inr (), g)" "mem_wf g"
      "mem_entries g = mem_entries mem_new @ [demo_node [''a''] Promoted (CHR ''k'')]"
    by (rule mem_append_fresh [of mem_new "demo_node [''a''] Promoted (CHR ''k'')"])
      (simp_all only: mem_new_wf, simp_all add: mem_new_def)
  then show "mem_wf demo_ledger1" "mem_entries demo_ledger1 = [demo_node [''a''] Promoted (CHR ''k'')]"
    by (simp_all add: demo_ledger1_def)
qed

lemma demo_node_valid [simp]: "n_valid_parent (demo_node tools Promoted key)"
proof -
  have "ci_valid_parent (inputs_of_node (demo_node tools Promoted key))"
    unfolding sign_node_fields(1) [OF demo_node_signed] by (simp add: demo_inputs_def)
  then show ?thesis by simp
qed

definition demo_entropy :: entropy where
  "demo_entropy = \<lparr>en_hash = (\<lambda>items. word_of_nat (length items)), en_since_epoch = None\<rparr>"

theorem selectors_pick_valid_parents_witness:
  "\<exists>i n. best_select (demo_ext True) (mem_store (demo_ext True)) demo_ledger1 = Inr i \<and>
     mem_get i demo_ledger1 = Inr n \<and> n_valid_parent n"
  using selectors_pick_valid_parents [of demo_ledger1 "best_select (demo_ext True)" "demo_ext True" demo_entropy None]
  by (auto simp: stock_selectors_def split: sum.splits)

text \<open>\<open>Latest\<close> selects the valid parent appended last, not the node the head points to.\<close>

lemma latest_is_last_valid:
  "latest_select (mem_store X) s = Inr i \<longleftrightarrow>
     (\<exists>pre n post. mem_entries s = pre @ n # post \<and> n_valid_parent n \<and> n_agent_id n = i \<and>
        (\<forall>m \<in> set post. \<not> n_valid_parent m))"
  by (auto simp: latest_select_def mem_nodes_def ok_or_Inr_iff find_rev_Some_split)

text \<open>
  \<open>Best\<close> selects the first of the valid parents with the highest score: none scores more, and every
  earlier one scores strictly less.
\<close>

theorem best_is_first_maximum:
  assumes "json_num_laws X" and "best_select X (mem_store X) s = Inr i"
  shows "\<exists>pre n post. mem_entries s = pre @ n # post \<and> n_valid_parent n \<and> n_agent_id n = i \<and>
     (\<forall>m \<in> set pre. n_valid_parent m \<longrightarrow> score_of X m < score_of X n) \<and>
     (\<forall>m \<in> set post. n_valid_parent m \<longrightarrow> score_of X m \<le> score_of X n)"
proof -
  obtain b where b: "best_loop X None (mem_entries s) = Some (b, i)"
    using assms(2) by (auto simp: best_select_def mem_nodes_def ok_or_Inr_iff)
  have "first_max X ([] @ mem_entries s) (best_loop X None (mem_entries s))"
    by (rule best_loop_first_max [OF assms(1)]) (simp add: first_max_def)
  then show ?thesis
    unfolding b first_max_def by auto
qed

theorem best_is_first_maximum_witness:
  "\<exists>n. mem_entries demo_ledger1 = [n] \<and> best_select (demo_ext True) (mem_store (demo_ext True)) demo_ledger1
     = Inr (n_agent_id n)"
proof -
  have "best_select (demo_ext True) (mem_store (demo_ext True)) demo_ledger1
      = Inr (n_agent_id (demo_node [''a''] Promoted (CHR ''k'')))"
    by (simp add: best_select_def mem_nodes_def)
  from best_is_first_maximum [OF demo_json_num_laws this] this show ?thesis
    by (auto simp: Cons_eq_append_conv)
qed

text \<open>
  C30: Weighted sampling inverts the cumulative weights. With \<open>r\<close> the drawn fraction of the total weight,
  the answer is the first candidate whose running total reaches \<open>r\<close>, one of nonzero weight when \<open>r\<close> is
  positive. The last candidate is the answer when the total is not positive, or when no running total
  reaches \<open>r\<close>; the last running total being the total, that takes an \<open>r\<close> that does not compare as at most
  the total, such as one that is not a number.
\<close>

theorem weighted_choice_draw:
  assumes "ws \<noteq> []"
  shows "let whole = f64_sum (map fst ws); r = pseudo_unit E seed ws * whole in
     (weighted_choice E ws seed = Inr i \<longleftrightarrow>
        (if \<not> whole \<le> 0 \<and> (\<exists>k < length ws. r \<le> running_total ws (Suc k))
         then \<exists>k < length ws. i = snd (ws ! k) \<and> r \<le> running_total ws (Suc k) \<and>
                (\<forall>j < k. \<not> r \<le> running_total ws (Suc j)) \<and> (0 < r \<longrightarrow> f64_mag (fst (ws ! k)) \<noteq> 0)
         else i = snd (last ws))) \<and>
     (r \<le> whole \<longrightarrow> (\<exists>k < length ws. r \<le> running_total ws (Suc k)))"
proof -
  let ?whole = "f64_sum (map fst ws)"
  let ?r = "pseudo_unit E seed ws * ?whole"
  let ?reached = "\<lambda>k. ?r \<le> running_total ws (Suc k)"
  have last: "last_id ws = Some (snd (last ws))" using assms by (rule last_id_last)
  have top: "\<exists>k < length ws. ?reached k" if "?r \<le> ?whole"
    using sum_running_total [OF that] assms by (intro exI [of _ "length ws - 1"]) simp
  have draw: "weighted_choice E ws seed = Inr i \<longleftrightarrow>
      (if \<not> ?whole \<le> 0 \<and> (\<exists>k < length ws. ?reached k)
       then \<exists>k < length ws. i = snd (ws ! k) \<and> ?reached k \<and> (\<forall>j < k. \<not> ?reached j) \<and>
              (0 < ?r \<longrightarrow> f64_mag (fst (ws ! k)) \<noteq> 0)
       else i = snd (last ws))"
  proof (cases "choice_loop ?r 0 ws")
    case None
    then have "\<forall>k < length ws. \<not> ?reached k"
      using choice_loop_first [where r = ?r and acc = 0 and ws = ws] by (simp add: running_total_def)
    then show ?thesis using None last assms by (auto simp: weighted_choice_def Let_def)
  next
    case (Some i')
    then obtain k where k: "k < length ws" "snd (ws ! k) = i'" "?reached k" "\<forall>j < k. \<not> ?reached j"
      using choice_loop_first [where r = ?r and acc = 0 and ws = ws] by (auto simp: running_total_def)
    have weight: "f64_mag (fst (ws ! k)) \<noteq> 0" if "0 < ?r"
      using first_reached_weight [where r = ?r and k = k and ws = ws] k that by blast
    have unique: "k' = k" if "?reached k'" "\<forall>j < k'. \<not> ?reached j" for k'
      using that k(3,4) by (metis linorder_neqE_nat)
    show ?thesis
    proof (cases "?whole \<le> 0")
      case True
      then show ?thesis using last assms by (simp add: weighted_choice_def eq_commute)
    next
      case False
      then have "weighted_choice E ws seed = Inr i'"
        using Some assms by (simp add: weighted_choice_def Let_def)
      moreover have "i' = i \<longleftrightarrow> (\<exists>k < length ws. i = snd (ws ! k) \<and> ?reached k \<and> (\<forall>j < k. \<not> ?reached j) \<and>
              (0 < ?r \<longrightarrow> f64_mag (fst (ws ! k)) \<noteq> 0))"
        using k weight unique by metis
      ultimately show ?thesis using False k(1,3) by auto
    qed
  qed
  show ?thesis unfolding Let_def using draw top by blast
qed

text \<open>A threshold of three parts in \<open>2 ^ 64 - 1\<close> passes over a candidate of weight zero.\<close>

text \<open>A threshold of \<open>3 / (2 ^ 64 - 1)\<close> passes over a candidate of weight zero.\<close>

theorem weighted_choice_draw_witness:
  "weighted_choice demo_entropy [(0, ''a''), (1, ''b'')] (Some 7) = Inr ''b''"
proof -
  have three: "f64_of_nat 3 = F64 0x4008000000000000"
    by (simp add: f64_of_nat_def f64_eval)
  have top: "f64_of_nat 18446744073709551615 = F64 0x43F0000000000000"
    by (simp add: f64_of_nat_def f64_eval)
  have quotient: "F64 0x4008000000000000 div F64 0x43F0000000000000 = F64 0x3C08000000000000"
    by (simp add: f64_eval)
  have unit: "pseudo_unit demo_entropy (Some 7) [(0, ''a''), (1, ''b'')] = F64 0x3C08000000000000"
    by (simp add: pseudo_unit_def demo_entropy_def three top quotient)
  have add: "f64_neg_zero + 0 = 0" "(0 :: f64) + 0 = 0" "(0 :: f64) + 1 = 1"
    by (simp_all add: f64_neg_zero_def f64_eval)
  let ?ws = "[(0, ''a''), (1, ''b'')] :: (f64 \<times> agent_id) list" and ?r = "F64 0x3C08000000000000"
  have r: "?r * 1 = ?r" "\<not> ?r \<le> 0" "0 < ?r" "?r \<le> 1" "\<not> (1 :: f64) \<le> 0" "f64_mag 1 \<noteq> 0"
    by (simp_all add: f64_eval)
  have sum: "f64_sum (map fst ?ws) = 1"
    by (simp add: f64_sum_def add)
  have totals: "running_total ?ws (Suc 0) = 0" "running_total ?ws (Suc (Suc 0)) = 1"
    by (simp_all add: running_total_def add)
  have "weighted_choice demo_entropy ?ws (Some 7) = Inr ''b'' \<longleftrightarrow>
      (\<exists>k < length ?ws. ''b'' = snd (?ws ! k) \<and> ?r \<le> running_total ?ws (Suc k) \<and>
         (\<forall>j < k. \<not> ?r \<le> running_total ?ws (Suc j)) \<and> (0 < ?r \<longrightarrow> f64_mag (fst (?ws ! k)) \<noteq> 0))"
    using weighted_choice_draw [of ?ws demo_entropy "Some 7" "''b''"] totals r
    unfolding sum unit Let_def by auto
  moreover have "Suc 0 < length ?ws \<and> ''b'' = snd (?ws ! Suc 0) \<and> ?r \<le> running_total ?ws (Suc (Suc 0)) \<and>
      (\<forall>j < Suc 0. \<not> ?r \<le> running_total ?ws (Suc j)) \<and> (0 < ?r \<longrightarrow> f64_mag (fst (?ws ! Suc 0)) \<noteq> 0)"
    using totals r by simp
  ultimately show ?thesis by blast
qed

text \<open>
  \<open>ScoreChildProportional\<close> weighs every valid parent by its score, or zero if negative, over one plus
  the number of recorded nodes that name it as parent; below \<open>2 ^ 32\<close> nodes no counter overflows.
\<close>

lemma child_weights_exact:
  assumes "length (mem_entries s) < 2 ^ 32"
  shows "score_child_prop_select X E seed (mem_store X) s =
     weighted_choice E
       (map (\<lambda>n. (f64_max (score_of X n) 0 div
                    (1 + f64_of_nat (length (filter (\<lambda>m. n_parent_id m = Some (n_agent_id n)) (mem_entries s)))),
                  n_agent_id n))
         (filter n_valid_parent (mem_entries s))) seed"
proof -
  obtain counts where c: "count_children X Map.empty (mem_entries s) = Inr counts"
      and eq: "\<And>p. unat (case counts p of None \<Rightarrow> 0 | Some c \<Rightarrow> c) =
        length (filter (\<lambda>n. n_parent_id n = Some p) (mem_entries s))"
    using count_children_total [OF assms, of X] by blast
  show ?thesis
    by (simp add: score_child_prop_select_def mem_nodes_def c child_weights_def eq)
qed

end
