(* ===== verification/Veh_Ensemble.thy ===== *)
theory Veh_Ensemble
  imports Veh_Selector
begin

text \<open>
  \<^verbatim>\<open>src/ensemble.rs\<close>: ensemble selection by metric. \<open>sort_by\<close> is the standard library's stable sort,
  written as insertion sort with the caller's comparator; on comparators that are total preorders,
  as the one over finite scores is, every stable sort gives the same list.
\<close>

section \<open>Top k by score\<close>

type_synonym ('s, 'm, 'n) ensemble_selector = "('s, 'm, 'n) lineage_store \<Rightarrow> 's \<Rightarrow> agent_id list res"

definition ensemble_score_of :: "('m, 'n, 'k) ext \<Rightarrow> ('m, 'n) agent_node \<Rightarrow> f64" where
  "ensemble_score_of X node =
     (case Option.bind (Option.bind (n_eval_results node) (j_get ''score'')) (j_as_f64 X) of
        None \<Rightarrow> 0
      | Some s \<Rightarrow> s)"

fun insert_by :: "('a \<Rightarrow> 'a \<Rightarrow> ordering) \<Rightarrow> 'a \<Rightarrow> 'a list \<Rightarrow> 'a list" where
  "insert_by cmp x [] = [x]"
| "insert_by cmp x (y # ys) = (if cmp x y = Greater then y # insert_by cmp x ys else x # y # ys)"

definition sort_by :: "('a \<Rightarrow> 'a \<Rightarrow> ordering) \<Rightarrow> 'a list \<Rightarrow> 'a list" where
  "sort_by cmp xs = foldr (insert_by cmp) xs []"

definition by_score_desc ::
  "('m, 'n, 'k) ext \<Rightarrow> ('m, 'n) agent_node \<Rightarrow> ('m, 'n) agent_node \<Rightarrow> ordering" where
  "by_score_desc X a b =
     (case f64_partial_cmp (ensemble_score_of X b) (ensemble_score_of X a) of None \<Rightarrow> Equal | Some c \<Rightarrow> c)"

definition best_by_metric_select :: "('m, 'n, 'k) ext \<Rightarrow> nat \<Rightarrow> ('s, 'm, 'n) ensemble_selector" where
  "best_by_metric_select X k store s =
     res_bind (ls_nodes store s) (\<lambda>nodes.
     Inr (map n_agent_id (take k (sort_by (by_score_desc X) (filter n_valid_parent nodes)))))"


section \<open>The sort\<close>

text \<open>Higher scores have smaller keys.\<close>

definition desc_key :: "('m, 'n, 'k) ext \<Rightarrow> ('m, 'n) agent_node \<Rightarrow> int" where
  "desc_key X n = - f64_key (score_of X n)"

lemma ensemble_score [simp]: "ensemble_score_of X = score_of X"
  by (simp add: ensemble_score_of_def score_of_def fun_eq_iff)

lemma by_score_desc_iff:
  "json_num_laws X \<Longrightarrow> by_score_desc X a b = Greater \<longleftrightarrow> \<not> desc_key X a \<le> desc_key X b"
  using score_of_not_nan [of X]
  by (auto simp: by_score_desc_def f64_partial_cmp_def desc_key_def)

lemma insert_by_insort:
  "json_num_laws X \<Longrightarrow> insert_by (by_score_desc X) x ys = insort_key (desc_key X) x ys"
  by (induction ys) (auto simp: by_score_desc_iff)

lemma sort_by_sort_key:
  assumes "json_num_laws X"
  shows "sort_by (by_score_desc X) xs = sort_key (desc_key X) xs"
  by (induction xs) (simp_all add: sort_by_def insert_by_insort [OF assms])

lemma desc_key_le:
  "json_num_laws X \<Longrightarrow> desc_key X a \<le> desc_key X b \<longleftrightarrow> score_of X b \<le> score_of X a"
  using score_of_not_nan [of X] by (simp add: desc_key_def less_eq_f64_def)

lemma desc_key_less:
  "json_num_laws X \<Longrightarrow> desc_key X a < desc_key X b \<longleftrightarrow> score_of X b < score_of X a"
  using score_of_not_nan [of X] by (simp add: desc_key_def less_f64_def)

lemma set_insert_by: "set (insert_by cmp x ys) = insert x (set ys)"
  by (induction ys) auto

lemma set_sort_by: "set (sort_by cmp xs) = set xs"
  by (induction xs) (simp_all add: sort_by_def set_insert_by)

lemma length_sort_by: "length (sort_by cmp xs) = length xs"
proof -
  have "length (insert_by cmp x ys) = Suc (length ys)" for x ys
    by (induction ys) auto
  then show ?thesis by (induction xs) (simp_all add: sort_by_def)
qed

text \<open>The head of a stable sort is the first minimum.\<close>

lemma sort_key_first_min:
  assumes "\<forall>m \<in> set pre. f n < f m" and "\<forall>m \<in> set post. f n \<le> f m"
  shows "\<exists>rest. sort_key f (pre @ n # post) = n # rest"
  using assms(1)
proof (induction pre)
  case Nil
  have "sort_key f (n # post) = n # sort_key f post"
    using assms(2) by (simp add: insort_is_Cons)
  then show ?case by simp
next
  case (Cons m pre)
  then obtain rest where "sort_key f (pre @ n # post) = n # rest" by auto
  moreover have "\<not> f m \<le> f n" using Cons.prems by (simp add: not_le)
  ultimately show ?case by simp
qed


section \<open>What a host expects of an ensemble\<close>

locale ensemble_contract =
  fixes select :: "('s, 'm, 'n) ensemble_selector" and k :: nat
  assumes members: "ls_nodes S s = Inr ns \<Longrightarrow> select S s = Inr is \<Longrightarrow> set is \<subseteq> valid_ids ns"
    and size: "ls_nodes S s = Inr ns \<Longrightarrow> select S s = Inr is \<Longrightarrow>
          length is = min k (length (filter n_valid_parent ns))"
    and answers: "ls_nodes S s = Inr ns \<Longrightarrow> \<exists>is. select S s = Inr is"
begin

lemma empty_iff:
  assumes "ls_nodes S s = Inr ns" and "0 < k" and "select S s = Inr is"
  shows "is = [] \<longleftrightarrow> valid_ids ns = {}"
proof -
  have "is = [] \<longleftrightarrow> filter n_valid_parent ns = []"
    using size [OF assms(1,3)] assms(2) by (metis length_0_conv min_0R min_def less_numeral_extra(3))
  then show ?thesis unfolding valid_ids_filter by (simp only: image_is_empty set_empty)
qed

end

interpretation best_by_metric: ensemble_contract "best_by_metric_select X k" k
proof
  fix S :: "('d, 'a, 'b) lineage_store" and s ns "is"
  assume ls: "ls_nodes S s = Inr ns"
  show "set is \<subseteq> valid_ids ns" if "best_by_metric_select X k S s = Inr is"
    using that ls set_take_subset [of k "sort_by (by_score_desc X) (filter n_valid_parent ns)"]
    by (fastforce simp: best_by_metric_select_def valid_ids_filter set_sort_by)
  show "length is = min k (length (filter n_valid_parent ns))" if "best_by_metric_select X k S s = Inr is"
    using that ls by (auto simp: best_by_metric_select_def length_sort_by min.commute)
  show "\<exists>is. best_by_metric_select X k S s = Inr is"
    using ls by (simp add: best_by_metric_select_def)
qed


section \<open>Properties\<close>

text \<open>
  C31: \<open>BestByMetric\<close> answers the first \<open>k\<close> valid parents in descending order of score: it never fails on
  a readable ledger, has \<open>k\<close> members or all valid parents if there are fewer, no valid parent left out
  scores more than a member, and members with equal scores keep their insertion order.
\<close>

theorem top_k_by_score:
  assumes "json_num_laws X"
  shows "\<exists>sel rest.
     best_by_metric_select X k (mem_store X) s = Inr (map n_agent_id sel) \<and>
     mset (sel @ rest) = mset (filter n_valid_parent (mem_entries s)) \<and>
     length sel = min k (length (filter n_valid_parent (mem_entries s))) \<and>
     sorted_wrt (\<lambda>a b. score_of X b \<le> score_of X a) sel \<and>
     (\<forall>a \<in> set sel. \<forall>b \<in> set rest. score_of X b \<le> score_of X a) \<and>
     (\<forall>c. filter (\<lambda>n. f64_key (score_of X n) = c) (sel @ rest) =
          filter (\<lambda>n. f64_key (score_of X n) = c) (filter n_valid_parent (mem_entries s)))"
proof -
  let ?v = "filter n_valid_parent (mem_entries s)"
  let ?sorted = "sort_key (desc_key X) ?v"
  let ?sel = "take k ?sorted" and ?rest = "drop k ?sorted"
  have all: "sorted_wrt (\<lambda>a b. score_of X b \<le> score_of X a) (?sel @ ?rest)"
    using sorted_sort_key [of "desc_key X" ?v] by (simp add: sorted_map desc_key_le [OF assms])
  then have cross: "\<forall>a \<in> set ?sel. \<forall>b \<in> set ?rest. score_of X b \<le> score_of X a"
    and front: "sorted_wrt (\<lambda>a b. score_of X b \<le> score_of X a) ?sel"
    unfolding sorted_wrt_append by blast+
  have stable: "filter (\<lambda>n. f64_key (score_of X n) = c) ?sorted = filter (\<lambda>n. f64_key (score_of X n) = c) ?v" for c
    using sort_key_stable [of "desc_key X" "- c" ?v] by (simp add: desc_key_def)
  have "best_by_metric_select X k (mem_store X) s = Inr (map n_agent_id ?sel)"
    by (simp add: best_by_metric_select_def mem_nodes_def sort_by_sort_key [OF assms])
  then show ?thesis
    using cross front stable
    by (rule_tac exI [of _ ?sel], rule_tac exI [of _ ?rest]) (simp add: min.commute)
qed

theorem top_k_by_score_witness:
  "\<exists>n. mem_entries demo_ledger1 = [n] \<and>
     best_by_metric_select (demo_ext True) 3 (mem_store (demo_ext True)) demo_ledger1 = Inr [n_agent_id n]"
proof -
  obtain sel rest where s: "best_by_metric_select (demo_ext True) 3 (mem_store (demo_ext True)) demo_ledger1
        = Inr (map n_agent_id sel)"
      "mset (sel @ rest) = mset (filter n_valid_parent (mem_entries demo_ledger1))"
      "length sel = min 3 (length (filter n_valid_parent (mem_entries demo_ledger1)))"
    using top_k_by_score [OF demo_json_num_laws, of True 3 demo_ledger1] by blast
  have "set (sel @ rest) = {demo_node [''a''] Promoted (CHR ''k'')}"
    using mset_eq_setD [OF s(2)] by simp
  moreover have "length sel = 1" using s(3) by simp
  ultimately show ?thesis using s(1) by (cases sel) auto
qed

text \<open>
  The two modules agree on the best agent: an ensemble of one is exactly the parent that the
  \<open>Best\<close> strategy selects, and it is empty exactly when that strategy reports that there is none.
\<close>

lemma ensemble_of_one_is_best:
  assumes "json_num_laws X"
  shows "best_by_metric_select X 1 (mem_store X) s =
     (case best_select X (mem_store X) s of Inr i \<Rightarrow> Inr [i] | Inl _ \<Rightarrow> Inr [])"
proof -
  let ?ns = "mem_entries s"
  have max: "first_max X ([] @ ?ns) (best_loop X None ?ns)"
    by (rule best_loop_first_max [OF assms]) (simp add: first_max_def)
  show ?thesis
  proof (cases "best_loop X None ?ns")
    case None
    then have "filter n_valid_parent ?ns = []"
      using max by (simp add: first_max_def filter_empty_conv)
    then show ?thesis
      using None by (simp add: best_select_def best_by_metric_select_def mem_nodes_def sort_by_def)
  next
    case (Some p)
    obtain b i where p: "p = (b, i)" by force
    then obtain pre n post where n: "?ns = pre @ n # post" "n_valid_parent n" "n_agent_id n = i"
        "\<forall>m \<in> set pre. n_valid_parent m \<longrightarrow> score_of X m < score_of X n"
        "\<forall>m \<in> set post. n_valid_parent m \<longrightarrow> score_of X m \<le> score_of X n"
      using max Some by (auto simp: first_max_def)
    obtain rest where "sort_key (desc_key X) (filter n_valid_parent pre @ n # filter n_valid_parent post) = n # rest"
      using sort_key_first_min [of "filter n_valid_parent pre" "desc_key X" n "filter n_valid_parent post"] n(4,5)
      by (auto simp: desc_key_less [OF assms] desc_key_le [OF assms])
    then have "take 1 (sort_key (desc_key X) (filter n_valid_parent ?ns)) = [n]"
      using n(1,2) by simp
    then show ?thesis
      using Some p n(3)
      by (simp add: best_select_def best_by_metric_select_def mem_nodes_def sort_by_sort_key [OF assms])
  qed
qed

end
