(* ===== verification/Veh_Graph.thy ===== *)
theory Veh_Graph
  imports Veh_Ledger
begin

text \<open>
  \<^verbatim>\<open>src/graph.rs\<close>: the lifecycle runner. A runner is the record of its collaborators; every method
  is an \<open>op\<close> on the ledger's state. The lemmas give the effect of each method on the abstract ledger
  of \<open>lineage_contract\<close>: which commit inputs it signs, with which key, and what it leaves alone.
\<close>

section \<open>Inputs, outcomes and the runner\<close>

record ('m, 'n) cycle_inputs =
  cy_parent :: "('m, 'n) agent_node"
  cy_intent :: "'n mutation_intent"
  cy_candidate :: "'m agent_artifact"
  cy_allowed_scope :: allowed_scope
  cy_created_at :: string

record ('m, 'n) pending_approval =
  pa_parent_id :: "agent_id option"
  pa_parent_generation :: u32
  pa_intent :: "'n mutation_intent"
  pa_candidate :: "'m agent_artifact"
  pa_allowed_scope :: allowed_scope
  pa_created_at :: string
  pa_eval_results :: "'n json"
  pa_mutation_diff :: string
  pa_decision_reason :: string

definition pending_reason :: "('m, 'n) pending_approval \<Rightarrow> string" where
  "pending_reason p = pa_decision_reason p"

datatype ('m, 'n) cycle_outcome =
    Cycle_Promoted "('m, 'n) agent_node" "'n eval_result"
  | Cycle_Rejected "('m, 'n) agent_node" string
  | Awaiting_Approval "('m, 'n) pending_approval"

record ('s, 'm, 'n, 'k) veh =
  v_ledger :: "('s, 'm, 'n) lineage_store"
  v_evaluator :: "('m, 'n) evaluator"
  v_policy :: "('m, 'n) policy_gate"
  v_signing_key :: 'k
  v_strict :: bool

definition veh_new ::
  "('m, 'n, 'k) ext \<Rightarrow> ('s, 'm, 'n) lineage_store \<Rightarrow> ('m, 'n) evaluator \<Rightarrow> 'k \<Rightarrow> ('s, 'm, 'n, 'k) veh" where
  "veh_new X ledger evaluator signing_key =
     \<lparr>v_ledger = ledger, v_evaluator = evaluator, v_policy = default_evaluate X,
      v_signing_key = signing_key, v_strict = True\<rparr>"

definition with_policy :: "('s, 'm, 'n, 'k) veh \<Rightarrow> ('m, 'n) policy_gate \<Rightarrow> ('s, 'm, 'n, 'k) veh" where
  "with_policy v policy = v\<lparr>v_policy := policy\<rparr>"

definition with_strict_improvement :: "('s, 'm, 'n, 'k) veh \<Rightarrow> bool \<Rightarrow> ('s, 'm, 'n, 'k) veh" where
  "with_strict_improvement v strict = v\<lparr>v_strict := strict\<rparr>"


section \<open>Commits\<close>

text \<open>The tail every commit shares: sign, append, hand the node back.\<close>

definition sign_and_append ::
  "('m, 'n, 'k) ext \<Rightarrow> ('s, 'm, 'n, 'k) veh \<Rightarrow> ('m, 'n) commit_inputs \<Rightarrow> 'k
     \<Rightarrow> ('s, ('m, 'n) agent_node) op" where
  "sign_and_append X v inputs key =
     op_bind (op_lift (\<lambda>_. sign_node X inputs key)) (\<lambda>node.
     op_bind (ls_append (v_ledger v) node) (\<lambda>_.
     op_lift (\<lambda>_. Inr node)))"

definition root_inputs :: "'m agent_artifact \<Rightarrow> allowed_scope \<Rightarrow> string \<Rightarrow> ('m, 'n) commit_inputs" where
  "root_inputs artifact scope created =
     \<lparr>ci_parent_id = None, ci_generation = 0, ci_created_at = created,
      ci_mutation_intent = intent_new ''genesis'', ci_mutation_diff = [], ci_allowed_scope = scope,
      ci_eval_results = None, ci_artifact = artifact, ci_status = Promoted,
      ci_parent_agent_success = True, ci_valid_parent = True, ci_eval_stage = None\<rparr>"

definition commit_root ::
  "('m, 'n, 'k) ext \<Rightarrow> ('s, 'm, 'n, 'k) veh \<Rightarrow> 'm agent_artifact \<Rightarrow> allowed_scope \<Rightarrow> string
     \<Rightarrow> ('s, ('m, 'n) agent_node) op" where
  "commit_root X v artifact scope created =
     sign_and_append X v (root_inputs artifact scope created) (v_signing_key v)"

definition promoted_inputs ::
  "('m, 'n, 'k) ext \<Rightarrow> ('m, 'n) agent_node \<Rightarrow> u32 \<Rightarrow> 'n mutation_intent \<Rightarrow> 'm agent_artifact
     \<Rightarrow> allowed_scope \<Rightarrow> string \<Rightarrow> string \<Rightarrow> 'n eval_result \<Rightarrow> ('m, 'n) commit_inputs" where
  "promoted_inputs X parent generation intent candidate scope created diff eval =
     \<lparr>ci_parent_id = Some (n_agent_id parent), ci_generation = generation, ci_created_at = created,
      ci_mutation_intent = intent, ci_mutation_diff = diff, ci_allowed_scope = scope,
      ci_eval_results = Some (eval_to_json X eval), ci_artifact = candidate, ci_status = Promoted,
      ci_parent_agent_success = True, ci_valid_parent = True, ci_eval_stage = None\<rparr>"

definition rejected_inputs ::
  "('m, 'n, 'k) ext \<Rightarrow> ('m, 'n) agent_node \<Rightarrow> u32 \<Rightarrow> 'n mutation_intent \<Rightarrow> 'm agent_artifact
     \<Rightarrow> allowed_scope \<Rightarrow> string \<Rightarrow> string \<Rightarrow> 'n eval_result \<Rightarrow> ('m, 'n) commit_inputs" where
  "rejected_inputs X parent generation intent candidate scope created diff eval =
     \<lparr>ci_parent_id = Some (n_agent_id parent), ci_generation = generation, ci_created_at = created,
      ci_mutation_intent = intent, ci_mutation_diff = diff, ci_allowed_scope = scope,
      ci_eval_results = Some (eval_to_json X eval), ci_artifact = candidate, ci_status = Rejected,
      ci_parent_agent_success = True, ci_valid_parent = False, ci_eval_stage = None\<rparr>"

definition commit_promoted ::
  "('m, 'n, 'k) ext \<Rightarrow> ('s, 'm, 'n, 'k) veh \<Rightarrow> ('m, 'n) agent_node \<Rightarrow> 'n mutation_intent
     \<Rightarrow> 'm agent_artifact \<Rightarrow> allowed_scope \<Rightarrow> string \<Rightarrow> string \<Rightarrow> 'n eval_result \<Rightarrow> 'k
     \<Rightarrow> ('s, ('m, 'n) agent_node) op" where
  "commit_promoted X v parent intent candidate scope created diff eval key =
     op_bind (op_lift (\<lambda>_. u32_succ X (n_generation parent))) (\<lambda>generation.
     sign_and_append X v
       (promoted_inputs X parent generation intent candidate scope created diff eval) key)"

definition commit_rejected ::
  "('m, 'n, 'k) ext \<Rightarrow> ('s, 'm, 'n, 'k) veh \<Rightarrow> ('m, 'n) agent_node \<Rightarrow> 'n mutation_intent
     \<Rightarrow> 'm agent_artifact \<Rightarrow> allowed_scope \<Rightarrow> string \<Rightarrow> string \<Rightarrow> 'n eval_result
     \<Rightarrow> ('s, ('m, 'n) agent_node) op" where
  "commit_rejected X v parent intent candidate scope created diff eval =
     op_bind (op_lift (\<lambda>_. u32_succ X (n_generation parent))) (\<lambda>generation.
     sign_and_append X v
       (rejected_inputs X parent generation intent candidate scope created diff eval)
       (v_signing_key v))"


section \<open>One cycle\<close>

definition recorded_score :: "('m, 'n, 'k) ext \<Rightarrow> ('m, 'n) agent_node \<Rightarrow> f64 option" where
  "recorded_score X parent =
     Option.bind (Option.bind (n_eval_results parent) (j_get ''score'')) (j_as_f64 X)"

text \<open>The parent's score when FR-5 rejects the candidate.\<close>

definition not_improved :: "('m, 'n, 'k) ext \<Rightarrow> bool \<Rightarrow> ('m, 'n) agent_node \<Rightarrow> 'n eval_result \<Rightarrow> f64 option" where
  "not_improved X strict parent eval =
     (if strict
      then (case recorded_score X parent of
              None \<Rightarrow> None
            | Some parent_score \<Rightarrow> if er_score eval \<le> parent_score then Some parent_score else None)
      else None)"

lemma not_improved_None:
  assumes "not_improved X strict parent eval = None" and "strict" and "recorded_score X parent = Some parent_score"
  shows "\<not> er_score eval \<le> parent_score \<and>
     (parent_score < er_score eval \<or> f64_is_nan (er_score eval) \<or> f64_is_nan parent_score)"
  using assms f64_not_le_iff_less [of "er_score eval" parent_score]
  by (auto simp: not_improved_def split: if_splits)

definition run_cycle ::
  "('m, 'n, 'k) ext \<Rightarrow> ('s, 'm, 'n, 'k) veh \<Rightarrow> ('m, 'n) cycle_inputs \<Rightarrow> ('s, ('m, 'n) cycle_outcome) op" where
  "run_cycle X v inputs =
     (let parent = cy_parent inputs; intent = cy_intent inputs; candidate = cy_candidate inputs;
          scope = cy_allowed_scope inputs; created = cy_created_at inputs in
      op_bind (op_lift (\<lambda>_. manifest_diff X (n_artifact parent) candidate)) (\<lambda>diff.
      op_bind (op_lift (\<lambda>_. ev_evaluate (v_evaluator v) candidate)) (\<lambda>eval.
      case not_improved X (v_strict v) parent eval of
        Some parent_score \<Rightarrow>
          op_bind (commit_rejected X v parent intent candidate scope created diff eval) (\<lambda>node.
          op_lift (\<lambda>_. Inr (Cycle_Rejected node
            (''candidate score '' @ x_f64_text X (er_score eval) @ '' did not exceed parent '' @
             x_f64_text X parent_score))))
      | None \<Rightarrow>
          op_bind (op_lift (\<lambda>_. v_policy v parent intent (capability_sbom X candidate))) (\<lambda>decision.
          case decision of
            Approve \<Rightarrow>
              op_bind (commit_promoted X v parent intent candidate scope created diff eval (v_signing_key v))
                (\<lambda>node. op_lift (\<lambda>_. Inr (Cycle_Promoted node eval)))
          | Deny reason \<Rightarrow>
              op_bind (commit_rejected X v parent intent candidate scope created diff eval)
                (\<lambda>node. op_lift (\<lambda>_. Inr (Cycle_Rejected node reason)))
          | RequireApproval reason \<Rightarrow>
              op_lift (\<lambda>_. Inr (Awaiting_Approval
                \<lparr>pa_parent_id = Some (n_agent_id parent), pa_parent_generation = n_generation parent,
                 pa_intent = intent, pa_candidate = candidate, pa_allowed_scope = scope,
                 pa_created_at = created, pa_eval_results = eval_to_json X eval,
                 pa_mutation_diff = diff, pa_decision_reason = reason\<rparr>))))))"

definition resume_inputs :: "('m, 'n) pending_approval \<Rightarrow> u32 \<Rightarrow> ('m, 'n) commit_inputs" where
  "resume_inputs p generation =
     \<lparr>ci_parent_id = pa_parent_id p, ci_generation = generation, ci_created_at = pa_created_at p,
      ci_mutation_intent = pa_intent p, ci_mutation_diff = pa_mutation_diff p,
      ci_allowed_scope = pa_allowed_scope p, ci_eval_results = Some (pa_eval_results p),
      ci_artifact = pa_candidate p, ci_status = Promoted, ci_parent_agent_success = True,
      ci_valid_parent = True, ci_eval_stage = None\<rparr>"

definition resume_with_approval ::
  "('m, 'n, 'k) ext \<Rightarrow> ('s, 'm, 'n, 'k) veh \<Rightarrow> ('m, 'n) pending_approval \<Rightarrow> 'k
     \<Rightarrow> ('s, ('m, 'n) agent_node) op" where
  "resume_with_approval X v pending approval_key =
     op_bind (op_lift (\<lambda>_. u32_succ X (pa_parent_generation pending))) (\<lambda>generation.
     sign_and_append X v (resume_inputs pending generation) approval_key)"


section \<open>Rollback\<close>

definition rollback_target_node ::
  "('m, 'n, 'k) ext \<Rightarrow> ('s, 'm, 'n, 'k) veh \<Rightarrow> agent_id \<Rightarrow> 's \<Rightarrow> ('m, 'n) agent_node res" where
  "rollback_target_node X v aid s =
     res_bind (ls_get (v_ledger v) aid s) (\<lambda>target.
     res_bind (verify_node X target) (\<lambda>_.
     if n_status target \<noteq> Promoted
     then Inl (PolicyDenied (''cannot roll back to non-promoted node '' @ aid))
     else Inr target))"

definition rollback_to ::
  "('m, 'n, 'k) ext \<Rightarrow> ('s, 'm, 'n, 'k) veh \<Rightarrow> agent_id \<Rightarrow> ('s, unit) op" where
  "rollback_to X v aid =
     op_bind (op_lift (rollback_target_node X v aid)) (\<lambda>_. ls_set_head (v_ledger v) aid)"

definition rollback_inputs ::
  "('m, 'n) agent_node \<Rightarrow> ('m, 'n) agent_node \<Rightarrow> agent_id \<Rightarrow> u32 \<Rightarrow> string \<Rightarrow> ('m, 'n) commit_inputs" where
  "rollback_inputs target parent target_id generation created =
     \<lparr>ci_parent_id = Some (n_agent_id parent), ci_generation = generation, ci_created_at = created,
      ci_mutation_intent = intent_rollback target_id, ci_mutation_diff = [],
      ci_allowed_scope = n_allowed_scope target, ci_eval_results = None,
      ci_artifact = n_artifact target, ci_status = Promoted, ci_parent_agent_success = True,
      ci_valid_parent = True, ci_eval_stage = None\<rparr>"

definition commit_rollback ::
  "('m, 'n, 'k) ext \<Rightarrow> ('s, 'm, 'n, 'k) veh \<Rightarrow> agent_id \<Rightarrow> string \<Rightarrow> ('s, ('m, 'n) agent_node) op" where
  "commit_rollback X v target_id created =
     op_bind (op_lift (rollback_target_node X v target_id)) (\<lambda>target.
     op_bind (op_lift (\<lambda>s. res_bind (ls_head (v_ledger v) s)
       (ok_or (LedgerError ''ledger has no head; nothing to roll back'')))) (\<lambda>parent_id.
     op_bind (op_lift (ls_get (v_ledger v) parent_id)) (\<lambda>parent.
     op_bind (op_lift (\<lambda>_. u32_succ X (n_generation parent))) (\<lambda>generation.
     sign_and_append X v (rollback_inputs target parent target_id generation created)
       (v_signing_key v)))))"


section \<open>The fields of commit inputs\<close>

lemmas commit_inputs_defs =
  root_inputs_def promoted_inputs_def rejected_inputs_def resume_inputs_def rollback_inputs_def

lemma commit_inputs_status [simp]:
  "ci_status (root_inputs a sc t) = Promoted"
  "ci_status (promoted_inputs X p g i c sc t d ev) = Promoted"
  "ci_status (rejected_inputs X p g i c sc t d ev) = Rejected"
  "ci_status (resume_inputs pa g) = Promoted"
  "ci_status (rollback_inputs tg p aid g t) = Promoted"
  by (simp_all add: commit_inputs_defs)

text \<open>What a signature run leaves in the node, bundled for the clients below.\<close>

lemma sign_node_simps:
  assumes "sign_node X ci key = Inr n"
  shows "n_status n = ci_status ci" "n_artifact n = ci_artifact ci" "n_parent_id n = ci_parent_id ci"
    "n_generation n = ci_generation ci" "n_allowed_scope n = ci_allowed_scope ci"
    "n_valid_parent n = ci_valid_parent ci" "n_eval_stage n = ci_eval_stage ci"
    "n_eval_results n = ci_eval_results ci" "n_mutation_intent n = ci_mutation_intent ci"
    "n_mutation_diff n = ci_mutation_diff ci" "n_created_at n = ci_created_at ci"
    "n_parent_agent_success n = ci_parent_agent_success ci"
    "n_capability_sbom n = capability_sbom X (ci_artifact ci)"
    "n_signer_public_key n = x_hex_encode X (x_verifying_key X key)"
    "inputs_of_node n = ci"
  using assms by (auto simp: sign_node_def Let_def inputs_of_node_def res_bind_Inr_iff)


section \<open>The branches of a cycle\<close>

definition pending_of ::
  "('m, 'n, 'k) ext \<Rightarrow> ('m, 'n) cycle_inputs \<Rightarrow> string \<Rightarrow> 'n eval_result \<Rightarrow> string \<Rightarrow> ('m, 'n) pending_approval" where
  "pending_of X inp diff eval reason =
     \<lparr>pa_parent_id = Some (n_agent_id (cy_parent inp)),
      pa_parent_generation = n_generation (cy_parent inp), pa_intent = cy_intent inp,
      pa_candidate = cy_candidate inp, pa_allowed_scope = cy_allowed_scope inp,
      pa_created_at = cy_created_at inp, pa_eval_results = eval_to_json X eval,
      pa_mutation_diff = diff, pa_decision_reason = reason\<rparr>"

abbreviation cycle_promoted_inputs ::
  "('m, 'n, 'k) ext \<Rightarrow> ('m, 'n) cycle_inputs \<Rightarrow> u32 \<Rightarrow> string \<Rightarrow> 'n eval_result \<Rightarrow> ('m, 'n) commit_inputs" where
  "cycle_promoted_inputs X inp g diff eval \<equiv>
     promoted_inputs X (cy_parent inp) g (cy_intent inp) (cy_candidate inp) (cy_allowed_scope inp)
       (cy_created_at inp) diff eval"

abbreviation cycle_rejected_inputs ::
  "('m, 'n, 'k) ext \<Rightarrow> ('m, 'n) cycle_inputs \<Rightarrow> u32 \<Rightarrow> string \<Rightarrow> 'n eval_result \<Rightarrow> ('m, 'n) commit_inputs" where
  "cycle_rejected_inputs X inp g diff eval \<equiv>
     rejected_inputs X (cy_parent inp) g (cy_intent inp) (cy_candidate inp) (cy_allowed_scope inp)
       (cy_created_at inp) diff eval"

text \<open>The decision a cycle reaches once it has the diff and the evaluation.\<close>

abbreviation gate_decision ::
  "('m, 'n, 'k) ext \<Rightarrow> ('s, 'm, 'n, 'k) veh \<Rightarrow> ('m, 'n) cycle_inputs \<Rightarrow> policy_decision res" where
  "gate_decision X v inp \<equiv>
     v_policy v (cy_parent inp) (cy_intent inp) (capability_sbom X (cy_candidate inp))"

lemma run_cycle_Inr:
  assumes "run_cycle X v inp s = (Inr out, s')"
  obtains
    (promoted) diff eval g n where "out = Cycle_Promoted n eval"
      "manifest_diff X (n_artifact (cy_parent inp)) (cy_candidate inp) = Inr diff"
      "ev_evaluate (v_evaluator v) (cy_candidate inp) = Inr eval"
      "not_improved X (v_strict v) (cy_parent inp) eval = None"
      "gate_decision X v inp = Inr Approve"
      "u32_succ X (n_generation (cy_parent inp)) = Inr g"
      "sign_and_append X v (cycle_promoted_inputs X inp g diff eval) (v_signing_key v) s = (Inr n, s')"
  | (rejected) diff eval g n reason where "out = Cycle_Rejected n reason"
      "manifest_diff X (n_artifact (cy_parent inp)) (cy_candidate inp) = Inr diff"
      "ev_evaluate (v_evaluator v) (cy_candidate inp) = Inr eval"
      "not_improved X (v_strict v) (cy_parent inp) eval \<noteq> None \<or> gate_decision X v inp = Inr (Deny reason)"
      "u32_succ X (n_generation (cy_parent inp)) = Inr g"
      "sign_and_append X v (cycle_rejected_inputs X inp g diff eval) (v_signing_key v) s = (Inr n, s')"
  | (awaiting) diff eval reason where "out = Awaiting_Approval (pending_of X inp diff eval reason)"
      "manifest_diff X (n_artifact (cy_parent inp)) (cy_candidate inp) = Inr diff"
      "ev_evaluate (v_evaluator v) (cy_candidate inp) = Inr eval"
      "not_improved X (v_strict v) (cy_parent inp) eval = None"
      "gate_decision X v inp = Inr (RequireApproval reason)" "s' = s"
proof -
  from assms obtain diff eval where d: "manifest_diff X (n_artifact (cy_parent inp)) (cy_candidate inp) = Inr diff"
      "ev_evaluate (v_evaluator v) (cy_candidate inp) = Inr eval"
    by (auto simp: run_cycle_def Let_def op_bind_Inr_iff)
  note [simp] = run_cycle_def Let_def op_bind_Inr_iff d commit_promoted_def commit_rejected_def
  show thesis
  proof (cases "not_improved X (v_strict v) (cy_parent inp) eval")
    case (Some ps)
    with assms show thesis by (auto intro: rejected [OF _ d])
  next
    case None
    with assms obtain decision where "gate_decision X v inp = Inr decision" by auto
    then show thesis
      using assms None
      by (cases decision)
        (auto simp: pending_of_def intro: promoted [OF _ d] rejected [OF _ d] awaiting [OF _ d])
  qed
qed

lemma run_cycle_Inl:
  assumes "run_cycle X v inp s = (Inl e, s')"
  obtains "s' = s" | ci key where "sign_and_append X v ci key s = (Inl e, s')"
proof (cases "manifest_diff X (n_artifact (cy_parent inp)) (cy_candidate inp)")
  case (Inl e')
  with assms show thesis by (intro that(1)) (simp add: run_cycle_def Let_def op_bind_Inl_iff)
next
  case diff: (Inr diff)
  note [simp] = run_cycle_def Let_def op_bind_Inl_iff commit_promoted_def commit_rejected_def diff
  show thesis
  proof (cases "ev_evaluate (v_evaluator v) (cy_candidate inp)")
    case (Inl e')
    with assms show thesis by (intro that(1)) simp
  next
    case eval: (Inr eval)
    show thesis
    proof (cases "not_improved X (v_strict v) (cy_parent inp) eval")
      case (Some ps)
      with assms eval show thesis by (auto intro: that)
    next
      case None
      show thesis
      proof (cases "gate_decision X v inp")
        case (Inl e')
        with assms eval None show thesis by (auto intro: that)
      next
        case (Inr decision)
        with assms eval None show thesis by (cases decision) (auto intro: that)
      qed
    qed
  qed
qed


section \<open>Effects on the abstract ledger\<close>

context lineage_contract
begin

text \<open>\<open>committed\<close>: the node was signed over the inputs with the key, and appended.\<close>

definition committed ::
  "('m, 'n, 'k) ext \<Rightarrow> ('m, 'n) commit_inputs \<Rightarrow> 'k \<Rightarrow> 's \<Rightarrow> ('m, 'n) agent_node \<Rightarrow> 's \<Rightarrow> bool" where
  "committed X ci key s n s' \<longleftrightarrow>
     sign_node X ci key = Inr n \<and> n_agent_id n \<notin> set (ids (entries s)) \<and>
     inv s' \<and> entries s' = entries s @ [n] \<and> hd_of s' = pushed n (hd_of s)"

definition untouched :: "'s \<Rightarrow> 's \<Rightarrow> bool" where
  "untouched s s' \<longleftrightarrow> inv s' \<and> entries s' = entries s \<and> hd_of s' = hd_of s"

lemma untouched_refl [simp]: "inv s \<Longrightarrow> untouched s s"
  by (simp add: untouched_def)

lemma sign_and_append_ok:
  assumes "v_ledger v = S" and "inv s" and "sign_and_append X v ci key s = (Inr n, s')"
  shows "committed X ci key s n s'"
proof -
  have "sign_node X ci key = Inr n \<and> ls_append S n s = (Inr (), s')"
    using assms(1,3) by (auto simp: sign_and_append_def op_bind_Inr_iff)
  then show ?thesis
    using append_ok [of s n s'] append_fresh [of s n s'] assms(2) by (simp add: committed_def)
qed

lemma sign_and_append_err:
  assumes "v_ledger v = S" and "inv s" and "sign_and_append X v ci key s = (Inl e, s')"
  shows "untouched s s'"
proof -
  have "s' = s \<or> (\<exists>n. ls_append S n s = (Inl e, s'))"
    using assms(1,3) by (auto simp: sign_and_append_def op_bind_Inl_iff)
  then show ?thesis
    using append_err [of s _ e s'] assms(2) by (auto simp: untouched_def)
qed

lemma commit_root_ok:
  assumes "v_ledger v = S" and "inv s" and "commit_root X v a sc t s = (Inr n, s')"
  shows "committed X (root_inputs a sc t) (v_signing_key v) s n s'"
  using assms sign_and_append_ok by (simp add: commit_root_def)

lemma resume_ok:
  assumes "v_ledger v = S" and "inv s" and "resume_with_approval X v p key s = (Inr n, s')"
  obtains g where "u32_succ X (pa_parent_generation p) = Inr g"
    and "committed X (resume_inputs p g) key s n s'"
proof -
  from assms(3) obtain g where g: "u32_succ X (pa_parent_generation p) = Inr g"
      and c: "sign_and_append X v (resume_inputs p g) key s = (Inr n, s')"
    by (auto simp: resume_with_approval_def op_bind_Inr_iff)
  show thesis by (rule that [OF g sign_and_append_ok [OF assms(1,2) c]])
qed

lemma rollback_node_iff:
  assumes "v_ledger v = S" and "inv s"
  shows "rollback_target_node X v i s = Inr n \<longleftrightarrow>
     n \<in> set (entries s) \<and> n_agent_id n = i \<and> verify_node X n = Inr () \<and> n_status n = Promoted"
  using assms get_mem [of s i n]
  by (auto simp: rollback_target_node_def res_bind_Inr_iff split: if_splits)

lemma rollback_to_ok:
  assumes "v_ledger v = S" and "inv s" and "rollback_to X v i s = (Inr (), s')"
  shows "(\<exists>n \<in> set (entries s). n_agent_id n = i \<and> verify_node X n = Inr () \<and> n_status n = Promoted) \<and>
     inv s' \<and> entries s' = entries s \<and> hd_of s' = Some i"
proof -
  from assms obtain n where n: "rollback_target_node X v i s = Inr n" and set: "ls_set_head S i s = (Inr (), s')"
    by (auto simp: rollback_to_def op_bind_Inr_iff)
  then have mem: "n \<in> set (entries s)" "n_agent_id n = i" "verify_node X n = Inr ()" "n_status n = Promoted"
    using rollback_node_iff [OF assms(1,2)] by blast+
  then show ?thesis
    using set_head_ok [OF assms(2), of i] set by auto
qed

lemma rollback_to_total:
  assumes "v_ledger v = S" and "inv s" and "n \<in> set (entries s)"
    and "verify_node X n = Inr ()" and "n_status n = Promoted"
  obtains s' where "rollback_to X v (n_agent_id n) s = (Inr (), s')"
proof -
  have "rollback_target_node X v (n_agent_id n) s = Inr n"
    using rollback_node_iff [OF assms(1,2)] assms(3-5) by blast
  moreover obtain s' where "ls_set_head S (n_agent_id n) s = (Inr (), s')"
    using set_head_ok [OF assms(2), of "n_agent_id n"] assms(3) by auto
  ultimately show ?thesis
    using assms(1) by (intro that [of s']) (simp add: rollback_to_def op_bind_def)
qed

lemma rollback_to_err:
  assumes "v_ledger v = S" and "inv s" and "rollback_to X v i s = (Inl e, s')"
  shows "s' = s"
proof (cases "i \<in> set (ids (entries s))")
  case True
  from set_head_ok [OF assms(2) True] assms(3) show ?thesis
    by (auto simp: rollback_to_def op_bind_Inl_iff assms(1))
next
  case False
  from set_head_err [OF assms(2) False] assms(3) show ?thesis
    by (auto simp: rollback_to_def op_bind_Inl_iff assms(1))
qed

lemma commit_rollback_ok:
  assumes "v_ledger v = S" and "inv s" and "commit_rollback X v i t s = (Inr n, s')"
  obtains target parent g where "target \<in> set (entries s)" "n_agent_id target = i"
    "verify_node X target = Inr ()" "n_status target = Promoted"
    "hd_of s = Some (n_agent_id parent)" "parent \<in> set (entries s)"
    "u32_succ X (n_generation parent) = Inr g"
    "committed X (rollback_inputs target parent i g t) (v_signing_key v) s n s'"
proof -
  from assms obtain target pid parent g where
      t: "rollback_target_node X v i s = Inr target"
    and h: "hd_of s = Some pid" and p: "ls_get S pid s = Inr parent"
    and g: "u32_succ X (n_generation parent) = Inr g"
    and c: "sign_and_append X v (rollback_inputs target parent i g t) (v_signing_key v) s = (Inr n, s')"
    by (auto simp: commit_rollback_def op_bind_Inr_iff head_eq res_bind_Inr_iff ok_or_Inr_iff)
  have "committed X (rollback_inputs target parent i g t) (v_signing_key v) s n s'"
    by (rule sign_and_append_ok [OF assms(1,2) c])
  moreover have "target \<in> set (entries s)" "n_agent_id target = i" "verify_node X target = Inr ()"
      "n_status target = Promoted"
    using t by (simp_all add: rollback_node_iff [OF assms(1,2)])
  moreover have "parent \<in> set (entries s)" "hd_of s = Some (n_agent_id parent)"
    using p h by (simp_all add: get_mem [OF assms(2)])
  ultimately show thesis using g by (intro that)
qed

lemma run_cycle_err:
  assumes "v_ledger v = S" and "inv s" and "run_cycle X v inp s = (Inl e, s')"
  shows "untouched s s'"
  using assms(3)
proof (cases rule: run_cycle_Inl)
  case 1
  then show ?thesis using assms(2) by simp
next
  case 2
  then show ?thesis using sign_and_append_err [OF assms(1,2)] by blast
qed

lemma commit_root_err:
  assumes "v_ledger v = S" and "inv s" and "commit_root X v a sc t s = (Inl e, s')"
  shows "untouched s s'"
  using assms sign_and_append_err by (simp add: commit_root_def)

lemma resume_err:
  assumes "v_ledger v = S" and "inv s" and "resume_with_approval X v p key s = (Inl e, s')"
  shows "untouched s s'"
proof -
  from assms(3) consider "s' = s" | g where "sign_and_append X v (resume_inputs p g) key s = (Inl e, s')"
    by (auto simp: resume_with_approval_def op_bind_Inl_iff)
  then show ?thesis
    using sign_and_append_err [OF assms(1,2)] assms(2) by cases auto
qed

lemma commit_rollback_err:
  assumes "v_ledger v = S" and "inv s" and "commit_rollback X v i t s = (Inl e, s')"
  shows "untouched s s'"
proof -
  from assms(3) consider "s' = s"
    | ci where "sign_and_append X v ci (v_signing_key v) s = (Inl e, s')"
    unfolding commit_rollback_def by (elim op_bind_lift_InlE) blast+
  then show ?thesis
    using sign_and_append_err [OF assms(1,2)] assms(2) by cases auto
qed

end


section \<open>Progress\<close>

lemma sign_and_append_progress:
  assumes "json_text_laws X" and "manifest_laws X" and "wf_inputs ci"
    and store: "v_ledger v = mem_store X" and wf: "mem_wf s"
    and fresh: "\<And>n. sign_node X ci key = Inr n \<Longrightarrow> n_agent_id n \<notin> set (ids (mem_entries s))"
  obtains n s' where "sign_and_append X v ci key s = (Inr n, s')" and "sign_node X ci key = Inr n"
proof -
  obtain n where n: "sign_node X ci key = Inr n"
    using sign_node_total [OF assms(1-3)] .
  then have "node_at (mem_entries s) (n_agent_id n) = None"
    using fresh by (simp add: node_at_None_iff)
  then have new: "im_nodes s (n_agent_id n) = None"
    using mem_wf_lookup [OF wf] by simp
  obtain s' where "mem_append n s = (Inr (), s')"
    using mem_append_fresh [OF wf new] .
  then show thesis
    using n store by (intro that) (simp_all add: sign_and_append_def)
qed

lemma wf_promoted_inputs [simp]:
  "wf_inputs (promoted_inputs X p g i c sc t d ev) \<longleftrightarrow> wf_intent i \<and> wf_json (er_details ev)"
  by (simp add: wf_inputs_def promoted_inputs_def)

lemma wf_rejected_inputs [simp]:
  "wf_inputs (rejected_inputs X p g i c sc t d ev) \<longleftrightarrow> wf_intent i \<and> wf_json (er_details ev)"
  by (simp add: wf_inputs_def rejected_inputs_def)

lemma manifest_diff_total:
  assumes "json_text_laws X" and "manifest_laws X"
  obtains d where "manifest_diff X a b = Inr d"
proof -
  obtain ja jb where "x_man_to_json X (manifest a) = Inr ja" "wf_json ja"
      "x_man_to_json X (manifest b) = Inr jb" "wf_json jb"
    using assms(2) unfolding manifest_laws_def by blast
  then show thesis
    using that by (simp add: manifest_diff_def canonical_bytes_def canonical_json_render [OF assms(1)])
qed


lemma run_cycle_progress:
  assumes "json_text_laws X" and "manifest_laws X"
    and "v_ledger v = mem_store X" and "mem_wf s"
    and "wf_intent (cy_intent inp)" and "n_generation (cy_parent inp) \<noteq> - 1"
    and "ev_evaluate (v_evaluator v) (cy_candidate inp) = Inr eval" and "wf_json (er_details eval)"
    and "gate_decision X v inp = Inr decision"
    and fresh: "\<forall>g d n. u32_succ X (n_generation (cy_parent inp)) = Inr g \<longrightarrow>
       manifest_diff X (n_artifact (cy_parent inp)) (cy_candidate inp) = Inr d \<longrightarrow>
       sign_node X (cycle_promoted_inputs X inp g d eval) (v_signing_key v) = Inr n \<or>
       sign_node X (cycle_rejected_inputs X inp g d eval) (v_signing_key v) = Inr n \<longrightarrow>
       n_agent_id n \<notin> set (ids (mem_entries s))"
  shows "\<exists>out. fst (run_cycle X v inp s) = Inr out \<and>
     (if not_improved X (v_strict v) (cy_parent inp) eval \<noteq> None \<or> (\<exists>r. decision = Deny r)
      then \<exists>n r. out = Cycle_Rejected n r
      else if decision = Approve then \<exists>n. out = Cycle_Promoted n eval
      else \<exists>p. out = Awaiting_Approval p)"
proof -
  obtain d where d: "manifest_diff X (n_artifact (cy_parent inp)) (cy_candidate inp) = Inr d"
    using manifest_diff_total [OF assms(1,2)] .
  let ?g = "n_generation (cy_parent inp) + 1"
  have g: "u32_succ X (n_generation (cy_parent inp)) = Inr ?g"
    using assms(6) by (rule u32_succ_below)
  obtain np sp where p: "sign_and_append X v (cycle_promoted_inputs X inp ?g d eval) (v_signing_key v) s = (Inr np, sp)"
    using sign_and_append_progress [OF assms(1,2) _ assms(3,4)] assms(5,8) fresh d g by (metis wf_promoted_inputs)
  obtain nr sr where r: "sign_and_append X v (cycle_rejected_inputs X inp ?g d eval) (v_signing_key v) s = (Inr nr, sr)"
    using sign_and_append_progress [OF assms(1,2) _ assms(3,4)] assms(5,8) fresh d g by (metis wf_rejected_inputs)
  show ?thesis
    using assms(7,9) d g p r
    by (cases "not_improved X (v_strict v) (cy_parent inp) eval"; cases decision)
      (simp_all add: run_cycle_def Let_def commit_promoted_def commit_rejected_def op_bind_def)
qed


section \<open>Properties\<close>

definition demo_veh :: "f64 \<Rightarrow> ((demo_manifest, demo_num) mem_inner, demo_manifest, demo_num, char) veh" where
  "demo_veh score = veh_new (demo_ext True) (mem_store (demo_ext True)) (stub_evaluator score) (CHR ''k'')"

lemma demo_veh_simps [simp]:
  "v_ledger (demo_veh score) = mem_store (demo_ext True)"
  "ev_evaluate (v_evaluator (demo_veh score)) = stub_evaluate score"
  "v_policy (demo_veh score) = default_evaluate (demo_ext True)"
  "v_signing_key (demo_veh score) = CHR ''k''"
  "v_strict (demo_veh score)"
  by (simp_all add: demo_veh_def veh_new_def stub_evaluator_def)

definition demo_cycle ::
  "(demo_manifest, demo_num) agent_node \<Rightarrow> string list \<Rightarrow> (demo_manifest, demo_num) cycle_inputs" where
  "demo_cycle parent tools =
     \<lparr>cy_parent = parent, cy_intent = intent_new ''tighten'', cy_candidate = artifact_new (demo_man tools),
      cy_allowed_scope = scope_default, cy_created_at = ''2026-01-01T00:01:00Z''\<rparr>"

lemma demo_cycle_simps [simp]:
  "cy_parent (demo_cycle parent tools) = parent"
  "cy_intent (demo_cycle parent tools) = intent_new ''tighten''"
  "cy_candidate (demo_cycle parent tools) = artifact_new (demo_man tools)"
  "cy_allowed_scope (demo_cycle parent tools) = scope_default"
  by (simp_all add: demo_cycle_def)

text \<open>A parent, and the three outcomes of a cycle from it on an empty ledger.\<close>

definition demo_parent :: "(demo_manifest, demo_num) agent_node" where
  "demo_parent = demo_node [''a''] Promoted (CHR ''k'')"

lemma demo_parent_simps [simp]:
  "n_generation demo_parent = 0" "n_eval_results demo_parent = None"
  "n_allowed_scope demo_parent = scope_default"
  "n_capability_sbom demo_parent = capability_sbom (demo_ext True) (artifact_new (demo_man [''a'']))"
  "n_status demo_parent = Promoted"
  using sign_node_simps [OF demo_node_signed, of "[''a'']" Promoted "CHR ''k''"]
  by (simp_all add: demo_inputs_def demo_parent_def)

lemma demo_not_improved [simp]: "not_improved (demo_ext True) True demo_parent eval = None"
  by (simp add: not_improved_def recorded_score_def)

lemma demo_approve: "default_evaluate (demo_ext True) demo_parent (intent_new ''tighten'')
    (capability_sbom (demo_ext True) (artifact_new (demo_man [''a'']))) = Inr Approve"
  by (simp add: default_evaluate_Approve_iff depth_overflows_def depth_exceeded_def widens_def gated_def
      scope_default_def del: demo_ext_simps)

lemma demo_require: "\<exists>r. default_evaluate (demo_ext True) demo_parent (intent_new ''tighten'')
    (capability_sbom (demo_ext True) (artifact_new (demo_man [''b'']))) = Inr (RequireApproval r)"
  by (rule default_evaluate_cases(3))
    (auto simp: depth_overflows_def depth_exceeded_def widens_def scope_default_def
      scope_capabilities_def capability_set_def tool_capability_def artifact_new_def)

lemma demo_promoted:
  obtains n s' where "run_cycle (demo_ext True) (demo_veh 1) (demo_cycle demo_parent [''a'']) mem_new
    = (Inr (Cycle_Promoted n (from_score 1)), s')"
proof -
  have "\<exists>out. fst (run_cycle (demo_ext True) (demo_veh 1) (demo_cycle demo_parent [''a'']) mem_new) = Inr out \<and>
      (\<exists>n. out = Cycle_Promoted n (from_score 1))"
    using run_cycle_progress [of "demo_ext True" "demo_veh 1" mem_new "demo_cycle demo_parent [''a'']" "from_score 1"]
      demo_approve by (simp add: stub_evaluate_def from_score_def)
  then show thesis
    using that by (metis prod.collapse)
qed

lemma demo_awaiting:
  obtains p s' where "run_cycle (demo_ext True) (demo_veh 1) (demo_cycle demo_parent [''b'']) mem_new
    = (Inr (Awaiting_Approval p), s')"
proof -
  obtain r where r: "default_evaluate (demo_ext True) demo_parent (intent_new ''tighten'')
      (capability_sbom (demo_ext True) (artifact_new (demo_man [''b'']))) = Inr (RequireApproval r)"
    using demo_require ..
  have "\<exists>out. fst (run_cycle (demo_ext True) (demo_veh 1) (demo_cycle demo_parent [''b'']) mem_new) = Inr out \<and>
      (\<exists>p. out = Awaiting_Approval p)"
    using run_cycle_progress [of "demo_ext True" "demo_veh 1" mem_new "demo_cycle demo_parent [''b'']" "from_score 1"] r
    by (simp add: stub_evaluate_def from_score_def)
  then show thesis
    using that by (metis prod.collapse)
qed

text \<open>
  C6: A promotion is earned: the gate approved the candidate's SBOM against the parent; under the strict
  rule, when the parent has a recorded score, the candidate's score did not compare as at most that, so
  it exceeded it unless one of the two is not a number; and the ledger gained exactly the signed node of
  the candidate, a verified child of the parent, as its new head.
\<close>

theorem run_cycle_promoted:
  assumes "crypto_laws X" and "v_ledger v = mem_store X" and "mem_wf s"
    and "run_cycle X v inp s = (Inr (Cycle_Promoted n eval), s')"
  shows "gate_decision X v inp = Inr Approve \<and> ev_evaluate (v_evaluator v) (cy_candidate inp) = Inr eval \<and>
     not_improved X (v_strict v) (cy_parent inp) eval = None \<and>
     (\<forall>parent_score. v_strict v \<and> recorded_score X (cy_parent inp) = Some parent_score \<longrightarrow>
        \<not> er_score eval \<le> parent_score \<and>
        (parent_score < er_score eval \<or> f64_is_nan (er_score eval) \<or> f64_is_nan parent_score)) \<and>
     mem_wf s' \<and> mem_entries s' = mem_entries s @ [n] \<and> im_head s' = Some (n_agent_id n) \<and>
     verify_node X n = Inr () \<and> n_status n = Promoted \<and> n_valid_parent n \<and>
     n_artifact n = cy_candidate inp \<and> n_parent_id n = Some (n_agent_id (cy_parent inp)) \<and>
     n_generation n = n_generation (cy_parent inp) + 1 \<and> n_allowed_scope n = cy_allowed_scope inp \<and>
     n_mutation_intent n = cy_intent inp"
  using assms(4)
proof (cases rule: run_cycle_Inr)
  case (promoted diff ev g m)
  then have c: "mem.committed X (cycle_promoted_inputs X inp g diff eval) (v_signing_key v) s n s'"
    using mem.sign_and_append_ok [OF assms(2,3)] by auto
  then have n: "sign_node X (cycle_promoted_inputs X inp g diff eval) (v_signing_key v) = Inr n"
    by (simp add: mem.committed_def)
  have "\<forall>parent_score. v_strict v \<and> recorded_score X (cy_parent inp) = Some parent_score \<longrightarrow>
        \<not> er_score eval \<le> parent_score \<and>
        (parent_score < er_score eval \<or> f64_is_nan (er_score eval) \<or> f64_is_nan parent_score)"
    using not_improved_None [of X "v_strict v" "cy_parent inp" eval] promoted by blast
  then show ?thesis
    using c promoted sign_node_simps [OF n] sign_node_verifies [OF assms(1) n] u32_succ_Inr
    by (simp add: mem.committed_def pushed_def promoted_inputs_def)
qed simp_all

theorem run_cycle_promoted_witness:
  "\<exists>n s'. run_cycle (demo_ext True) (demo_veh 1) (demo_cycle demo_parent [''a'']) mem_new
       = (Inr (Cycle_Promoted n (from_score 1)), s') \<and> mem_entries s' = [n] \<and> verify_node (demo_ext True) n = Inr ()"
proof -
  obtain n s' where "run_cycle (demo_ext True) (demo_veh 1) (demo_cycle demo_parent [''a'']) mem_new
      = (Inr (Cycle_Promoted n (from_score 1)), s')"
    by (rule demo_promoted)
  then show ?thesis
    using run_cycle_promoted [of "demo_ext True" "demo_veh 1" mem_new "demo_cycle demo_parent [''a'']" n] by auto
qed

text \<open>
  C16: A rejection is a negative cache entry: it happens only when FR-5 or the gate said so, and the
  ledger gains one verified node with status \<open>Rejected\<close> that is no valid parent, while the head stays.
\<close>

theorem run_cycle_rejected:
  assumes "crypto_laws X" and "v_ledger v = mem_store X" and "mem_wf s"
    and "run_cycle X v inp s = (Inr (Cycle_Rejected n reason), s')"
  shows "((\<exists>eval. ev_evaluate (v_evaluator v) (cy_candidate inp) = Inr eval \<and>
            not_improved X (v_strict v) (cy_parent inp) eval \<noteq> None) \<or>
         gate_decision X v inp = Inr (Deny reason)) \<and>
     mem_wf s' \<and> mem_entries s' = mem_entries s @ [n] \<and> im_head s' = im_head s \<and>
     verify_node X n = Inr () \<and> n_status n = Rejected \<and> \<not> n_valid_parent n \<and>
     n_artifact n = cy_candidate inp \<and> n_parent_id n = Some (n_agent_id (cy_parent inp))"
  using assms(4)
proof (cases rule: run_cycle_Inr)
  case (rejected diff eval g m r)
  then have c: "mem.committed X (cycle_rejected_inputs X inp g diff eval) (v_signing_key v) s n s'"
    using mem.sign_and_append_ok [OF assms(2,3)] by auto
  then have n: "sign_node X (cycle_rejected_inputs X inp g diff eval) (v_signing_key v) = Inr n"
    by (simp add: mem.committed_def)
  show ?thesis
    using c rejected sign_node_simps [OF n] sign_node_verifies [OF assms(1) n]
    by (auto simp: mem.committed_def pushed_def rejected_inputs_def)
qed simp_all

definition demo_scored :: "(demo_manifest, demo_num) agent_node" where
  "demo_scored = demo_parent\<lparr>n_eval_results := Some (eval_to_json (demo_ext True) (from_score 1))\<rparr>"

lemma demo_scored_simps [simp]:
  "n_generation demo_scored = 0" "n_allowed_scope demo_scored = scope_default"
  "n_capability_sbom demo_scored = capability_sbom (demo_ext True) (artifact_new (demo_man [''a'']))"
  by (simp_all add: demo_scored_def)

lemma demo_scored_score: "recorded_score (demo_ext True) demo_scored = Some 1"
proof -
  have "f64_is_finite 1" by (simp add: f64_eval)
  then show ?thesis
    by (simp add: recorded_score_def demo_scored_def from_score_def json_of_f64_as_f64 del: demo_ext_simps)
qed

lemma demo_rejected:
  obtains n r s' where "run_cycle (demo_ext True) (demo_veh 1) (demo_cycle demo_scored [''a'']) mem_new
    = (Inr (Cycle_Rejected n r), s')"
proof -
  have no: "not_improved (demo_ext True) True demo_scored (from_score 1) = Some 1"
    by (simp add: not_improved_def demo_scored_score from_score_def f64_eval)
  have ap: "default_evaluate (demo_ext True) demo_scored (intent_new ''tighten'')
      (capability_sbom (demo_ext True) (artifact_new (demo_man [''a'']))) = Inr Approve"
    by (simp add: default_evaluate_Approve_iff depth_overflows_def depth_exceeded_def widens_def gated_def
        scope_default_def del: demo_ext_simps)
  have "\<exists>out. fst (run_cycle (demo_ext True) (demo_veh 1) (demo_cycle demo_scored [''a'']) mem_new) = Inr out \<and>
      (\<exists>n r. out = Cycle_Rejected n r)"
    using run_cycle_progress [of "demo_ext True" "demo_veh 1" mem_new "demo_cycle demo_scored [''a'']" "from_score 1"]
      no ap by (simp add: stub_evaluate_def from_score_def)
  then show thesis
    using that by (metis prod.collapse)
qed

theorem run_cycle_rejected_witness:
  "\<exists>n r s'. run_cycle (demo_ext True) (demo_veh 1) (demo_cycle demo_scored [''a'']) mem_new
       = (Inr (Cycle_Rejected n r), s') \<and> mem_entries s' = [n] \<and> im_head s' = None"
proof -
  obtain n r s' where "run_cycle (demo_ext True) (demo_veh 1) (demo_cycle demo_scored [''a'']) mem_new
      = (Inr (Cycle_Rejected n r), s')"
    by (rule demo_rejected)
  then show ?thesis
    using run_cycle_rejected [of "demo_ext True" "demo_veh 1" mem_new "demo_cycle demo_scored [''a'']" n] by auto
qed

text \<open>
  C17: A pause changes nothing and loses nothing: when the gate asks for approval the ledger state is
  untouched and the pending value shows the gate's reason; resuming it later commits exactly what a
  direct promotion of the same candidate, diff and evaluation would commit, signed with the approval key.
\<close>

theorem approval_equals_promotion:
  assumes "run_cycle X v inp s = (Inr (Awaiting_Approval p), s')"
  shows "s' = s \<and> gate_decision X v inp = Inr (RequireApproval (pending_reason p)) \<and>
     (\<exists>diff eval. manifest_diff X (n_artifact (cy_parent inp)) (cy_candidate inp) = Inr diff \<and>
        ev_evaluate (v_evaluator v) (cy_candidate inp) = Inr eval \<and>
        (\<forall>key t. resume_with_approval X v p key t =
           commit_promoted X v (cy_parent inp) (cy_intent inp) (cy_candidate inp)
             (cy_allowed_scope inp) (cy_created_at inp) diff eval key t))"
  using assms
proof (cases rule: run_cycle_Inr)
  case (awaiting diff eval reason)
  have "resume_inputs (pending_of X inp diff eval reason) g = cycle_promoted_inputs X inp g diff eval" for g
    by (simp add: resume_inputs_def promoted_inputs_def pending_of_def)
  then have "resume_with_approval X v (pending_of X inp diff eval reason) key t =
           commit_promoted X v (cy_parent inp) (cy_intent inp) (cy_candidate inp)
             (cy_allowed_scope inp) (cy_created_at inp) diff eval key t" for key t
    by (simp add: resume_with_approval_def commit_promoted_def) (simp add: pending_of_def)
  then show ?thesis
    using awaiting by (auto simp: pending_reason_def pending_of_def)
qed simp_all

theorem approval_equals_promotion_witness:
  "\<exists>p. run_cycle (demo_ext True) (demo_veh 1) (demo_cycle demo_parent [''b'']) mem_new
     = (Inr (Awaiting_Approval p), mem_new)"
proof -
  obtain p s' where "run_cycle (demo_ext True) (demo_veh 1) (demo_cycle demo_parent [''b'']) mem_new
      = (Inr (Awaiting_Approval p), s')"
    by (rule demo_awaiting)
  then show ?thesis
    using approval_equals_promotion [of "demo_ext True" "demo_veh 1" "demo_cycle demo_parent [''b'']" mem_new p s']
    by blast
qed

text \<open>
  Approval is attributed: the node a resumed cycle commits verifies, becomes the head, and
  carries the public key of the approval key as its signer.
\<close>

lemma approval_is_attributed:
  assumes "crypto_laws X" and "v_ledger v = mem_store X" and "mem_wf s"
    and "resume_with_approval X v p key s = (Inr n, s')"
  shows "verify_node X n = Inr () \<and> x_hex_decode X (n_signer_public_key n) = Inr (x_verifying_key X key) \<and>
     mem_wf s' \<and> mem_entries s' = mem_entries s @ [n] \<and> im_head s' = Some (n_agent_id n) \<and>
     n_status n = Promoted \<and> n_artifact n = pa_candidate p \<and> n_parent_id n = pa_parent_id p"
proof -
  obtain g where "mem.committed X (resume_inputs p g) key s n s'"
    by (rule mem.resume_ok [OF assms(2-4)])
  then have c: "mem_wf s'" "mem_entries s' = mem_entries s @ [n]" "im_head s' = pushed n (im_head s)"
      and n: "sign_node X (resume_inputs p g) key = Inr n"
    by (simp_all add: mem.committed_def)
  show ?thesis
    using c sign_node_simps [OF n] sign_node_verifies [OF assms(1) n] assms(1)
    by (simp add: pushed_def resume_inputs_def crypto_laws_def)
qed

text \<open>
  C18: Rolling back succeeds exactly on recorded nodes that verify and are promoted; it then moves the
  head to the target and leaves every node in place, and a refused rollback changes nothing.
\<close>

theorem rollback_to_effect:
  assumes "v_ledger v = mem_store X" and "mem_wf s"
  shows "(if \<exists>n \<in> set (mem_entries s). n_agent_id n = i \<and> verify_node X n = Inr () \<and> n_status n = Promoted
      then \<exists>s'. rollback_to X v i s = (Inr (), s') \<and> mem_wf s' \<and> mem_entries s' = mem_entries s \<and>
             im_head s' = Some i
      else \<exists>e. rollback_to X v i s = (Inl e, s))"
proof (cases "\<exists>n \<in> set (mem_entries s). n_agent_id n = i \<and> verify_node X n = Inr () \<and> n_status n = Promoted")
  case True
  then obtain n where n: "n \<in> set (mem_entries s)" "n_agent_id n = i" "verify_node X n = Inr ()"
      "n_status n = Promoted" by blast
  obtain s' where s': "rollback_to X v (n_agent_id n) s = (Inr (), s')"
    by (rule mem.rollback_to_total [OF assms n(1,3,4)])
  then show ?thesis
    using mem.rollback_to_ok [OF assms s'] True n(2) by auto
next
  case False
  obtain r s' where r: "rollback_to X v i s = (r, s')" by fastforce
  show ?thesis
  proof (cases r)
    case (Inl e)
    then have "s' = s" using r by (intro mem.rollback_to_err [OF assms]) simp
    then show ?thesis using r Inl False by auto
  next
    case (Inr u)
    then have "rollback_to X v i s = (Inr (), s')" using r by simp
    then show ?thesis using mem.rollback_to_ok [OF assms] False by blast
  qed
qed

definition demo_ledger :: "(demo_manifest, demo_num) mem_inner" where
  "demo_ledger = snd (mem_append demo_parent mem_new)"

lemma demo_ledger_facts [simp]:
  "mem_wf demo_ledger" "mem_entries demo_ledger = [demo_parent]"
  "im_head demo_ledger = Some (n_agent_id demo_parent)"
proof -
  obtain g where "mem_append demo_parent mem_new = (Inr (), g)" "mem_wf g"
      "mem_entries g = [demo_parent]" "im_head g = pushed demo_parent None"
    by (rule mem_append_fresh [of mem_new demo_parent])
      (simp_all only: mem_new_wf, simp_all add: mem_new_def)
  then show "mem_wf demo_ledger" "mem_entries demo_ledger = [demo_parent]"
      "im_head demo_ledger = Some (n_agent_id demo_parent)"
    by (simp_all add: demo_ledger_def pushed_def)
qed

lemma demo_parent_verifies [simp]: "verify_node (demo_ext True) demo_parent = Inr ()"
  unfolding demo_parent_def by (rule demo_node_verifies)

theorem rollback_to_effect_witness:
  "\<exists>s'. rollback_to (demo_ext True) (demo_veh 1) (n_agent_id demo_parent) demo_ledger = (Inr (), s') \<and>
     mem_entries s' = [demo_parent] \<and> im_head s' = Some (n_agent_id demo_parent)"
  using rollback_to_effect [of "demo_veh 1" "demo_ext True" demo_ledger "n_agent_id demo_parent"]
  by auto

text \<open>
  C19: A signed rollback is a new commit: its target is recorded, verified and promoted, its parent is
  the head, it carries the target's artifact and scope, its intent names the target, and the ledger
  keeps everything it had.
\<close>

theorem commit_rollback_effect:
  assumes "crypto_laws X" and "v_ledger v = mem_store X" and "mem_wf s"
    and "commit_rollback X v i t s = (Inr n, s')"
  shows "\<exists>target parent. target \<in> set (mem_entries s) \<and> n_agent_id target = i \<and>
     verify_node X target = Inr () \<and> n_status target = Promoted \<and>
     parent \<in> set (mem_entries s) \<and> im_head s = Some (n_agent_id parent) \<and>
     n_parent_id n = Some (n_agent_id parent) \<and> n_generation n = n_generation parent + 1 \<and>
     n_artifact n = n_artifact target \<and> n_allowed_scope n = n_allowed_scope target \<and>
     rollback_target (n_mutation_intent n) = Some i \<and> verify_node X n = Inr () \<and>
     mem_entries s' = mem_entries s @ [n] \<and> im_head s' = Some (n_agent_id n)"
proof -
  obtain target parent g where t: "target \<in> set (mem_entries s)" "n_agent_id target = i"
      "verify_node X target = Inr ()" "n_status target = Promoted"
    and p: "im_head s = Some (n_agent_id parent)" "parent \<in> set (mem_entries s)"
    and g: "u32_succ X (n_generation parent) = Inr g"
    and "mem.committed X (rollback_inputs target parent i g t) (v_signing_key v) s n s'"
    by (rule mem.commit_rollback_ok [OF assms(2-4)])
  then have c: "mem_entries s' = mem_entries s @ [n]" "im_head s' = pushed n (im_head s)"
      and n: "sign_node X (rollback_inputs target parent i g t) (v_signing_key v) = Inr n"
    by (simp_all add: mem.committed_def)
  show ?thesis
    using t p c sign_node_simps [OF n] sign_node_verifies [OF assms(1) n] u32_succ_Inr [OF g]
    by (intro exI [of _ target] exI [of _ parent]) (simp add: pushed_def rollback_inputs_def)
qed

lemma demo_rolled_back:
  obtains n s' where "commit_rollback (demo_ext True) (demo_veh 1) (n_agent_id demo_parent) ''t'' demo_ledger
    = (Inr n, s')"
proof -
  let ?ci = "rollback_inputs demo_parent demo_parent (n_agent_id demo_parent) 1 ''t''"
  have wf: "wf_inputs ?ci"
    by (simp add: wf_inputs_def rollback_inputs_def)
  have differ: "\<not> same_content (demo_ext True) ?ci (demo_inputs [''a''] Promoted)"
    by (simp add: same_content_def rollback_inputs_def demo_inputs_def)
  have inj: "inj (x_sha256 (demo_ext True))"
    by (simp add: inj_def)
  have fresh: "n_agent_id n \<notin> set (ids (mem_entries demo_ledger))"
    if "sign_node (demo_ext True) ?ci (CHR ''k'') = Inr n" for n
    using signed_ids_differ [OF demo_json_text_laws demo_json_num_laws demo_manifest_laws demo_crypto_laws
        inj wf wf_demo_inputs that demo_node_signed differ] by (simp add: demo_parent_def)
  obtain n s' where c: "sign_and_append (demo_ext True) (demo_veh 1) ?ci (CHR ''k'') demo_ledger = (Inr n, s')"
    by (rule sign_and_append_progress [OF demo_json_text_laws demo_manifest_laws wf demo_veh_simps(1)
          demo_ledger_facts(1) fresh])
  have "rollback_target_node (demo_ext True) (demo_veh 1) (n_agent_id demo_parent) demo_ledger = Inr demo_parent"
    by (simp add: mem.rollback_node_iff)
  moreover have "mem_get (n_agent_id demo_parent) demo_ledger = Inr demo_parent"
    using mem.get_mem [where s = demo_ledger and i = "n_agent_id demo_parent" and n = demo_parent] by simp
  moreover have "u32_succ (demo_ext True) (n_generation demo_parent) = Inr 1"
    by (simp add: u32_succ_def)
  ultimately show thesis
    using c by (intro that) (simp add: commit_rollback_def op_bind_def mem_head_def)
qed

theorem commit_rollback_effect_witness:
  "\<exists>n s'. commit_rollback (demo_ext True) (demo_veh 1) (n_agent_id demo_parent) ''t'' demo_ledger = (Inr n, s') \<and>
     n_artifact n = n_artifact demo_parent \<and> mem_entries s' = [demo_parent, n]"
proof -
  obtain n s' where r: "commit_rollback (demo_ext True) (demo_veh 1) (n_agent_id demo_parent) ''t'' demo_ledger
      = (Inr n, s')"
    by (rule demo_rolled_back)
  then show ?thesis
    using commit_rollback_effect [OF _ _ _ r] by auto
qed

end
