(* ===== verification/Veh_Evidence.thy ===== *)
theory Veh_Evidence
  imports Veh_Graph
begin

text \<open>
  \<^verbatim>\<open>src/evidence.rs\<close>: the policy verdict, operator approvals, the evidence bundle with its builders and
  JSON shape, and the audit record projected from a node. The verdict is an internally tagged enum:
  its name is the value of \<open>outcome\<close>, next to the variant's own field.
\<close>

section \<open>Verdicts and approvals\<close>

definition evidence_bundle_version :: u32 where
  "evidence_bundle_version = 1"

datatype policy_verdict = Approved string | Denied string | Requires_Approval string

definition verdict_of_decision :: "policy_decision \<Rightarrow> policy_verdict" where
  "verdict_of_decision d = (case d of
       Approve \<Rightarrow> Approved ''approved''
     | Deny reason \<Rightarrow> Denied reason
     | RequireApproval reason \<Rightarrow> Requires_Approval reason)"

record operator_approval =
  oa_operator :: string
  oa_note :: string

definition operator_approval_new :: "string \<Rightarrow> string \<Rightarrow> operator_approval" where
  "operator_approval_new operator note = \<lparr>oa_operator = operator, oa_note = note\<rparr>"

definition verdict_to_json :: "policy_verdict \<Rightarrow> 'n json" where
  "verdict_to_json v = (case v of
       Approved r \<Rightarrow> JObject [(''outcome'', JString ''approved''), (''reason'', JString r)]
     | Denied r \<Rightarrow> JObject [(''outcome'', JString ''denied''), (''reason'', JString r)]
     | Requires_Approval r \<Rightarrow> JObject [(''outcome'', JString ''requires_approval''), (''reason'', JString r)])"

definition verdict_variant :: "string \<Rightarrow> json_fault + (string \<Rightarrow> policy_verdict)" where
  "verdict_variant t = ok_or (Unknown_Variant t)
     (map_of [(''approved'', Approved), (''denied'', Denied), (''requires_approval'', Requires_Approval)] t)"

definition verdict_body :: "'n json \<Rightarrow> 'n json \<Rightarrow> json_fault + policy_verdict" where
  "verdict_body tag body =
     res_bind (dec_string tag) (\<lambda>t.
     res_bind (verdict_variant t) (\<lambda>variant.
     res_bind (struct_view [''reason''] body) (\<lambda>w.
     res_bind (field_req w ''reason'' dec_string) (\<lambda>r. Inr (variant r)))))"

definition verdict_from_json :: "('n, policy_verdict) decoder" where
  "verdict_from_json j = (case j of
       JObject m \<Rightarrow>
         (case map_of m ''outcome'' of
            None \<Rightarrow> Inl (Missing_Field ''outcome'')
          | Some tag \<Rightarrow> verdict_body tag (JObject (filter (\<lambda>(k, _). k \<noteq> ''outcome'') m)))
     | JArray (tag # rest) \<Rightarrow> verdict_body tag (JArray rest)
     | JArray [] \<Rightarrow> Inl (Missing_Field ''outcome'')
     | _ \<Rightarrow> Inl (Invalid_Type ''internally tagged enum PolicyVerdict''))"

definition approval_to_json :: "operator_approval \<Rightarrow> 'n json" where
  "approval_to_json a = JObject [(''operator'', JString (oa_operator a)), (''note'', JString (oa_note a))]"

definition approval_from_json :: "('n, operator_approval) decoder" where
  "approval_from_json j =
     res_bind (struct_view [''operator'', ''note''] j) (\<lambda>w.
     res_bind (field_req w ''operator'' dec_string) (\<lambda>p.
     res_bind (field_req w ''note'' dec_string) (\<lambda>n.
     Inr \<lparr>oa_operator = p, oa_note = n\<rparr>)))"


section \<open>Bundles\<close>

record 'n evidence_bundle =
  eb_version :: u32
  eb_policy :: policy_verdict
  eb_evaluator_report :: "'n json option"
  eb_context_items :: "'n json list"
  eb_operator_approvals :: "operator_approval list"

definition bundle_new :: "policy_verdict \<Rightarrow> 'n evidence_bundle" where
  "bundle_new policy = \<lparr>eb_version = evidence_bundle_version, eb_policy = policy, eb_evaluator_report = None,
     eb_context_items = [], eb_operator_approvals = []\<rparr>"

definition with_evaluator_report :: "'n evidence_bundle \<Rightarrow> 'n json \<Rightarrow> 'n evidence_bundle" where
  "with_evaluator_report b report = b\<lparr>eb_evaluator_report := Some report\<rparr>"

definition with_context_items :: "'n evidence_bundle \<Rightarrow> 'n json list \<Rightarrow> 'n evidence_bundle" where
  "with_context_items b items = b\<lparr>eb_context_items := items\<rparr>"

definition with_operator_approval :: "'n evidence_bundle \<Rightarrow> operator_approval \<Rightarrow> 'n evidence_bundle" where
  "with_operator_approval b approval = b\<lparr>eb_operator_approvals := eb_operator_approvals b @ [approval]\<rparr>"

text \<open>An absent report and empty lists are left out.\<close>

definition bundle_to_json :: "('m, 'n, 'k) ext \<Rightarrow> 'n evidence_bundle \<Rightarrow> 'n json" where
  "bundle_to_json X b = JObject
     ([(''version'', json_of_u32 X (eb_version b)), (''policy'', verdict_to_json (eb_policy b))] @
      (case eb_evaluator_report b of None \<Rightarrow> [] | Some r \<Rightarrow> [(''evaluator_report'', r)]) @
      (if eb_context_items b = [] then [] else [(''context_items'', JArray (eb_context_items b))]) @
      (if eb_operator_approvals b = [] then []
       else [(''operator_approvals'', JArray (map approval_to_json (eb_operator_approvals b)))]))"

definition bundle_to_value :: "('m, 'n, 'k) ext \<Rightarrow> 'n evidence_bundle \<Rightarrow> 'n json res" where
  "bundle_to_value X b = Inr (bundle_to_json X b)"

definition bundle_from_json :: "('m, 'n, 'k) ext \<Rightarrow> ('n, 'n evidence_bundle) decoder" where
  "bundle_from_json X j =
     res_bind (struct_view [''version'', ''policy'', ''evaluator_report'', ''context_items'',
                            ''operator_approvals''] j) (\<lambda>w.
     res_bind (field_req w ''version'' (dec_u32 X)) (\<lambda>v.
     res_bind (field_req w ''policy'' verdict_from_json) (\<lambda>p.
     res_bind (field_default w ''evaluator_report'' None (dec_option dec_value)) (\<lambda>r.
     res_bind (field_default w ''context_items'' [] (dec_vec dec_value)) (\<lambda>c.
     res_bind (field_default w ''operator_approvals'' [] (dec_vec approval_from_json)) (\<lambda>a.
     Inr \<lparr>eb_version = v, eb_policy = p, eb_evaluator_report = r, eb_context_items = c,
          eb_operator_approvals = a\<rparr>))))))"

definition bundle_from_value :: "('m, 'n, 'k) ext \<Rightarrow> 'n json \<Rightarrow> 'n evidence_bundle res" where
  "bundle_from_value X j = map_err Json (bundle_from_json X j)"


section \<open>Audit records\<close>

record 'n audit_record =
  ar_agent_id :: agent_id
  ar_parent_id :: "agent_id option"
  ar_timestamp :: string
  ar_mutation_intent :: "'n mutation_intent"
  ar_mutation_diff :: string
  ar_evidence :: "'n evidence_bundle"
  ar_signer_public_key :: string
  ar_signature :: string
  ar_verification_valid :: bool

definition audit_from_node :: "('m, 'n, 'k) ext \<Rightarrow> ('m, 'n) agent_node \<Rightarrow> 'n audit_record res" where
  "audit_from_node X node =
     res_bind (case n_eval_results node of
                 Some val \<Rightarrow> bundle_from_value X val
               | None \<Rightarrow> Inr (bundle_new (Approved ''legacy_or_root''))) (\<lambda>evidence.
     let verified = is_ok (verify_node X node)
     in Inr \<lparr>ar_agent_id = n_agent_id node, ar_parent_id = n_parent_id node,
             ar_timestamp = n_created_at node, ar_mutation_intent = n_mutation_intent node,
             ar_mutation_diff = n_mutation_diff node, ar_evidence = evidence,
             ar_signer_public_key = n_signer_public_key node, ar_signature = n_signature node,
             ar_verification_valid = verified\<rparr>)"

text \<open>The record's own JSON: an absent parent is left out, and reads back as absent.\<close>

definition audit_to_json :: "('m, 'n, 'k) ext \<Rightarrow> 'n audit_record \<Rightarrow> 'n json" where
  "audit_to_json X r = JObject
     ([(''agent_id'', JString (ar_agent_id r))] @
      (case ar_parent_id r of None \<Rightarrow> [] | Some p \<Rightarrow> [(''parent_id'', JString p)]) @
      [(''timestamp'', JString (ar_timestamp r)),
       (''mutation_intent'', intent_to_json X (ar_mutation_intent r)),
       (''mutation_diff'', JString (ar_mutation_diff r)),
       (''evidence'', bundle_to_json X (ar_evidence r)),
       (''signer_public_key'', JString (ar_signer_public_key r)),
       (''signature'', JString (ar_signature r)),
       (''verification_valid'', JBool (ar_verification_valid r))])"

definition audit_from_json :: "('m, 'n, 'k) ext \<Rightarrow> ('n, 'n audit_record) decoder" where
  "audit_from_json X j =
     res_bind (struct_view [''agent_id'', ''parent_id'', ''timestamp'', ''mutation_intent'', ''mutation_diff'',
                            ''evidence'', ''signer_public_key'', ''signature'', ''verification_valid''] j) (\<lambda>w.
     res_bind (field_req w ''agent_id'' dec_string) (\<lambda>i.
     res_bind (field_default w ''parent_id'' None (dec_option dec_string)) (\<lambda>p.
     res_bind (field_req w ''timestamp'' dec_string) (\<lambda>t.
     res_bind (field_req w ''mutation_intent'' (intent_from_json X)) (\<lambda>mi.
     res_bind (field_req w ''mutation_diff'' dec_string) (\<lambda>d.
     res_bind (field_req w ''evidence'' (bundle_from_json X)) (\<lambda>ev.
     res_bind (field_req w ''signer_public_key'' dec_string) (\<lambda>pk.
     res_bind (field_req w ''signature'' dec_string) (\<lambda>sg.
     res_bind (field_req w ''verification_valid'' dec_bool) (\<lambda>vv.
     Inr \<lparr>ar_agent_id = i, ar_parent_id = p, ar_timestamp = t, ar_mutation_intent = mi,
          ar_mutation_diff = d, ar_evidence = ev, ar_signer_public_key = pk, ar_signature = sg,
          ar_verification_valid = vv\<rparr>))))))))))"


section \<open>Lemmas\<close>

lemma verdict_round_trip [simp]: "verdict_from_json (verdict_to_json v) = Inr v"
  by (cases v) (simp_all add: verdict_to_json_def verdict_from_json_def verdict_body_def
      verdict_variant_def field_req_def)

lemma approval_round_trip [simp]: "approval_from_json (approval_to_json a) = Inr a"
  by (simp add: approval_to_json_def approval_from_json_def field_req_def)

lemma approvals_round_trip [simp]: "traverse approval_from_json (map approval_to_json as) = Inr as"
  using traverse_map_Inr [of as approval_from_json approval_to_json "\<lambda>a. a"] by simp

lemma bundle_round_trip:
  assumes "json_num_laws X" and "bundle_to_value X b = Inr j"
  shows "bundle_from_value X j = Inr (b\<lparr>eb_evaluator_report := drop_null (eb_evaluator_report b)\<rparr>)"
proof -
  let ?r = "case eb_evaluator_report b of None \<Rightarrow> [] | Some r \<Rightarrow> [(''evaluator_report'', r)]"
  let ?c = "if eb_context_items b = [] then [] else [(''context_items'', JArray (eb_context_items b))]"
  let ?a = "if eb_operator_approvals b = [] then []
       else [(''operator_approvals'', JArray (map approval_to_json (eb_operator_approvals b)))]"
  let ?m = "[(''version'', json_of_u32 X (eb_version b)), (''policy'', verdict_to_json (eb_policy b))] @ ?r @ ?c @ ?a"
  have j: "j = JObject ?m" using assms(2) by (simp add: bundle_to_value_def bundle_to_json_def)
  have r: "map_of ?m ''evaluator_report'' = eb_evaluator_report b"
    by (simp add: map_add_def split: option.split)
  have c: "map_of ?m ''context_items'' =
      (if eb_context_items b = [] then None else Some (JArray (eb_context_items b)))"
    by (simp add: map_add_def split: option.split)
  have a: "map_of ?m ''operator_approvals'' =
      (if eb_operator_approvals b = [] then None
       else Some (JArray (map approval_to_json (eb_operator_approvals b))))"
    by (simp add: map_add_def split: option.split)
  have v: "map_of ?m ''version'' = Some (json_of_u32 X (eb_version b))"
      "map_of ?m ''policy'' = Some (verdict_to_json (eb_policy b))"
    by (simp_all)
  have rep: "field_default (map_of ?m, Missing_Field) ''evaluator_report'' None (dec_option dec_value)
      = Inr (drop_null (eb_evaluator_report b))"
    using dec_option_value [of "eb_evaluator_report b"]
    unfolding field_default_def fst_conv r by (cases "eb_evaluator_report b") (simp_all add: drop_null_def)
  have ctx: "field_default (map_of ?m, Missing_Field) ''context_items'' [] (dec_vec dec_value)
      = Inr (eb_context_items b)"
    unfolding field_default_def fst_conv c by (simp del: dec_vec.simps)
  have app: "field_default (map_of ?m, Missing_Field) ''operator_approvals'' [] (dec_vec approval_from_json)
      = Inr (eb_operator_approvals b)"
    unfolding field_default_def fst_conv a by simp
  have req: "field_req (map_of ?m, Missing_Field) ''version'' (dec_u32 X) = Inr (eb_version b)"
      "field_req (map_of ?m, Missing_Field) ''policy'' verdict_from_json = Inr (eb_policy b)"
    unfolding field_req_def fst_conv v by (simp_all add: dec_u32_of_u32 [OF assms(1)])
  show ?thesis
    unfolding j bundle_from_value_def bundle_from_json_def struct_view_object res_bind_simps req rep ctx app
    by simp
qed

lemma audit_round_trip:
  assumes "json_num_laws X" and "eb_evaluator_report (ar_evidence r) \<noteq> Some JNull"
    and "finite_only (mi_expected_improvement (ar_mutation_intent r)) = mi_expected_improvement (ar_mutation_intent r)"
  shows "audit_from_json X (audit_to_json X r) = Inr r"
proof -
  have "drop_null (eb_evaluator_report (ar_evidence r)) = eb_evaluator_report (ar_evidence r)"
    using assms(2) by (auto simp: drop_null_def split: option.splits json.splits)
  then have b: "bundle_from_json X (bundle_to_json X (ar_evidence r)) = Inr (ar_evidence r)"
    using bundle_round_trip [OF assms(1), of "ar_evidence r"]
    by (simp add: bundle_to_value_def bundle_from_value_def map_err_Inr_iff)
  show ?thesis
    using b intent_round_trip [OF assms(1), of "ar_mutation_intent r"] assms(3)
    by (cases "ar_parent_id r")
      (simp_all add: audit_to_json_def audit_from_json_def field_req_def field_default_def)
qed

lemma bundle_of_eval_fails:
  "bundle_from_value X (eval_to_json X ev) = Inl (Json (Missing_Field ''version''))"
  by (simp add: bundle_from_value_def bundle_from_json_def eval_to_json_def field_req_def)


section \<open>Properties\<close>

text \<open>
  C34: Evidence survives storage: a bundle renders to a JSON value without error and parses back to
  itself, whatever its verdict, report, context items and approvals, unless its report is an explicit
  \<open>null\<close>.
\<close>

theorem evidence_round_trip:
  assumes "json_num_laws X" and "eb_evaluator_report b \<noteq> Some JNull"
  shows "\<exists>j. bundle_to_value X b = Inr j \<and> bundle_from_value X j = Inr b"
proof -
  obtain j where j: "bundle_to_value X b = Inr j"
    by (simp add: bundle_to_value_def)
  have "drop_null (eb_evaluator_report b) = eb_evaluator_report b"
    using assms(2) by (auto simp: drop_null_def split: option.splits json.splits)
  then show ?thesis
    using bundle_round_trip [OF assms(1) j] j by simp
qed

theorem evidence_round_trip_witness:
  "\<exists>j. bundle_to_value (demo_ext True)
       (with_operator_approval (bundle_new (Denied ''cap'')) (operator_approval_new ''alice'' ''ship it'')) = Inr j \<and>
     bundle_from_value (demo_ext True) j =
       Inr (with_operator_approval (bundle_new (Denied ''cap'')) (operator_approval_new ''alice'' ''ship it''))"
  by (rule evidence_round_trip) (simp_all add: with_operator_approval_def bundle_new_def)

text \<open>
  An audit record tells the truth about its node: it repeats the node's identity, lineage, intent,
  diff and signature, its validity flag is the verdict of verification, and its evidence is the bundle
  stored with the node, or an approval by default when nothing is stored.
\<close>

lemma audit_record_faithful:
  assumes "audit_from_node X n = Inr r"
  shows "ar_agent_id r = n_agent_id n \<and> ar_parent_id r = n_parent_id n \<and>
     ar_mutation_intent r = n_mutation_intent n \<and> ar_mutation_diff r = n_mutation_diff n \<and>
     ar_signature r = n_signature n \<and> ar_signer_public_key r = n_signer_public_key n \<and>
     (ar_verification_valid r \<longleftrightarrow> verify_node X n = Inr ()) \<and>
     (case n_eval_results n of
        None \<Rightarrow> ar_evidence r = bundle_new (Approved ''legacy_or_root'')
      | Some j \<Rightarrow> bundle_from_value X j = Inr (ar_evidence r))"
  using assms by (auto simp: audit_from_node_def Let_def is_ok_iff res_bind_Inr_iff split: option.splits)

text \<open>
  No node that a cycle promotes can be audited: its stored evaluation result is not an evidence
  bundle, so the projection fails with a missing \<open>version\<close> field.
\<close>

theorem audit_fails_after_cycle:
  assumes "run_cycle X v inp s = (Inr (Cycle_Promoted n eval), s')"
  shows "audit_from_node X n = Inl (Json (Missing_Field ''version''))"
  using assms
proof (cases rule: run_cycle_Inr)
  case (promoted diff ev g m)
  then have "sign_node X (cycle_promoted_inputs X inp g diff ev) (v_signing_key v) = Inr n"
    by (auto simp: sign_and_append_def op_bind_Inr_iff)
  then have "n_eval_results n = Some (eval_to_json X ev)"
    by (simp add: sign_node_simps(8) promoted_inputs_def)
  then show ?thesis
    by (simp add: audit_from_node_def bundle_of_eval_fails)
qed simp_all

theorem audit_fails_after_cycle_witness:
  "\<exists>n s'. run_cycle (demo_ext True) (demo_veh 1) (demo_cycle demo_parent [''a'']) mem_new
       = (Inr (Cycle_Promoted n (from_score 1)), s') \<and>
     audit_from_node (demo_ext True) n = Inl (Json (Missing_Field ''version''))"
proof -
  obtain n s' where r: "run_cycle (demo_ext True) (demo_veh 1) (demo_cycle demo_parent [''a'']) mem_new
      = (Inr (Cycle_Promoted n (from_score 1)), s')"
    by (rule demo_promoted)
  from r audit_fails_after_cycle [OF r] show ?thesis by blast
qed

end
