(* ===== verification/Veh_Lifecycle.thy ===== *)
theory Veh_Lifecycle
  imports Veh_Graph
begin

text \<open>
  The runner as a state machine. An event is one call of a public method of \<^verbatim>\<open>src/graph.rs\<close>; a
  pending approval comes from a paused cycle only and is consumed by its resumption, as the type's
  private field and missing \<open>Clone\<close> enforce. \<open>lifecycle\<close> gives the ledger states a host can reach, for
  a host that follows a discipline \<open>G\<close>. The invariants are proved once for every store that meets
  \<open>lineage_contract\<close>.
\<close>

section \<open>Events\<close>

datatype ('m, 'n, 'k) event =
    E_Root "'m agent_artifact" allowed_scope string
  | E_Cycle "('m, 'n) cycle_inputs"
  | E_Resume "('m, 'n) pending_approval" 'k
  | E_Rollback_To agent_id
  | E_Commit_Rollback agent_id string

datatype ('m, 'n) reply =
    R_Node "('m, 'n) agent_node"
  | R_Cycle "('m, 'n) cycle_outcome"
  | R_Unit

definition op_map :: "('a \<Rightarrow> 'b) \<Rightarrow> ('s, 'a) op \<Rightarrow> ('s, 'b) op" where
  "op_map f m = op_bind m (\<lambda>x. op_lift (\<lambda>_. Inr (f x)))"

lemma op_map_cases:
  "op_map f m s = (r, s') \<Longrightarrow>
     (\<exists>e. r = Inl e \<and> m s = (Inl e, s')) \<or> (\<exists>x. r = Inr (f x) \<and> m s = (Inr x, s'))"
  by (auto simp: op_map_def op_bind_def split: prod.splits sum.splits)

fun veh_exec ::
  "('m, 'n, 'k) ext \<Rightarrow> ('s, 'm, 'n, 'k) veh \<Rightarrow> ('m, 'n, 'k) event \<Rightarrow> ('s, ('m, 'n) reply) op" where
  "veh_exec X v (E_Root a sc t) = op_map R_Node (commit_root X v a sc t)"
| "veh_exec X v (E_Cycle inp) = op_map R_Cycle (run_cycle X v inp)"
| "veh_exec X v (E_Resume p key) = op_map R_Node (resume_with_approval X v p key)"
| "veh_exec X v (E_Rollback_To i) = op_map (\<lambda>_. R_Unit) (rollback_to X v i)"
| "veh_exec X v (E_Commit_Rollback i t) = op_map R_Node (commit_rollback X v i t)"

definition enabled :: "('m, 'n, 'k) event \<Rightarrow> ('m, 'n) pending_approval multiset \<Rightarrow> bool" where
  "enabled e P \<longleftrightarrow> (case e of E_Resume p _ \<Rightarrow> p \<in># P | _ \<Rightarrow> True)"

definition pending_after ::
  "('m, 'n, 'k) event \<Rightarrow> ('m, 'n) reply res \<Rightarrow> ('m, 'n) pending_approval multiset
     \<Rightarrow> ('m, 'n) pending_approval multiset" where
  "pending_after e r P =
     (case e of E_Resume p _ \<Rightarrow> P - {#p#}
      | _ \<Rightarrow> (case r of Inr (R_Cycle (Awaiting_Approval p)) \<Rightarrow> add_mset p P | _ \<Rightarrow> P))"

inductive lifecycle ::
  "('m, 'n, 'k) ext \<Rightarrow> ('s, 'm, 'n, 'k) veh \<Rightarrow> ('s \<Rightarrow> ('m, 'n, 'k) event \<Rightarrow> bool) \<Rightarrow> 's
     \<Rightarrow> 's \<Rightarrow> ('m, 'n) pending_approval multiset \<Rightarrow> bool"
  for X v G s0 where
  start: "lifecycle X v G s0 s0 {#}"
| step: "lifecycle X v G s0 s P \<Longrightarrow> G s e \<Longrightarrow> enabled e P \<Longrightarrow> veh_exec X v e s = (r, s') \<Longrightarrow>
     lifecycle X v G s0 s' (pending_after e r P)"

text \<open>The commit inputs an event may sign on a ledger with the given nodes and head.\<close>

definition commits ::
  "('m, 'n, 'k) ext \<Rightarrow> ('s, 'm, 'n, 'k) veh \<Rightarrow> ('m, 'n) agent_node list \<Rightarrow> agent_id option
     \<Rightarrow> ('m, 'n, 'k) event \<Rightarrow> ('m, 'n) commit_inputs \<Rightarrow> bool" where
  "commits X v ns h e ci \<longleftrightarrow>
     (case e of
        E_Root a sc t \<Rightarrow> ci = root_inputs a sc t
      | E_Cycle inp \<Rightarrow> \<exists>g diff eval. u32_succ X (n_generation (cy_parent inp)) = Inr g \<and>
          ev_evaluate (v_evaluator v) (cy_candidate inp) = Inr eval \<and>
          (gate_decision X v inp = Inr Approve \<and> ci = cycle_promoted_inputs X inp g diff eval \<or>
           ci = cycle_rejected_inputs X inp g diff eval)
      | E_Resume p key \<Rightarrow> \<exists>g. u32_succ X (pa_parent_generation p) = Inr g \<and> ci = resume_inputs p g
      | E_Rollback_To i \<Rightarrow> False
      | E_Commit_Rollback i t \<Rightarrow> \<exists>target parent g.
          target \<in> set ns \<and> n_status target = Promoted \<and> parent \<in> set ns \<and> h = Some (n_agent_id parent) \<and>
          u32_succ X (n_generation parent) = Inr g \<and> ci = rollback_inputs target parent i g t)"

text \<open>A node as the runner leaves it: verified, valid as a parent exactly when promoted.\<close>

definition sound_node :: "('m, 'n, 'k) ext \<Rightarrow> ('m, 'n) agent_node \<Rightarrow> bool" where
  "sound_node X n \<longleftrightarrow> verify_node X n = Inr () \<and> (n_valid_parent n \<longleftrightarrow> n_status n = Promoted) \<and>
     n_parent_agent_success n \<and> n_eval_stage n = None \<and>
     n_capability_sbom n = capability_sbom X (n_artifact n)"

lemma commits_sound:
  assumes "crypto_laws X" and "commits X v ns h e ci" and sign: "sign_node X ci key = Inr n"
  shows "sound_node X n"
  using assms(2) sign_node_simps [OF sign] sign_node_verifies [OF assms(1) sign]
  by (auto simp: commits_def sound_node_def commit_inputs_defs split: event.splits)

definition head_promoted :: "('m, 'n) agent_node list \<Rightarrow> agent_id option \<Rightarrow> bool" where
  "head_promoted ns h \<longleftrightarrow>
     (case h of None \<Rightarrow> \<forall>n \<in> set ns. n_status n \<noteq> Promoted
      | Some i \<Rightarrow> \<exists>n \<in> set ns. n_agent_id n = i \<and> n_status n = Promoted)"

lemma head_promoted_push: "head_promoted ns h \<Longrightarrow> head_promoted (ns @ [n]) (pushed n h)"
  by (auto simp: head_promoted_def pushed_def split: option.splits)


section \<open>Lineage\<close>

text \<open>A node's parent is recorded before it, one generation up; a root has generation zero.\<close>

definition parent_ok :: "('m, 'n, 'k) ext \<Rightarrow> ('m, 'n) agent_node list \<Rightarrow> ('m, 'n) agent_node \<Rightarrow> bool" where
  "parent_ok X earlier n \<longleftrightarrow>
     (case n_parent_id n of
        None \<Rightarrow> n_generation n = 0
      | Some p \<Rightarrow> \<exists>m \<in> set earlier. n_agent_id m = p \<and> u32_succ X (n_generation m) = Inr (n_generation n))"

definition lineage_ok :: "('m, 'n, 'k) ext \<Rightarrow> ('m, 'n) agent_node list \<Rightarrow> bool" where
  "lineage_ok X ns \<longleftrightarrow> (\<forall>i < length ns. parent_ok X (take i ns) (ns ! i))"

lemma lineage_ok_Nil [simp]: "lineage_ok X []"
  by (simp add: lineage_ok_def)

lemma lineage_ok_snoc: "lineage_ok X (ns @ [n]) \<longleftrightarrow> lineage_ok X ns \<and> parent_ok X ns n"
  by (auto simp: lineage_ok_def less_Suc_eq nth_append)

text \<open>The length of a node's chain of ancestors.\<close>

inductive descends :: "('m, 'n) agent_node list \<Rightarrow> agent_id \<Rightarrow> nat \<Rightarrow> bool" for ns where
  root: "n \<in> set ns \<Longrightarrow> n_parent_id n = None \<Longrightarrow> descends ns (n_agent_id n) 0"
| child: "n \<in> set ns \<Longrightarrow> n_parent_id n = Some p \<Longrightarrow> descends ns p k \<Longrightarrow>
     descends ns (n_agent_id n) (Suc k)"

lemma u32_succ_checked:
  "x_overflow_checks X \<Longrightarrow> u32_succ X g = Inr g' \<Longrightarrow> unat g' = Suc (unat g)"
  by (rule u32_succ_unat) (auto simp: u32_succ_def split: if_splits)

text \<open>Without overflow checks the recorded generation is that length modulo \<open>2 ^ 32\<close>.\<close>

lemma lineage_depth:
  assumes "lineage_ok X ns" and "n \<in> set ns"
  obtains k where "descends ns (n_agent_id n) k" and "n_generation n = of_nat k"
    and "x_overflow_checks X \<Longrightarrow> unat (n_generation n) = k"
proof -
  have "\<exists>k. descends ns (n_agent_id (ns ! i)) k \<and> n_generation (ns ! i) = of_nat k \<and>
      (x_overflow_checks X \<longrightarrow> unat (n_generation (ns ! i)) = k)" if "i < length ns" for i
    using that
  proof (induction i rule: less_induct)
    case (less i)
    have ok: "parent_ok X (take i ns) (ns ! i)"
      using assms(1) less.prems by (simp add: lineage_ok_def)
    show ?case
    proof (cases "n_parent_id (ns ! i)")
      case None
      then have "n_generation (ns ! i) = 0" using ok by (simp add: parent_ok_def)
      then show ?thesis using descends.root [of "ns ! i" ns] None less.prems by (intro exI [of _ 0]) simp
    next
      case (Some p)
      then obtain m where m: "m \<in> set (take i ns)" "n_agent_id m = p"
          "u32_succ X (n_generation m) = Inr (n_generation (ns ! i))"
        using ok by (auto simp: parent_ok_def)
      then obtain j where j: "j < i" "m = ns ! j"
        using less.prems by (auto simp: in_set_conv_nth)
      obtain k where k: "descends ns p k" "n_generation m = of_nat k" "x_overflow_checks X \<longrightarrow> unat (n_generation m) = k"
        using less.IH [OF j(1)] j less.prems m(2) by auto
      have "n_generation (ns ! i) = of_nat (Suc k)"
        using u32_succ_Inr [OF m(3)] k(2) by simp
      moreover have "x_overflow_checks X \<longrightarrow> unat (n_generation (ns ! i)) = Suc k"
        using u32_succ_checked [OF _ m(3)] k(3) by simp
      ultimately show ?thesis
        using descends.child [of "ns ! i" ns p k] Some less.prems k(1) by (intro exI [of _ "Suc k"]) simp
    qed
  qed
  then show thesis using assms(2) that by (metis in_set_conv_nth)
qed

lemma lineage_descends:
  assumes "lineage_ok X ns" and "x_overflow_checks X" and "n \<in> set ns"
  shows "descends ns (n_agent_id n) (unat (n_generation n))"
  by (rule lineage_depth [OF assms(1,3)]) (use assms(2) in simp)

text \<open>Pending approvals remember a recorded parent.\<close>

definition pending_ok :: "('m, 'n) agent_node list \<Rightarrow> ('m, 'n) pending_approval multiset \<Rightarrow> bool" where
  "pending_ok ns P \<longleftrightarrow>
     (\<forall>p \<in># P. \<exists>m \<in> set ns. pa_parent_id p = Some (n_agent_id m) \<and> pa_parent_generation p = n_generation m)"

lemma pending_ok_mono: "pending_ok ns P \<Longrightarrow> set ns \<subseteq> set ns' \<Longrightarrow> pending_ok ns' P"
  unfolding pending_ok_def by blast


section \<open>Host disciplines\<close>

text \<open>A host that only evolves recorded nodes.\<close>

definition recorded_parents :: "('m, 'n) agent_node list \<Rightarrow> ('m, 'n, 'k) event \<Rightarrow> bool" where
  "recorded_parents ns e \<longleftrightarrow> (case e of E_Cycle inp \<Rightarrow> cy_parent inp \<in> set ns | _ \<Rightarrow> True)"

text \<open>
  A governed host: every root declares the same artifact and scope, cycles start from recorded valid
  parents and carry the scope on, and nothing is approved out of band.
\<close>

definition governed ::
  "'m agent_artifact \<Rightarrow> allowed_scope \<Rightarrow> ('m, 'n) agent_node list \<Rightarrow> ('m, 'n, 'k) event \<Rightarrow> bool" where
  "governed a0 sc ns e \<longleftrightarrow>
     (case e of
        E_Root a sc' _ \<Rightarrow> a = a0 \<and> sc' = sc
      | E_Cycle inp \<Rightarrow> cy_parent inp \<in> set ns \<and> n_valid_parent (cy_parent inp) \<and>
          cy_allowed_scope inp = sc
      | E_Resume _ _ \<Rightarrow> False
      | _ \<Rightarrow> True)"

definition bounded_node :: "('m, 'n, 'k) ext \<Rightarrow> 'm agent_artifact \<Rightarrow> allowed_scope \<Rightarrow> ('m, 'n) agent_node \<Rightarrow> bool" where
  "bounded_node X a0 sc n \<longleftrightarrow> n_allowed_scope n = sc \<and>
     (n_valid_parent n \<longrightarrow> set (n_capability_sbom n) \<subseteq> capability_set X a0 \<union> scope_capabilities sc)"


section \<open>Invariants over any store\<close>

context lineage_contract
begin

text \<open>One event either leaves the abstract ledger alone, moves the head, or commits one node.\<close>

lemma exec_err:
  assumes "v_ledger v = S" and "inv s" and "veh_exec X v e s = (Inl err, s')"
  shows "untouched s s'"
proof (cases e)
  case (E_Root a sc t)
  then show ?thesis using assms(3) op_map_cases [of R_Node "commit_root X v a sc t" s "Inl err" s']
      commit_root_err [OF assms(1,2)] by auto
next
  case (E_Cycle inp)
  then show ?thesis using assms(3) op_map_cases [of R_Cycle "run_cycle X v inp" s "Inl err" s']
      run_cycle_err [OF assms(1,2)] by auto
next
  case (E_Resume p key)
  then show ?thesis using assms(3) op_map_cases [of R_Node "resume_with_approval X v p key" s "Inl err" s']
      resume_err [OF assms(1,2)] by auto
next
  case (E_Rollback_To i)
  then show ?thesis using assms(3) op_map_cases [of "\<lambda>_. R_Unit" "rollback_to X v i" s "Inl err" s']
      rollback_to_err [OF assms(1,2)] untouched_refl [OF assms(2)] by fastforce
next
  case (E_Commit_Rollback i t)
  then show ?thesis using assms(3) op_map_cases [of R_Node "commit_rollback X v i t" s "Inl err" s']
      commit_rollback_err [OF assms(1,2)] by auto
qed

lemma exec_effect:
  assumes "v_ledger v = S" and "inv s" and "veh_exec X v e s = (r, s')"
  obtains (kept) "untouched s s'"
  | (moved) i n where "e = E_Rollback_To i" "n \<in> set (entries s)" "n_agent_id n = i" "n_status n = Promoted"
      "inv s'" "entries s' = entries s" "hd_of s' = Some i"
  | (added) ci key n where "commits X v (entries s) (hd_of s) e ci" "committed X ci key s n s'"
proof (cases e)
  case (E_Root a sc t)
  with assms(3) op_map_cases [of R_Node "commit_root X v a sc t" s r s']
  consider err where "commit_root X v a sc t s = (Inl err, s')" | n where "commit_root X v a sc t s = (Inr n, s')"
    by auto
  then show thesis
  proof cases
    case 1 then show thesis by (intro kept commit_root_err [OF assms(1,2)])
  next
    case 2
    then show thesis using commit_root_ok [OF assms(1,2) 2] E_Root by (intro added) (auto simp: commits_def)
  qed
next
  case (E_Cycle inp)
  with assms(3) op_map_cases [of R_Cycle "run_cycle X v inp" s r s']
  consider err where "run_cycle X v inp s = (Inl err, s')" | out where "run_cycle X v inp s = (Inr out, s')"
    by auto
  then show thesis
  proof cases
    case 1 then show thesis by (intro kept run_cycle_err [OF assms(1,2)])
  next
    case 2
    then show thesis
    proof (cases rule: run_cycle_Inr)
      case (promoted diff eval g n)
      then show thesis
        using sign_and_append_ok [OF assms(1,2) promoted(7)] E_Cycle
        by (intro added) (auto simp: commits_def)
    next
      case (rejected diff eval g n reason)
      then show thesis
        using sign_and_append_ok [OF assms(1,2) rejected(6)] E_Cycle
        by (intro added) (auto simp: commits_def)
    next
      case (awaiting diff eval reason)
      then show thesis using assms(2) by (intro kept) simp
    qed
  qed
next
  case (E_Resume p key)
  with assms(3) op_map_cases [of R_Node "resume_with_approval X v p key" s r s']
  consider err where "resume_with_approval X v p key s = (Inl err, s')"
    | n where "resume_with_approval X v p key s = (Inr n, s')"
    by auto
  then show thesis
  proof cases
    case 1 then show thesis by (intro kept resume_err [OF assms(1,2)])
  next
    case 2
    show thesis
      by (rule resume_ok [OF assms(1,2) 2], rule added) (auto simp: commits_def E_Resume)
  qed
next
  case (E_Rollback_To i)
  with assms(3) op_map_cases [of "\<lambda>_. R_Unit" "rollback_to X v i" s r s']
  consider err where "rollback_to X v i s = (Inl err, s')" | "rollback_to X v i s = (Inr (), s')"
    by auto
  then show thesis
  proof cases
    case 1
    have "s' = s" by (rule rollback_to_err [OF assms(1,2) 1])
    then show thesis using assms(2) by (intro kept) simp
  next
    case 2
    then show thesis using rollback_to_ok [OF assms(1,2) 2] E_Rollback_To moved by blast
  qed
next
  case (E_Commit_Rollback i t)
  with assms(3) op_map_cases [of R_Node "commit_rollback X v i t" s r s']
  consider err where "commit_rollback X v i t s = (Inl err, s')" | n where "commit_rollback X v i t s = (Inr n, s')"
    by auto
  then show thesis
  proof cases
    case 1 then show thesis by (intro kept commit_rollback_err [OF assms(1,2)])
  next
    case 2
    show thesis
      by (rule commit_rollback_ok [OF assms(1,2) 2], rule added) (auto simp: commits_def E_Commit_Rollback)
  qed
qed

text \<open>
  The same as a relation; the head may be that of another moment, since only \<open>commit_rollback\<close>
  reads it, and nothing below depends on which one it is.
\<close>

definition effect ::
  "('m, 'n, 'k) ext \<Rightarrow> ('s, 'm, 'n, 'k) veh \<Rightarrow> ('m, 'n, 'k) event \<Rightarrow> 's \<Rightarrow> 's \<Rightarrow> bool" where
  "effect X v e s s' \<longleftrightarrow> untouched s s' \<or>
     (\<exists>n \<in> set (entries s). n_status n = Promoted \<and> inv s' \<and> entries s' = entries s \<and>
        hd_of s' = Some (n_agent_id n)) \<or>
     (\<exists>ci key n h. commits X v (entries s) h e ci \<and> committed X ci key s n s')"

lemma exec_has_effect:
  assumes "v_ledger v = S" and "inv s" and "veh_exec X v e s = (r, s')"
  shows "effect X v e s s'"
  using assms by (cases rule: exec_effect) (auto simp: effect_def)

lemma effect_cases:
  assumes "effect X v e s s'"
  obtains (kept) "untouched s s'"
  | (moved) n where "n \<in> set (entries s)" "n_status n = Promoted" "inv s'" "entries s' = entries s"
      "hd_of s' = Some (n_agent_id n)"
  | (added) ci key n h where "commits X v (entries s) h e ci" "committed X ci key s n s'"
      "sign_node X ci key = Inr n"
  using assms by (auto simp: effect_def committed_def)

lemma effect_appends:
  assumes "effect X v e s s'"
  shows "inv s' \<and> (\<exists>new. entries s' = entries s @ new)"
  using assms by (cases rule: effect_cases) (auto simp: untouched_def committed_def)

text \<open>The store's own invariant, append-only growth, sound nodes and a promoted head.\<close>

definition sound_ledger :: "('m, 'n, 'k) ext \<Rightarrow> 's \<Rightarrow> bool" where
  "sound_ledger X s \<longleftrightarrow> inv s \<and> (\<forall>n \<in> set (entries s). sound_node X n) \<and> head_promoted (entries s) (hd_of s)"

lemma sound_empty: "inv s \<Longrightarrow> entries s = [] \<Longrightarrow> hd_of s = None \<Longrightarrow> sound_ledger X s"
  by (simp add: sound_ledger_def head_promoted_def)

lemma effect_sound:
  assumes "effect X v e s s'" and "crypto_laws X" and sound: "sound_ledger X s"
  shows "sound_ledger X s'"
  using assms(1)
proof (cases rule: effect_cases)
  case (added ci key n h)
  have "sound_node X n" by (rule commits_sound [OF assms(2) added(1,3)])
  then show ?thesis
    using added(2) sound head_promoted_push [of "entries s" "hd_of s" n]
    by (simp add: sound_ledger_def committed_def)
qed (use sound in \<open>auto simp: sound_ledger_def untouched_def head_promoted_def\<close>)

lemma reach_sound:
  assumes "lifecycle X v G s0 s P" and "v_ledger v = S" and "crypto_laws X"
    and "inv s0" and "entries s0 = []" and "hd_of s0 = None"
  shows "inv s \<and> (\<forall>n \<in> set (entries s). sound_node X n) \<and> head_promoted (entries s) (hd_of s)"
proof -
  from assms(1) have "sound_ledger X s"
  proof induction
    case start
    then show ?case using sound_empty assms(4-6) by blast
  next
    case (step s P e r s')
    then have "effect X v e s s'"
      by (intro exec_has_effect [OF assms(2)]) (simp_all add: sound_ledger_def)
    then show ?case using effect_sound assms(3) step.IH by blast
  qed
  then show ?thesis by (simp add: sound_ledger_def)
qed

lemma reach_append_only:
  assumes "lifecycle X v G s0 s P" and "v_ledger v = S" and "inv s0"
  shows "inv s \<and> (\<exists>new. entries s = entries s0 @ new)"
  using assms(1)
proof induction
  case start
  then show ?case using assms(3) by simp
next
  case (step s P e r s')
  then have "effect X v e s s'" by (intro exec_has_effect [OF assms(2)]) simp_all
  then show ?case using effect_appends step.IH by (metis append_assoc)
qed

lemma commits_parent_ok:
  assumes "commits X v (entries s) h e ci" and "recorded_parents (entries s) e" and "enabled e P"
    and "pending_ok (entries s) P" and sign: "sign_node X ci key = Inr n"
  shows "parent_ok X (entries s) n"
proof -
  note [simp] = sign_node_simps(3,4) [OF sign] parent_ok_def commits_def commit_inputs_defs
  show ?thesis
  proof (cases e)
    case (E_Resume p k)
    then obtain m where "m \<in> set (entries s)" "pa_parent_id p = Some (n_agent_id m)"
        "pa_parent_generation p = n_generation m"
      using assms(3,4) by (auto simp: enabled_def pending_ok_def)
    then show ?thesis using assms(1) E_Resume by auto
  qed (use assms(1,2) in \<open>auto simp: recorded_parents_def\<close>)
qed

lemma run_cycle_pending:
  assumes "run_cycle X v inp s = (Inr (Awaiting_Approval p), s')"
  shows "pa_parent_id p = Some (n_agent_id (cy_parent inp)) \<and>
     pa_parent_generation p = n_generation (cy_parent inp) \<and> s' = s"
  using assms by (cases rule: run_cycle_Inr) (simp_all add: pending_of_def)

lemma pending_after_ok:
  assumes "pending_ok ns P" and "recorded_parents (entries s) e" and "set (entries s) \<subseteq> set ns"
    and "veh_exec X v e s = (r, s')"
  shows "pending_ok ns (pending_after e r P)"
proof (cases e)
  case (E_Cycle inp)
  show ?thesis
  proof (cases "\<exists>p. r = Inr (R_Cycle (Awaiting_Approval p))")
    case True
    then obtain p where r: "r = Inr (R_Cycle (Awaiting_Approval p))" ..
    then have "run_cycle X v inp s = (Inr (Awaiting_Approval p), s')"
      using assms(4) E_Cycle op_map_cases [of R_Cycle "run_cycle X v inp" s r s'] by auto
    then show ?thesis
      using run_cycle_pending [of X v inp s p s'] assms(1-3) E_Cycle r
      by (auto simp: pending_ok_def pending_after_def recorded_parents_def)
  next
    case False
    then have "pending_after e r P = P"
      using E_Cycle by (auto simp: pending_after_def split: sum.splits reply.splits cycle_outcome.splits)
    then show ?thesis using assms(1) by simp
  qed
next
  case (E_Resume p key)
  then show ?thesis
    using assms(1) by (auto simp: pending_after_def pending_ok_def dest: in_diffD)
qed (use assms(1,4) op_map_cases in \<open>fastforce simp: pending_after_def\<close>)+

lemma reach_lineage:
  assumes "lifecycle X v (\<lambda>s. recorded_parents (entries s)) s0 s P" and "v_ledger v = S"
    and "inv s0" and "entries s0 = []"
  shows "inv s \<and> lineage_ok X (entries s) \<and> pending_ok (entries s) P"
  using assms(1)
proof induction
  case start
  then show ?case using assms(3,4) by (simp add: pending_ok_def)
next
  case (step s P e r s')
  then have inv: "inv s" and lin: "lineage_ok X (entries s)" and pend: "pending_ok (entries s) P" by blast+
  have after: "pending_ok (entries s') (pending_after e r P)" if "set (entries s) \<subseteq> set (entries s')"
    using pending_after_ok [OF pending_ok_mono [OF pend that] step.hyps(2) that step.hyps(4)] .
  from assms(2) inv step.hyps(4) show ?case
  proof (cases rule: exec_effect)
    case (added ci key n)
    then have "sign_node X ci key = Inr n" by (simp add: committed_def)
    then have "parent_ok X (entries s) n"
      by (rule commits_parent_ok [OF added(1) step.hyps(2,3) pend])
    then show ?thesis using added(2) lin after by (simp add: committed_def lineage_ok_snoc subset_insertI)
  qed (use lin after in \<open>auto simp: untouched_def\<close>)
qed

lemma commits_contained:
  assumes gate: "scope_gate (v_policy v)" and com: "commits X v (entries s) h e ci"
    and gov: "governed a0 sc (entries s) e" and sound: "\<forall>m \<in> set (entries s). sound_node X m"
    and all: "\<forall>m \<in> set (entries s). bounded_node X a0 sc m" and sign: "sign_node X ci key = Inr n"
  shows "bounded_node X a0 sc n"
proof -
  note f = sign_node_simps(5,6,13) [OF sign]
  show ?thesis
  proof (cases e)
    case (E_Root a sc' t)
    then show ?thesis using com gov f by (simp add: commits_def governed_def bounded_node_def root_inputs_def)
  next
    case (E_Cycle inp)
    let ?p = "cy_parent inp"
    have p: "?p \<in> set (entries s)" "n_valid_parent ?p" "cy_allowed_scope inp = sc"
      using gov E_Cycle by (simp_all add: governed_def)
    then have bound: "n_allowed_scope ?p = sc"
        "set (n_capability_sbom ?p) \<subseteq> capability_set X a0 \<union> scope_capabilities sc"
      using all by (auto simp: bounded_node_def)
    have "set (capability_sbom X (cy_candidate inp)) \<subseteq> capability_set X a0 \<union> scope_capabilities sc"
      if "gate_decision X v inp = Inr Approve"
      using scope_gate.approve_scope [OF gate that] bound by auto
    then show ?thesis
      using com E_Cycle f p(3)
      by (auto simp: commits_def bounded_node_def promoted_inputs_def rejected_inputs_def)
  next
    case (E_Commit_Rollback i t)
    then obtain target where t: "target \<in> set (entries s)" "n_status target = Promoted"
        "ci_artifact ci = n_artifact target" "ci_allowed_scope ci = n_allowed_scope target"
      using com by (auto simp: commits_def rollback_inputs_def)
    then have "n_valid_parent target" "n_capability_sbom target = capability_sbom X (n_artifact target)"
        "bounded_node X a0 sc target"
      using sound all by (auto simp: sound_node_def)
    then show ?thesis using f t by (simp add: bounded_node_def)
  qed (use com gov in \<open>auto simp: commits_def governed_def\<close>)
qed

text \<open>Containment is kept by every event of a governed host.\<close>

definition bounded_ledger ::
  "('m, 'n, 'k) ext \<Rightarrow> 'm agent_artifact \<Rightarrow> allowed_scope \<Rightarrow> 's \<Rightarrow> bool" where
  "bounded_ledger X a0 sc s \<longleftrightarrow> sound_ledger X s \<and> (\<forall>n \<in> set (entries s). bounded_node X a0 sc n)"

lemma bounded_empty: "inv s \<Longrightarrow> entries s = [] \<Longrightarrow> hd_of s = None \<Longrightarrow> bounded_ledger X a0 sc s"
  by (simp add: bounded_ledger_def sound_empty)

lemma effect_contained:
  assumes "effect X v e s s'" and "crypto_laws X" and "scope_gate (v_policy v)"
    and "governed a0 sc (entries s) e" and bounded: "bounded_ledger X a0 sc s"
  shows "bounded_ledger X a0 sc s'"
proof -
  have "sound_ledger X s'"
    using effect_sound [OF assms(1,2)] bounded by (simp add: bounded_ledger_def)
  moreover from assms(1) have "\<forall>n \<in> set (entries s'). bounded_node X a0 sc n"
  proof (cases rule: effect_cases)
    case (added ci key n h)
    have "bounded_node X a0 sc n"
      by (rule commits_contained [OF assms(3) added(1) assms(4) _ _ added(3)])
        (use bounded in \<open>simp_all add: bounded_ledger_def sound_ledger_def\<close>)
    then show ?thesis using added(2) bounded by (simp add: bounded_ledger_def committed_def)
  qed (use bounded in \<open>auto simp: bounded_ledger_def untouched_def\<close>)
  ultimately show ?thesis by (simp add: bounded_ledger_def)
qed

lemma reach_contained:
  assumes "lifecycle X v (\<lambda>s. governed a0 sc (entries s)) s0 s P" and "v_ledger v = S" and "crypto_laws X"
    and "scope_gate (v_policy v)" and "inv s0" and "entries s0 = []" and "hd_of s0 = None"
  shows "\<forall>n \<in> set (entries s). bounded_node X a0 sc n"
proof -
  from assms(1) have "bounded_ledger X a0 sc s"
  proof induction
    case start
    then show ?case using bounded_empty assms(5-7) by blast
  next
    case (step s P e r s')
    then have "effect X v e s s'"
      by (intro exec_has_effect [OF assms(2)]) (simp_all add: bounded_ledger_def sound_ledger_def)
    then show ?case using effect_contained [OF _ assms(3,4) step.hyps(2) step.IH] by blast
  qed
  then show ?thesis by (simp add: bounded_ledger_def)
qed

end


section \<open>A sample run\<close>

text \<open>The sample root, and one promoted child of it.\<close>

abbreviation demo_root_event :: "(demo_manifest, demo_num, char) event" where
  "demo_root_event \<equiv> E_Root (artifact_new (demo_man [''a''])) scope_default ''2026-01-01T00:00:00Z''"

abbreviation demo_child_event :: "(demo_manifest, demo_num, char) event" where
  "demo_child_event \<equiv> E_Cycle (demo_cycle demo_parent [''a''])"

lemma demo_root_signed:
  "sign_node (demo_ext True) (root_inputs (artifact_new (demo_man [''a''])) scope_default ''2026-01-01T00:00:00Z'')
     (CHR ''k'') = Inr demo_parent"
proof -
  have "root_inputs (artifact_new (demo_man [''a''])) scope_default ''2026-01-01T00:00:00Z''
      = demo_inputs [''a''] Promoted"
    by (simp add: root_inputs_def demo_inputs_def)
  then show ?thesis by (simp only: demo_node_signed demo_parent_def)
qed

lemma demo_commit_root:
  "veh_exec (demo_ext True) (demo_veh 1) demo_root_event mem_new = (Inr (R_Node demo_parent), demo_ledger)"
proof -
  note sign = demo_root_signed
  obtain g where "mem_append demo_parent mem_new = (Inr (), g)"
    by (rule mem_append_fresh [of mem_new demo_parent]) (simp_all only: mem_new_wf, simp_all add: mem_new_def)
  then have "mem_append demo_parent mem_new = (Inr (), demo_ledger)"
    by (simp add: demo_ledger_def)
  then show ?thesis
    by (simp add: op_map_def commit_root_def sign_and_append_def op_bind_def sign del: demo_ext_simps)
qed

text \<open>The ids of the nodes a cycle of the sample would sign are not on its ledger.\<close>

lemma demo_fresh_id:
  assumes "ci_parent_id ci \<noteq> None" and "wf_inputs ci" and "sign_node (demo_ext True) ci (CHR ''k'') = Inr n"
  shows "n_agent_id n \<notin> set (ids (mem_entries demo_ledger))"
proof -
  have inj: "inj (x_sha256 (demo_ext True))" by (simp add: inj_def)
  have "\<not> same_content (demo_ext True) ci (demo_inputs [''a''] Promoted)"
    using assms(1) by (auto simp: same_content_def demo_inputs_def)
  then show ?thesis
    using signed_ids_differ [OF demo_json_text_laws demo_json_num_laws demo_manifest_laws demo_crypto_laws
        inj assms(2) wf_demo_inputs assms(3) demo_node_signed] by (simp add: demo_parent_def)
qed

lemma demo_cycle_fresh:
  "\<forall>g d n. u32_succ (demo_ext True) (n_generation (cy_parent (demo_cycle demo_parent [''a'']))) = Inr g \<longrightarrow>
     manifest_diff (demo_ext True) (n_artifact (cy_parent (demo_cycle demo_parent [''a''])))
       (cy_candidate (demo_cycle demo_parent [''a''])) = Inr d \<longrightarrow>
     sign_node (demo_ext True) (cycle_promoted_inputs (demo_ext True) (demo_cycle demo_parent [''a'']) g d (from_score 1))
       (v_signing_key (demo_veh 1)) = Inr n \<or>
     sign_node (demo_ext True) (cycle_rejected_inputs (demo_ext True) (demo_cycle demo_parent [''a'']) g d (from_score 1))
       (v_signing_key (demo_veh 1)) = Inr n \<longrightarrow>
     n_agent_id n \<notin> set (ids (mem_entries demo_ledger))"
proof -
  let ?inp = "demo_cycle demo_parent [''a'']" and ?X = "demo_ext True"
  have "wf_inputs (cycle_promoted_inputs ?X ?inp g d (from_score 1))"
      "wf_inputs (cycle_rejected_inputs ?X ?inp g d (from_score 1))" for g d
    by (simp_all add: from_score_def)
  moreover have "ci_parent_id (cycle_promoted_inputs ?X ?inp g d (from_score 1)) \<noteq> None"
      "ci_parent_id (cycle_rejected_inputs ?X ?inp g d (from_score 1)) \<noteq> None" for g d
    by (simp_all add: promoted_inputs_def rejected_inputs_def)
  moreover have "v_signing_key (demo_veh 1) = CHR ''k''" by simp
  ultimately show ?thesis using demo_fresh_id by metis
qed

lemma demo_cycle_approved: "gate_decision (demo_ext True) (demo_veh 1) (demo_cycle demo_parent [''a'']) = Inr Approve"
  using demo_approve by simp

lemma demo_cycle_on_ledger:
  obtains n s' where "veh_exec (demo_ext True) (demo_veh 1) demo_child_event demo_ledger
      = (Inr (R_Cycle (Cycle_Promoted n (from_score 1))), s')"
proof -
  let ?inp = "demo_cycle demo_parent [''a'']" and ?X = "demo_ext True"
  have "\<exists>n. fst (run_cycle ?X (demo_veh 1) ?inp demo_ledger) = Inr (Cycle_Promoted n (from_score 1))"
    using run_cycle_progress [OF demo_json_text_laws demo_manifest_laws demo_veh_simps(1) demo_ledger_facts(1)
        _ _ _ _ demo_cycle_approved demo_cycle_fresh]
    by (auto simp: stub_evaluate_def from_score_def simp del: demo_ext_simps)
  then obtain n s' where "run_cycle ?X (demo_veh 1) ?inp demo_ledger = (Inr (Cycle_Promoted n (from_score 1)), s')"
    by (metis prod.collapse)
  then show thesis
    by (intro that) (simp add: op_map_def op_bind_def)
qed

lemma demo_parent_valid: "n_valid_parent demo_parent"
  using sign_node_simps(6) [OF demo_node_signed, of "[''a'']" Promoted "CHR ''k''"]
  by (simp add: demo_parent_def demo_inputs_def)

lemma demo_lifecycle:
  assumes "G mem_new demo_root_event" and "G demo_ledger demo_child_event"
  obtains n s where "lifecycle (demo_ext True) (demo_veh 1) G mem_new s {#}" and "n_status n = Promoted"
    and "mem_entries s = [demo_parent, n]"
proof -
  have one: "lifecycle (demo_ext True) (demo_veh 1) G mem_new demo_ledger {#}"
    using lifecycle.step [OF lifecycle.start, of G mem_new demo_root_event "demo_ext True" "demo_veh 1",
        OF assms(1) _ demo_commit_root]
    by (simp add: enabled_def pending_after_def)
  obtain n s where run: "veh_exec (demo_ext True) (demo_veh 1) demo_child_event demo_ledger
      = (Inr (R_Cycle (Cycle_Promoted n (from_score 1))), s)"
    by (rule demo_cycle_on_ledger)
  have two: "lifecycle (demo_ext True) (demo_veh 1) G mem_new s {#}"
    using lifecycle.step [OF one assms(2) _ run] by (simp add: enabled_def pending_after_def)
  have "run_cycle (demo_ext True) (demo_veh 1) (demo_cycle demo_parent [''a'']) demo_ledger
      = (Inr (Cycle_Promoted n (from_score 1)), s)"
    using run op_map_cases [of R_Cycle "run_cycle (demo_ext True) (demo_veh 1) (demo_cycle demo_parent [''a''])" demo_ledger]
    by auto
  then have "mem_entries s = [demo_parent, n] \<and> n_status n = Promoted"
  proof (cases rule: run_cycle_Inr)
    case (promoted diff eval g m)
    then show ?thesis
      using mem.sign_and_append_ok [OF _ _ promoted(7), of "demo_ext True"] sign_node_simps(1)
      by (fastforce simp: mem.committed_def)
  qed simp_all
  then show thesis using that two by blast
qed


section \<open>Properties\<close>

text \<open>
  C15: A cycle on the in-memory ledger always completes when its collaborators answer: with a verdict from the evaluator and
  the gate, a parent below the maximum generation of \<open>u32\<close>, and no recorded node under the id that
  the cycle's own promoted or rejected node would get, the outcome is a rejection when FR-5 or the gate
  rejects, a pause when the gate asks for approval, and a promotion otherwise.
\<close>

theorem run_cycle_completes:
  assumes "json_text_laws X" and "manifest_laws X"
    and "v_ledger v = mem_store X" and "mem_wf s"
    and "wf_intent (cy_intent inp)" and "n_generation (cy_parent inp) \<noteq> - 1"
    and "ev_evaluate (v_evaluator v) (cy_candidate inp) = Inr eval" and "wf_json (er_details eval)"
    and "gate_decision X v inp = Inr decision"
    and "\<forall>g d n. u32_succ X (n_generation (cy_parent inp)) = Inr g \<longrightarrow>
       manifest_diff X (n_artifact (cy_parent inp)) (cy_candidate inp) = Inr d \<longrightarrow>
       sign_node X (cycle_promoted_inputs X inp g d eval) (v_signing_key v) = Inr n \<or>
       sign_node X (cycle_rejected_inputs X inp g d eval) (v_signing_key v) = Inr n \<longrightarrow>
       n_agent_id n \<notin> set (ids (mem_entries s))"
  shows "\<exists>out. fst (run_cycle X v inp s) = Inr out \<and>
     (if not_improved X (v_strict v) (cy_parent inp) eval \<noteq> None \<or> (\<exists>r. decision = Deny r)
      then \<exists>n r. out = Cycle_Rejected n r
      else if decision = Approve then \<exists>n. out = Cycle_Promoted n eval
      else \<exists>p. out = Awaiting_Approval p)"
  by (rule run_cycle_progress [OF assms])

text \<open>A second cycle on a ledger that holds its parent.\<close>

theorem run_cycle_completes_witness:
  "\<exists>n. mem_entries demo_ledger = [demo_parent] \<and>
     fst (run_cycle (demo_ext True) (demo_veh 1) (demo_cycle demo_parent [''a'']) demo_ledger)
       = Inr (Cycle_Promoted n (from_score 1))"
  using run_cycle_completes [OF demo_json_text_laws demo_manifest_laws demo_veh_simps(1) demo_ledger_facts(1)
      _ _ _ _ demo_cycle_approved demo_cycle_fresh]
  by (auto simp: stub_evaluate_def from_score_def simp del: demo_ext_simps)

text \<open>A sound in-memory ledger, spelled out.\<close>

lemma sound_ledger_facts:
  assumes "mem.sound_ledger X s"
  shows "distinct (ids (mem_entries s)) \<and>
     (\<forall>n \<in> set (mem_entries s). verify_node X n = Inr () \<and> (n_valid_parent n \<longleftrightarrow> n_status n = Promoted) \<and>
        n_capability_sbom n = capability_sbom X (n_artifact n)) \<and>
     (case im_head s of
        None \<Rightarrow> \<forall>n \<in> set (mem_entries s). n_status n = Rejected
      | Some h \<Rightarrow> \<exists>n \<in> set (mem_entries s). n_agent_id n = h \<and> n_status n = Promoted)"
proof -
  have "mem_wf s" and "\<forall>n \<in> set (mem_entries s). sound_node X n"
      and "head_promoted (mem_entries s) (im_head s)"
    using assms by (simp_all add: mem.sound_ledger_def)
  moreover have "n_status n \<noteq> Promoted \<longleftrightarrow> n_status n = Rejected" for n :: "('a, 'b) agent_node"
    by (cases "n_status n") simp_all
  ultimately show ?thesis
    using mem.distinct_ids [of s]
    by (auto simp: sound_node_def head_promoted_def split: option.splits)
qed

text \<open>
  Whatever the host calls, on an in-memory ledger that started empty every recorded node
  verifies, is a valid parent exactly when it is promoted and records its artifact's SBOM; ids are
  unique; and the head, once there is a promoted node, is a recorded promoted node.
\<close>

theorem reachable_ledger_sound:
  assumes "lifecycle X v G mem_new s P" and "v_ledger v = mem_store X" and "crypto_laws X"
  shows "distinct (ids (mem_entries s)) \<and>
     (\<forall>n \<in> set (mem_entries s). verify_node X n = Inr () \<and> (n_valid_parent n \<longleftrightarrow> n_status n = Promoted) \<and>
        n_capability_sbom n = capability_sbom X (n_artifact n)) \<and>
     (case im_head s of
        None \<Rightarrow> \<forall>n \<in> set (mem_entries s). n_status n = Rejected
      | Some h \<Rightarrow> \<exists>n \<in> set (mem_entries s). n_agent_id n = h \<and> n_status n = Promoted)"
  by (rule sound_ledger_facts) (simp add: mem.sound_ledger_def mem.reach_sound [OF assms])

theorem reachable_ledger_sound_witness:
  "\<exists>s n. mem_entries s = [demo_parent, n] \<and> distinct (ids (mem_entries s)) \<and>
     verify_node (demo_ext True) n = Inr ()"
proof -
  obtain n s where l: "lifecycle (demo_ext True) (demo_veh 1) (\<lambda>_ _. True) mem_new s {#}"
      and e: "mem_entries s = [demo_parent, n]"
    by (rule demo_lifecycle [of "\<lambda>_ _. True"]) simp_all
  have "v_ledger (demo_veh 1) = mem_store (demo_ext True)" by simp
  then show ?thesis
    using reachable_ledger_sound [OF l _ demo_crypto_laws] e
    by (intro exI [of _ s] exI [of _ n]) simp
qed

text \<open>
  C7: History is append-only: from any well-formed ledger, whatever the host calls, the recorded
  nodes stay in place, unchanged and in order, and every recorded id keeps answering with its node.
\<close>

theorem history_append_only:
  assumes "lifecycle X v G s0 s P" and "v_ledger v = mem_store X" and "mem_wf s0"
  shows "(\<exists>new. mem_entries s = mem_entries s0 @ new) \<and>
     (\<forall>i n. mem_get i s0 = Inr n \<longrightarrow> mem_get i s = Inr n)"
proof -
  obtain new where wf: "mem_wf s" and new: "mem_entries s = mem_entries s0 @ new"
    using mem.reach_append_only [OF assms] by blast
  have "mem_get i s = Inr n" if "mem_get i s0 = Inr n" for i n
  proof -
    have "node_at (mem_entries s0) i = Some n"
      using that by (simp add: mem_get_def ok_or_Inr_iff mem_wf_lookup [OF assms(3)])
    then have "n \<in> set (mem_entries s)" "n_agent_id n = i"
      using node_at_Some new by fastforce+
    then show ?thesis
      using mem.get_mem [OF wf, of X i n] by simp
  qed
  then show ?thesis using new by blast
qed

theorem history_append_only_witness:
  "\<exists>s n. mem_entries s = [demo_parent, n] \<and> (\<exists>new. mem_entries s = mem_entries mem_new @ new)"
proof -
  obtain n s where l: "lifecycle (demo_ext True) (demo_veh 1) (\<lambda>_ _. True) mem_new s {#}"
      and e: "mem_entries s = [demo_parent, n]"
    by (rule demo_lifecycle [of "\<lambda>_ _. True"]) simp_all
  have "v_ledger (demo_veh 1) = mem_store (demo_ext True)" by simp
  then have "\<exists>new. mem_entries s = mem_entries mem_new @ new"
    using history_append_only [OF l] by simp
  then show ?thesis using e by blast
qed

text \<open>
  When the host evolves recorded nodes only, every node's ancestors lead to a root, and in a
  build with overflow checks its generation is the length of that chain.
\<close>

theorem generation_is_depth:
  assumes "lifecycle X v (\<lambda>s. recorded_parents (mem_entries s)) mem_new s P" and "v_ledger v = mem_store X"
    and "x_overflow_checks X" and "n \<in> set (mem_entries s)"
  shows "descends (mem_entries s) (n_agent_id n) (unat (n_generation n))"
proof -
  have "lineage_ok X (mem_entries s)"
    using mem.reach_lineage [OF assms(1,2)] by simp
  then show ?thesis by (rule lineage_descends [OF _ assms(3,4)])
qed

theorem generation_is_depth_witness:
  "\<exists>s n. mem_entries s = [demo_parent, n] \<and>
     descends (mem_entries s) (n_agent_id n) (unat (n_generation n))"
proof -
  obtain n s where l: "lifecycle (demo_ext True) (demo_veh 1) (\<lambda>s. recorded_parents (mem_entries s)) mem_new s {#}"
      and e: "mem_entries s = [demo_parent, n]"
    by (rule demo_lifecycle [of "\<lambda>s. recorded_parents (mem_entries s)"]) (simp_all add: recorded_parents_def)
  have "v_ledger (demo_veh 1) = mem_store (demo_ext True)" by simp
  then have "descends (mem_entries s) (n_agent_id n) (unat (n_generation n))"
    by (rule generation_is_depth [OF l]) (simp_all add: e)
  then show ?thesis using e by blast
qed

text \<open>
  Containment: a host that starts from one artifact and scope, evolves valid recorded parents
  under that scope and approves nothing out of band never promotes a capability outside the
  artifact's own SBOM and the scope's allow-lists, through any sequence of cycles and rollbacks.
\<close>

theorem capabilities_contained:
  assumes "lifecycle X v (\<lambda>s. governed a0 sc (mem_entries s)) mem_new s P" and "v_ledger v = mem_store X"
    and "v_policy v = default_evaluate X" and "crypto_laws X"
    and "n \<in> set (mem_entries s)" and "n_status n = Promoted"
  shows "set (capability_sbom X (n_artifact n)) \<subseteq> set (capability_sbom X a0) \<union> scope_capabilities sc"
proof -
  have "scope_gate (v_policy v)"
    using assms(3) default_gate.scope_gate_axioms by simp
  then have "bounded_node X a0 sc n"
    using mem.reach_contained [OF assms(1,2,4)] assms(5) by simp
  moreover have "sound_node X n"
    using mem.reach_sound [OF assms(1,2,4)] assms(5) by simp
  ultimately show ?thesis
    using assms(6) by (simp add: bounded_node_def sound_node_def)
qed

theorem capabilities_contained_witness:
  "\<exists>s n. mem_entries s = [demo_parent, n] \<and>
     set (capability_sbom (demo_ext True) (n_artifact n)) \<subseteq> {''tool:a'', ''mcp:files''}"
proof -
  let ?a = "artifact_new (demo_man [''a''])"
  obtain n s where l: "lifecycle (demo_ext True) (demo_veh 1) (\<lambda>s. governed ?a scope_default (mem_entries s)) mem_new s {#}"
      and e: "mem_entries s = [demo_parent, n]" and st: "n_status n = Promoted"
    by (rule demo_lifecycle [of "\<lambda>s. governed ?a scope_default (mem_entries s)"])
      (simp_all add: governed_def demo_parent_valid)
  have "set (capability_sbom (demo_ext True) (n_artifact n)) \<subseteq>
      set (capability_sbom (demo_ext True) ?a) \<union> scope_capabilities scope_default"
    by (rule capabilities_contained [OF l _ _ demo_crypto_laws _ st]) (simp_all add: e)
  also have "\<dots> \<subseteq> {''tool:a'', ''mcp:files''}"
    by (simp add: capability_set_def tool_capability_def artifact_new_def scope_capabilities_def scope_default_def)
  finally show ?thesis using e by blast
qed

end
