(* ===== verification/Veh_Evolution.thy ===== *)
theory Veh_Evolution
  imports Veh_Lifecycle Veh_Selector
begin

text \<open>
  \<^verbatim>\<open>src/mutator.rs\<close>, \<^verbatim>\<open>src/sandbox.rs\<close> and \<^verbatim>\<open>src/evolution.rs\<close>: the mutation context with its builders,
  the \<open>Mutator\<close> and \<open>Sandbox\<close> traits as records of their methods, the stock implementations, and the
  driver that runs one generation. The driver's state is the pair of the ledger's state, which the
  runner and the driver share, and the sandbox's own state.
\<close>

section \<open>Mutators\<close>

record 'n mutation_context =
  mc_iterations_left :: "u32 option"
  mc_metadata :: "'n json"

definition context_new :: "'n mutation_context" where
  "context_new = \<lparr>mc_iterations_left = None, mc_metadata = JNull\<rparr>"

definition with_iterations_left :: "'n mutation_context \<Rightarrow> u32 \<Rightarrow> 'n mutation_context" where
  "with_iterations_left c iterations = c\<lparr>mc_iterations_left := Some iterations\<rparr>"

definition with_metadata :: "'n mutation_context \<Rightarrow> 'n json \<Rightarrow> 'n mutation_context" where
  "with_metadata c metadata = c\<lparr>mc_metadata := metadata\<rparr>"

record ('m, 'n) mutator =
  mu_propose :: "('m, 'n) agent_node \<Rightarrow> 'n mutation_intent \<Rightarrow> 'n mutation_context \<Rightarrow> 'm agent_artifact res"

definition static_mutator :: "'m agent_artifact \<Rightarrow> ('m, 'n) mutator" where
  "static_mutator artifact = \<lparr>mu_propose = (\<lambda>_ _ _. Inr artifact)\<rparr>"


section \<open>Sandboxes\<close>

record ('b, 'm) sandbox =
  sb_enforce :: "'m agent_artifact \<Rightarrow> allowed_scope \<Rightarrow> ('b, unit) op"
  sb_teardown :: "('b, unit) op"

definition default_teardown :: "('b, unit) op" where
  "default_teardown b = (Inr (), b)"

definition noop_sandbox :: "('b, 'm) sandbox" where
  "noop_sandbox = \<lparr>sb_enforce = (\<lambda>_ _ b. (Inr (), b)), sb_teardown = default_teardown\<rparr>"


lemma noop_sandbox_simps [simp]:
  "sb_enforce noop_sandbox a sc b = (Inr (), b)" "sb_teardown noop_sandbox b = (Inr (), b)"
  by (simp_all add: noop_sandbox_def default_teardown_def)


section \<open>The driver\<close>

record ('s, 'b, 'm, 'n, 'k) evolution_driver =
  ed_veh :: "('s, 'm, 'n, 'k) veh"
  ed_ledger :: "('s, 'm, 'n) lineage_store"
  ed_selector :: "('s, 'm, 'n) selector"
  ed_mutator :: "('m, 'n) mutator"
  ed_sandbox :: "('b, 'm) sandbox"

definition driver_new ::
  "('s, 'm, 'n, 'k) veh \<Rightarrow> ('s, 'm, 'n) lineage_store \<Rightarrow> ('s, 'm, 'n) selector \<Rightarrow> ('m, 'n) mutator
     \<Rightarrow> ('b, 'm) sandbox \<Rightarrow> ('s, 'b, 'm, 'n, 'k) evolution_driver" where
  "driver_new v ledger selector mutator sandbox =
     \<lparr>ed_veh = v, ed_ledger = ledger, ed_selector = selector, ed_mutator = mutator, ed_sandbox = sandbox\<rparr>"

text \<open>An operation on one of the two states.\<close>

definition on_ledger :: "('s, 'a) op \<Rightarrow> ('s \<times> 'b, 'a) op" where
  "on_ledger m = (\<lambda>(s, b). let (r, s') = m s in (r, (s', b)))"

definition on_sandbox :: "('b, 'a) op \<Rightarrow> ('s \<times> 'b, 'a) op" where
  "on_sandbox m = (\<lambda>(s, b). let (r, b') = m b in (r, (s, b')))"

text \<open>
  The cycle and the teardown: the teardown runs whatever the cycle returns, and the cycle's error wins.
  A panic returns nothing: that of the cycle skips the teardown, that of the teardown hides the outcome.
\<close>

definition cycle_and_teardown ::
  "('m, 'n, 'k) ext \<Rightarrow> ('s, 'b, 'm, 'n, 'k) evolution_driver \<Rightarrow> ('m, 'n) cycle_inputs
     \<Rightarrow> ('s \<times> 'b, ('m, 'n) cycle_outcome) op" where
  "cycle_and_teardown X d inputs =
     op_try (on_ledger (run_cycle X (ed_veh d) inputs)) (\<lambda>outcome.
     op_try (on_sandbox (sb_teardown (ed_sandbox d))) (\<lambda>teardown.
     op_lift (\<lambda>_. res_bind outcome (\<lambda>result. res_bind teardown (\<lambda>_. Inr result)))))"

definition run_generation ::
  "('m, 'n, 'k) ext \<Rightarrow> ('s, 'b, 'm, 'n, 'k) evolution_driver \<Rightarrow> 'n mutation_intent \<Rightarrow> allowed_scope
     \<Rightarrow> 'n mutation_context \<Rightarrow> string \<Rightarrow> ('s \<times> 'b, ('m, 'n) cycle_outcome) op" where
  "run_generation X d intent scope ctx created =
     op_bind (op_lift (\<lambda>(s, b). ed_selector d (ed_ledger d) s)) (\<lambda>parent_id.
     op_bind (op_lift (\<lambda>(s, b). ls_get (ed_ledger d) parent_id s)) (\<lambda>parent.
     op_bind (op_lift (\<lambda>_. mu_propose (ed_mutator d) parent intent ctx)) (\<lambda>candidate.
     op_bind (on_sandbox (sb_enforce (ed_sandbox d) candidate scope)) (\<lambda>_.
     cycle_and_teardown X d
       \<lparr>cy_parent = parent, cy_intent = intent, cy_candidate = candidate, cy_allowed_scope = scope,
        cy_created_at = created\<rparr>))))"


section \<open>The stages of a generation\<close>

lemma on_ledger_apply [simp]: "on_ledger m (s, b) = (fst (m s), (snd (m s), b))"
  by (simp add: on_ledger_def split: prod.split)

lemma on_sandbox_apply [simp]: "on_sandbox m (s, b) = (fst (m b), (s, snd (m b)))"
  by (simp add: on_sandbox_def split: prod.split)

text \<open>What a generation reaches before it enforces the sandbox: the parent and the candidate.\<close>

definition proposal ::
  "('s, 'b, 'm, 'n, 'k) evolution_driver \<Rightarrow> 'n mutation_intent \<Rightarrow> 'n mutation_context \<Rightarrow> 's
     \<Rightarrow> (('m, 'n) agent_node \<times> 'm agent_artifact) res" where
  "proposal d intent ctx s =
     res_bind (ed_selector d (ed_ledger d) s) (\<lambda>parent_id.
     res_bind (ls_get (ed_ledger d) parent_id s) (\<lambda>parent.
     res_bind (mu_propose (ed_mutator d) parent intent ctx) (\<lambda>candidate. Inr (parent, candidate))))"

definition generation_inputs ::
  "'n mutation_intent \<Rightarrow> allowed_scope \<Rightarrow> string \<Rightarrow> ('m, 'n) agent_node \<Rightarrow> 'm agent_artifact
     \<Rightarrow> ('m, 'n) cycle_inputs" where
  "generation_inputs intent scope created parent candidate =
     \<lparr>cy_parent = parent, cy_intent = intent, cy_candidate = candidate, cy_allowed_scope = scope,
      cy_created_at = created\<rparr>"

lemma generation_inputs_simps [simp]:
  "cy_parent (generation_inputs i sc t p c) = p" "cy_candidate (generation_inputs i sc t p c) = c"
  "cy_allowed_scope (generation_inputs i sc t p c) = sc"
  by (simp_all add: generation_inputs_def)

lemma run_generation_eq:
  "run_generation X d intent scope ctx created (s, b) =
     (case proposal d intent ctx s of
        Inl e \<Rightarrow> (Inl e, (s, b))
      | Inr (parent, candidate) \<Rightarrow>
          (case sb_enforce (ed_sandbox d) candidate scope b of
             (Inl e, b') \<Rightarrow> (Inl e, (s, b'))
           | (Inr _, b') \<Rightarrow>
               cycle_and_teardown X d (generation_inputs intent scope created parent candidate) (s, b')))"
  by (auto simp: run_generation_def proposal_def op_bind_def res_bind_def generation_inputs_def
      split: sum.splits prod.splits)

lemma cycle_and_teardown_eq:
  "cycle_and_teardown X d inp (s, b) =
     (case run_cycle X (ed_veh d) inp s of
        (Inl e, s') \<Rightarrow>
          (if is_panic e then (Inl e, (s', b))
           else case sb_teardown (ed_sandbox d) b of
             (Inl e', b') \<Rightarrow> (Inl (if is_panic e' then e' else e), (s', b'))
           | (Inr _, b') \<Rightarrow> (Inl e, (s', b')))
      | (Inr out, s') \<Rightarrow>
          (case sb_teardown (ed_sandbox d) b of
             (Inl e, b') \<Rightarrow> (Inl e, (s', b'))
           | (Inr _, b') \<Rightarrow> (Inr out, (s', b'))))"
  by (auto simp: cycle_and_teardown_def op_try_def split: sum.splits prod.splits)


text \<open>
  A generation in one case distinction: refused before the sandbox, by the sandbox, cut off by a panic
  of the cycle, or cycled and torn down.
\<close>

lemma run_generation_cases:
  assumes "run_generation X d intent scope ctx created (s, b) = (r, (s', b'))"
  obtains
    (no_proposal) e where "proposal d intent ctx s = Inl e" "r = Inl e" "s' = s" "b' = b"
  | (not_enforced) p c e where "proposal d intent ctx s = Inr (p, c)"
      "sb_enforce (ed_sandbox d) c scope b = (Inl e, b')" "r = Inl e" "s' = s"
  | (unwound) p c e where "proposal d intent ctx s = Inr (p, c)"
      "sb_enforce (ed_sandbox d) c scope b = (Inr (), b')"
      "run_cycle X (ed_veh d) (generation_inputs intent scope created p c) s = (Inl e, s')"
      "is_panic e" "r = Inl e"
  | (cycled) p c b1 q t where "proposal d intent ctx s = Inr (p, c)"
      "sb_enforce (ed_sandbox d) c scope b = (Inr (), b1)"
      "run_cycle X (ed_veh d) (generation_inputs intent scope created p c) s = (q, s')"
      "\<And>e. q = Inl e \<Longrightarrow> \<not> is_panic e" "sb_teardown (ed_sandbox d) b1 = (t, b')"
      "r = q \<or> (\<exists>e. r = Inl e \<and> t = Inl e)"
proof (cases "proposal d intent ctx s")
  case (Inl e)
  with assms show thesis by (intro no_proposal) (auto simp: run_generation_eq)
next
  case (Inr pc)
  obtain p c where pc: "pc = (p, c)" by force
  obtain q1 b1 where e: "sb_enforce (ed_sandbox d) c scope b = (q1, b1)" by force
  show thesis
  proof (cases q1)
    case (Inl err)
    with assms Inr pc e show thesis by (intro not_enforced) (auto simp: run_generation_eq)
  next
    case q1: (Inr u)
    then have b1: "sb_enforce (ed_sandbox d) c scope b = (Inr (), b1)" using e by simp
    obtain q s1 where "run_cycle X (ed_veh d) (generation_inputs intent scope created p c) s = (q, s1)" by force
    note facts = assms Inr pc b1 this
    show thesis
    proof (cases "\<exists>e. q = Inl e \<and> is_panic e")
      case True
      then obtain e where "q = Inl e" "is_panic e" by blast
      with facts show thesis by (intro unwound [of p c e]) (auto simp: run_generation_eq cycle_and_teardown_eq)
    next
      case False
      obtain t b2 where "sb_teardown (ed_sandbox d) b1 = (t, b2)" by force
      with facts False show thesis
        by (intro cycled [of p c b1 q t])
          (auto simp: run_generation_eq cycle_and_teardown_eq split: sum.splits if_splits)
    qed
  qed
qed

context evolution_store
begin

lemma proposal_Inr:
  assumes "ed_ledger d = S" and "ed_selector d = select" and "inv s"
    and "proposal d intent ctx s = Inr (p, c)"
  shows "p \<in> set (entries s) \<and> n_valid_parent p \<and> mu_propose (ed_mutator d) p intent ctx = Inr c"
proof -
  from assms obtain i where i: "select S s = Inr i" "ls_get S i s = Inr p"
      "mu_propose (ed_mutator d) p intent ctx = Inr c"
    by (auto simp: proposal_def res_bind_Inr_iff)
  obtain n where "ls_get S i s = Inr n" "n \<in> set (entries s)" "n_valid_parent n"
    by (rule selected_parent [OF assms(3) i(1)])
  then show ?thesis using i by simp
qed

lemma cycle_effect:
  assumes "v_ledger v = S" and "inv s" and "run_cycle X v inp s = (Inr out, s')"
  shows "inv s' \<and>
     (case out of
        Cycle_Promoted n _ \<Rightarrow> entries s' = entries s @ [n] \<and> hd_of s' = Some (n_agent_id n) \<and>
          n_parent_id n = Some (n_agent_id (cy_parent inp)) \<and> n_artifact n = cy_candidate inp \<and>
          n_status n = Promoted
      | Cycle_Rejected n _ \<Rightarrow> entries s' = entries s @ [n] \<and> hd_of s' = hd_of s \<and>
          n_parent_id n = Some (n_agent_id (cy_parent inp)) \<and> n_artifact n = cy_candidate inp \<and>
          n_status n = Rejected
      | Awaiting_Approval p \<Rightarrow> entries s' = entries s \<and> hd_of s' = hd_of s \<and>
          pa_parent_id p = Some (n_agent_id (cy_parent inp)) \<and> pa_candidate p = cy_candidate inp)"
  using assms(3)
proof (cases rule: run_cycle_Inr)
  case (promoted diff eval g n)
  have "committed X (cycle_promoted_inputs X inp g diff eval) (v_signing_key v) s n s'"
    by (rule sign_and_append_ok [OF assms(1,2) promoted(7)])
  then show ?thesis
    using promoted(1) by (auto simp: committed_def pushed_def promoted_inputs_def dest: sign_node_simps)
next
  case (rejected diff eval g n reason)
  have "committed X (cycle_rejected_inputs X inp g diff eval) (v_signing_key v) s n s'"
    by (rule sign_and_append_ok [OF assms(1,2) rejected(6)])
  then show ?thesis
    using rejected(1) by (auto simp: committed_def pushed_def rejected_inputs_def dest: sign_node_simps)
next
  case (awaiting diff eval reason)
  then show ?thesis using assms(2) by (simp add: pending_of_def)
qed

end


section \<open>Many generations\<close>

text \<open>The host calls the driver again and again, with scopes among those of \<open>A\<close>.\<close>

inductive driver_run ::
  "('m, 'n, 'k) ext \<Rightarrow> ('s, 'b, 'm, 'n, 'k) evolution_driver \<Rightarrow> (allowed_scope \<Rightarrow> bool)
     \<Rightarrow> 's \<times> 'b \<Rightarrow> 's \<times> 'b \<Rightarrow> bool"
  for X d A st0 where
  start: "driver_run X d A st0 st0"
| generation: "driver_run X d A st0 st \<Longrightarrow> A scope \<Longrightarrow>
     run_generation X d intent scope ctx created st = (r, st') \<Longrightarrow> driver_run X d A st0 st'"

text \<open>The calls a driver makes of the runner: cycles from recorded valid parents under such a scope.\<close>

definition valid_cycle ::
  "(allowed_scope \<Rightarrow> bool) \<Rightarrow> ('m, 'n) agent_node list \<Rightarrow> ('m, 'n, 'k) event \<Rightarrow> bool" where
  "valid_cycle A ns e \<longleftrightarrow>
     (case e of
        E_Cycle inp \<Rightarrow> cy_parent inp \<in> set ns \<and> n_valid_parent (cy_parent inp) \<and> A (cy_allowed_scope inp)
      | _ \<Rightarrow> False)"

context evolution_store
begin

lemma generation_refines:
  assumes "ed_ledger d = S" and "v_ledger (ed_veh d) = S" and "ed_selector d = select"
    and allow: "\<And>s e. valid_cycle A (entries s) e \<Longrightarrow> G s e"
    and "inv s" and "lifecycle X (ed_veh d) G s0 s P" and "A scope"
    and "run_generation X d intent scope ctx created (s, b) = (r, (s', b'))"
  shows "inv s' \<and> (\<exists>P'. lifecycle X (ed_veh d) G s0 s' P')"
proof -
  have cycle: ?thesis
    if "proposal d intent ctx s = Inr (p, c)"
      and run: "run_cycle X (ed_veh d) (generation_inputs intent scope created p c) s = (q, s')" for p c q
  proof -
    let ?e = "E_Cycle (generation_inputs intent scope created p c)"
    have g: "G s ?e"
      using proposal_Inr [OF assms(1,3,5) that(1)] assms(7) by (intro allow) (simp add: valid_cycle_def)
    obtain r' where ex: "veh_exec X (ed_veh d) ?e s = (r', s')"
      using run by (cases q) (simp_all add: op_map_def op_bind_def)
    have "\<exists>P'. lifecycle X (ed_veh d) G s0 s' P'"
      using lifecycle.step [OF assms(6) g _ ex] by (auto simp: enabled_def)
    moreover have "inv s'"
      using assms(2,5) ex by (cases rule: exec_effect) (auto simp: untouched_def committed_def)
    ultimately show ?thesis by blast
  qed
  from assms(8) show ?thesis
  proof (cases rule: run_generation_cases)
    case (unwound p c e)
    show ?thesis by (rule cycle [OF unwound(1,3)])
  next
    case (cycled p c b1 q t)
    show ?thesis by (rule cycle [OF cycled(1,3)])
  qed (use assms in auto)
qed

lemma driver_run_refines:
  assumes "driver_run X d A st st'"
    and "ed_ledger d = S" and "v_ledger (ed_veh d) = S" and "ed_selector d = select"
    and "\<And>s e. valid_cycle A (entries s) e \<Longrightarrow> G s e"
    and "inv (fst st)" and "lifecycle X (ed_veh d) G s0 (fst st) P"
  shows "inv (fst st') \<and> (\<exists>P'. lifecycle X (ed_veh d) G s0 (fst st') P')"
  using assms(1)
proof induction
  case start
  then show ?case using assms(6,7) by blast
next
  case (generation st1 scope intent ctx created r st2)
  then obtain P1 where i: "inv (fst st1)" and l: "lifecycle X (ed_veh d) G s0 (fst st1) P1" by blast
  show ?case
    using generation_refines [where A = A, OF assms(2-5) i l generation.hyps(2)] generation.hyps(3)
    by (cases st1; cases st2) auto
qed

lemma generation_Inl:
  assumes "ed_ledger d = S" and "v_ledger (ed_veh d) = S" and "inv s"
    and "run_generation X d intent scope ctx created (s, b) = (Inl e, (s', b'))"
  shows "untouched s s' \<or>
     (\<exists>n b1. entries s' = entries s @ [n] \<and> fst (sb_teardown (ed_sandbox d) b1) = Inl e)"
  using assms(4)
proof (cases rule: run_generation_cases)
  case (unwound p c err)
  then show ?thesis using run_cycle_err [OF assms(2,3)] by blast
next
  case (cycled p c b1 q t)
  show ?thesis
  proof (cases q)
    case (Inl err)
    then show ?thesis using run_cycle_err [OF assms(2,3)] cycled(3) by blast
  next
    case (Inr out)
    then have "fst (sb_teardown (ed_sandbox d) b1) = Inl e"
      using cycled(5,6) by auto
    then show ?thesis
      using cycle_effect [OF assms(2,3)] cycled(3) Inr
      by (cases out) (fastforce simp: untouched_def)+
  qed
qed (use assms(3) in auto)

lemma generation_Inr:
  assumes "ed_ledger d = S" and "v_ledger (ed_veh d) = S" and "ed_selector d = select" and "inv s"
    and "run_generation X d intent scope ctx created (s, b) = (Inr out, (s', b'))"
  obtains p c where "p \<in> set (entries s)" and "n_valid_parent p"
    and "mu_propose (ed_mutator d) p intent ctx = Inr c" and "fst (sb_enforce (ed_sandbox d) c scope b) = Inr ()"
    and "run_cycle X (ed_veh d) (generation_inputs intent scope created p c) s = (Inr out, s')"
  using assms(5)
proof (cases rule: run_generation_cases)
  case (cycled p c b1 q t)
  then have "q = Inr out" by auto
  then show thesis
    using cycled proposal_Inr [OF assms(1,3,4) cycled(1)] by (intro that [of p c]) simp_all
qed simp_all

end

lemma driver_new_simps [simp]:
  "ed_veh (driver_new v l sel mu sb) = v" "ed_ledger (driver_new v l sel mu sb) = l"
  "ed_selector (driver_new v l sel mu sb) = sel" "ed_mutator (driver_new v l sel mu sb) = mu"
  "ed_sandbox (driver_new v l sel mu sb) = sb"
  by (simp_all add: driver_new_def)


section \<open>A concrete driver\<close>

text \<open>The sandbox state says whether resources are held; either method can be made to fail.\<close>

definition demo_sandbox :: "bool \<Rightarrow> bool \<Rightarrow> (bool, demo_manifest) sandbox" where
  "demo_sandbox refuse stuck =
     \<lparr>sb_enforce = (\<lambda>_ _ _. (if refuse then Inl (PolicyDenied ''isolation'') else Inr (), True)),
      sb_teardown = (\<lambda>_. (if stuck then Inl (Io ''teardown'') else Inr (), False))\<rparr>"

definition demo_driver ::
  "bool \<Rightarrow> bool \<Rightarrow> ((demo_manifest, demo_num) mem_inner, bool, demo_manifest, demo_num, char) evolution_driver" where
  "demo_driver refuse stuck =
     driver_new (demo_veh 1) (mem_store (demo_ext True)) latest_select
       (static_mutator (artifact_new (demo_man [''a'']))) (demo_sandbox refuse stuck)"

lemma demo_driver_simps [simp]:
  "ed_veh (demo_driver f k) = demo_veh 1" "ed_ledger (demo_driver f k) = mem_store (demo_ext True)"
  "ed_selector (demo_driver f k) = latest_select"
  "mu_propose (ed_mutator (demo_driver f k)) p i c = Inr (artifact_new (demo_man [''a'']))"
  "ed_sandbox (demo_driver f k) = demo_sandbox f k"
  by (simp_all add: demo_driver_def static_mutator_def)

abbreviation demo_generation ::
  "bool \<Rightarrow> bool \<Rightarrow> ((demo_manifest, demo_num) mem_inner \<times> bool, (demo_manifest, demo_num) cycle_outcome) op" where
  "demo_generation refuse stuck \<equiv>
     run_generation (demo_ext True) (demo_driver refuse stuck) (intent_new ''tighten'') scope_default
       context_new ''2026-01-01T00:01:00Z''"

lemma demo_proposal:
  "proposal (demo_driver f k) intent ctx demo_ledger = Inr (demo_parent, artifact_new (demo_man [''a'']))"
proof -
  have "latest_select (mem_store (demo_ext True)) demo_ledger = Inr (n_agent_id demo_parent)"
    by (simp add: latest_select_def mem_nodes_def demo_parent_def)
  moreover have "mem_get (n_agent_id demo_parent) demo_ledger = Inr demo_parent"
    using mem.get_mem [of demo_ledger "demo_ext True" "n_agent_id demo_parent" demo_parent] by simp
  ultimately show ?thesis
    by (simp add: proposal_def)
qed

abbreviation demo_generation_inputs :: "(demo_manifest, demo_num) cycle_inputs" where
  "demo_generation_inputs \<equiv> generation_inputs (intent_new ''tighten'') scope_default ''2026-01-01T00:01:00Z'' demo_parent
     (artifact_new (demo_man [''a'']))"

lemma demo_generation_cycle:
  obtains n s' where "run_cycle (demo_ext True) (demo_veh 1) demo_generation_inputs demo_ledger
      = (Inr (Cycle_Promoted n (from_score 1)), s')"
proof -
  obtain n s' where "veh_exec (demo_ext True) (demo_veh 1) demo_child_event demo_ledger
      = (Inr (R_Cycle (Cycle_Promoted n (from_score 1))), s')"
    by (rule demo_cycle_on_ledger)
  then have run: "run_cycle (demo_ext True) (demo_veh 1) (demo_cycle demo_parent [''a'']) demo_ledger
      = (Inr (Cycle_Promoted n (from_score 1)), s')"
    using op_map_cases [of R_Cycle "run_cycle (demo_ext True) (demo_veh 1) (demo_cycle demo_parent [''a''])" demo_ledger]
    by auto
  have "demo_generation_inputs = demo_cycle demo_parent [''a'']"
    by (simp add: generation_inputs_def demo_cycle_def)
  then show thesis using run by (intro that) simp
qed

lemma demo_generation_ran:
  obtains n s' where "demo_generation False k (demo_ledger, False)
      = ((if k then Inl (Io ''teardown'') else Inr (Cycle_Promoted n (from_score 1))), (s', False))"
    and "mem_entries s' = [demo_parent, n]"
proof -
  obtain n s' where run: "run_cycle (demo_ext True) (demo_veh 1) demo_generation_inputs demo_ledger
      = (Inr (Cycle_Promoted n (from_score 1)), s')"
    by (rule demo_generation_cycle)
  then have "demo_generation False k (demo_ledger, False)
      = ((if k then Inl (Io ''teardown'') else Inr (Cycle_Promoted n (from_score 1))), (s', False))"
    using run by (simp add: run_generation_eq demo_proposal cycle_and_teardown_eq demo_sandbox_def)
  moreover have "mem_entries s' = [demo_parent, n]"
    using mem_latest.cycle_effect [OF _ _ run, of "demo_ext True"] by simp
  ultimately show thesis by (rule that)
qed


section \<open>Properties\<close>

text \<open>
  C21: The driver is a safe host of the runner: any number of its generations, over any of the built-in
  strategies, any mutator and any sandbox, failures included, is a run of the lifecycle whose only
  events are cycles from recorded valid parents, so every invariant of the lifecycle carries over.
\<close>

theorem driver_refines_lifecycle:
  assumes "driver_run X (driver_new v (mem_store X) sel mu sb) A (s, b) (s', b')"
    and "sel \<in> set (stock_selectors X E seed)" and "v_ledger v = mem_store X" and "mem_wf s"
    and "lifecycle X v G s0 s P" and "\<And>t e. valid_cycle A (mem_entries t) e \<Longrightarrow> G t e"
  shows "mem_wf s' \<and> (\<exists>P'. lifecycle X v G s0 s' P')"
  using evolution_store.driver_run_refines [OF stock_store [OF assms(2), of X] assms(1),
      where G = G and ?s0.0 = s0 and P = P] assms(3-6)
  by simp

theorem driver_refines_lifecycle_witness:
  "\<exists>n s' P. driver_run (demo_ext True) (demo_driver False False) (\<lambda>_. True) (demo_ledger, False) (s', False) \<and>
     mem_entries s' = [demo_parent, n] \<and>
     lifecycle (demo_ext True) (demo_veh 1) (\<lambda>t. valid_cycle (\<lambda>_. True) (mem_entries t)) demo_ledger s' P"
proof -
  obtain n s' where g: "demo_generation False False (demo_ledger, False)
      = (Inr (Cycle_Promoted n (from_score 1)), (s', False))" and e: "mem_entries s' = [demo_parent, n]"
    by (rule demo_generation_ran [of False]) (rule that, simp_all)
  have run: "driver_run (demo_ext True) (demo_driver False False) (\<lambda>_. True) (demo_ledger, False) (s', False)"
    by (rule driver_run.generation [OF driver_run.start TrueI g])
  have "\<exists>P. lifecycle (demo_ext True) (demo_veh 1) (\<lambda>t. valid_cycle (\<lambda>_. True) (mem_entries t)) demo_ledger s' P"
    using driver_refines_lifecycle [OF run [unfolded demo_driver_def] _ _ _ lifecycle.start,
        where E = demo_entropy and seed = None and G = "\<lambda>t. valid_cycle (\<lambda>_. True) (mem_entries t)"]
    by (simp add: stock_selectors_def)
  then show ?thesis using run e by blast
qed

text \<open>
  A successful generation evaluates what the mutator proposed for a recorded valid parent, inside a
  sandbox that accepted it, and a node it commits is the child of that parent, holds that artifact, and
  becomes the head exactly when promoted.
\<close>

theorem generation_outcome:
  assumes "run_generation X (driver_new v (mem_store X) sel mu sb) intent scope ctx created (s, b) = (Inr out, (s', b'))"
    and "sel \<in> set (stock_selectors X E seed)" and "v_ledger v = mem_store X" and "mem_wf s"
  shows "\<exists>p c. p \<in> set (mem_entries s) \<and> n_valid_parent p \<and> mu_propose mu p intent ctx = Inr c \<and>
     fst (sb_enforce sb c scope b) = Inr () \<and> mem_wf s' \<and>
     (case out of
        Cycle_Promoted n _ \<Rightarrow> mem_entries s' = mem_entries s @ [n] \<and> im_head s' = Some (n_agent_id n) \<and>
          n_parent_id n = Some (n_agent_id p) \<and> n_artifact n = c \<and> n_status n = Promoted
      | Cycle_Rejected n _ \<Rightarrow> mem_entries s' = mem_entries s @ [n] \<and> im_head s' = im_head s \<and>
          n_parent_id n = Some (n_agent_id p) \<and> n_artifact n = c \<and> n_status n = Rejected
      | Awaiting_Approval a \<Rightarrow> mem_entries s' = mem_entries s \<and> im_head s' = im_head s \<and>
          pa_parent_id a = Some (n_agent_id p) \<and> pa_candidate a = c)"
proof -
  note store = stock_store [OF assms(2), of X]
  obtain p c where pc: "p \<in> set (mem_entries s)" "n_valid_parent p" "mu_propose mu p intent ctx = Inr c"
      "fst (sb_enforce sb c scope b) = Inr ()"
      "run_cycle X v (generation_inputs intent scope created p c) s = (Inr out, s')"
    using evolution_store.generation_Inr [OF store _ _ _ assms(4,1)] assms(3) by auto
  show ?thesis
    using evolution_store.cycle_effect [OF store assms(3,4) pc(5)] pc(1-4)
    by (intro exI [of _ p] exI [of _ c]) (simp split: cycle_outcome.splits)
qed

theorem generation_outcome_witness:
  "\<exists>n s'. demo_generation False False (demo_ledger, False) = (Inr (Cycle_Promoted n (from_score 1)), (s', False)) \<and>
     n_parent_id n = Some (n_agent_id demo_parent) \<and> im_head s' = Some (n_agent_id n)"
proof -
  obtain n s' where g: "demo_generation False False (demo_ledger, False)
      = (Inr (Cycle_Promoted n (from_score 1)), (s', False))"
    by (rule demo_generation_ran [of False]) (rule that, simp_all)
  then show ?thesis
    using generation_outcome [OF g [unfolded demo_driver_def], where E = demo_entropy and seed = None]
    by (auto simp: stock_selectors_def)
qed

text \<open>
  C27: The sandbox is released after every cycle that returns, with a result or an error: if the teardown
  leaves nothing held, a generation leaves resources held exactly when enforcing the sandbox failed while
  holding them, in which case the candidate was not evaluated and the ledger is unchanged, or when the
  cycle panicked in a sandbox that held them; neither way does a teardown follow.
\<close>

theorem sandbox_released:
  assumes "\<And>c. \<not> held (snd (sb_teardown (ed_sandbox d) c))" and "\<not> held b"
    and "run_generation X d intent scope ctx created (s, b) = (r, (s', b'))"
  shows "held b' \<longleftrightarrow> (\<exists>p c e b1. proposal d intent ctx s = Inr (p, c) \<and> held b1 \<and> r = Inl e \<and>
     (sb_enforce (ed_sandbox d) c scope b = (Inl e, b1) \<and> s' = s \<or>
      is_panic e \<and> sb_enforce (ed_sandbox d) c scope b = (Inr (), b1) \<and>
      run_cycle X (ed_veh d) (generation_inputs intent scope created p c) s = (Inl e, s')))"
  using assms(3)
proof (cases rule: run_generation_cases)
  case (cycled p c b1 q t)
  then have "\<not> held b'" using assms(1) [of b1] by simp
  then show ?thesis using cycled(1-4) by auto
qed (use assms(2) in auto)

lemma evaluator_error:
  assumes "manifest_diff X (n_artifact (cy_parent inp)) (cy_candidate inp) = Inr diff"
    and "ev_evaluate (v_evaluator v) (cy_candidate inp) = Inl e"
  shows "run_cycle X v inp s = (Inl e, s)"
  using assms by (simp add: run_cycle_def Let_def)

text \<open>A sandbox that refuses after it has allocated, and an evaluator that panics inside one that did not.\<close>

definition demo_panicking :: "((demo_manifest, demo_num) mem_inner, bool, demo_manifest, demo_num, char) evolution_driver" where
  "demo_panicking = (demo_driver False False)
     \<lparr>ed_veh := (demo_veh 1)\<lparr>v_evaluator := (v_evaluator (demo_veh 1))\<lparr>ev_evaluate := \<lambda>_. Inl Overflow_Panic\<rparr>\<rparr>\<rparr>"

lemma demo_panics:
  "run_generation (demo_ext True) demo_panicking intent scope ctx t (demo_ledger, False)
     = (Inl Overflow_Panic, (demo_ledger, True))"
proof -
  have p: "proposal demo_panicking intent ctx demo_ledger = Inr (demo_parent, artifact_new (demo_man [''a'']))"
    using demo_proposal [of False False intent ctx] by (simp add: proposal_def demo_panicking_def)
  obtain diff where "manifest_diff (demo_ext True) (n_artifact demo_parent) (artifact_new (demo_man [''a''])) = Inr diff"
    using manifest_diff_total [OF demo_json_text_laws demo_manifest_laws] .
  then have "run_cycle (demo_ext True) (ed_veh demo_panicking)
      (generation_inputs intent scope t demo_parent (artifact_new (demo_man [''a'']))) demo_ledger
      = (Inl Overflow_Panic, demo_ledger)"
    by (intro evaluator_error) (simp_all add: demo_panicking_def del: demo_ext_simps)
  then show ?thesis
    by (simp add: run_generation_eq p) (simp add: demo_panicking_def demo_sandbox_def cycle_and_teardown_eq)
qed

theorem sandbox_released_witness:
  "(\<exists>p c. sb_enforce (demo_sandbox True False) c scope_default False = (Inl (PolicyDenied ''isolation''), True) \<and>
      proposal (demo_driver True False) (intent_new ''tighten'') context_new demo_ledger = Inr (p, c)) \<and>
   (\<exists>p c. sb_enforce (ed_sandbox demo_panicking) c scope_default False = (Inr (), True) \<and>
      run_cycle (demo_ext True) (ed_veh demo_panicking)
        (generation_inputs (intent_new ''tighten'') scope_default ''t'' p c) demo_ledger = (Inl Overflow_Panic, demo_ledger))"
proof -
  have g: "demo_generation True False (demo_ledger, False) = (Inl (PolicyDenied ''isolation''), (demo_ledger, True))"
    by (simp add: run_generation_eq demo_proposal demo_sandbox_def)
  have down: "\<not> snd (sb_teardown (ed_sandbox (demo_driver True False)) c)" "\<not> snd (sb_teardown (ed_sandbox demo_panicking) c)" for c
    by (simp_all add: demo_sandbox_def demo_panicking_def)
  have one: "\<exists>p c. sb_enforce (demo_sandbox True False) c scope_default False = (Inl (PolicyDenied ''isolation''), True) \<and>
      proposal (demo_driver True False) (intent_new ''tighten'') context_new demo_ledger = Inr (p, c)"
    using iffD1 [OF sandbox_released [where held = "\<lambda>b. b", OF down(1) _ g]] by (auto simp: demo_sandbox_def)
  have two: "\<exists>p c. sb_enforce (ed_sandbox demo_panicking) c scope_default False = (Inr (), True) \<and>
      run_cycle (demo_ext True) (ed_veh demo_panicking)
        (generation_inputs (intent_new ''tighten'') scope_default ''t'' p c) demo_ledger = (Inl Overflow_Panic, demo_ledger)"
    using iffD1 [OF sandbox_released [where held = "\<lambda>b. b", OF down(2) _ demo_panics
        [where intent = "intent_new ''tighten''" and scope = scope_default and ctx = context_new and t = "''t''"]]]
    by (auto simp: demo_panicking_def demo_sandbox_def simp del: demo_ext_simps)
  show ?thesis using one two by blast
qed

text \<open>
  C26: A failed generation leaves nodes and head alone, except that a failing teardown can replace the
  outcome of a cycle that has committed its node: the caller then sees an error although the ledger
  has grown by one node.
\<close>

theorem generation_failure_modes:
  assumes "run_generation X (driver_new v (mem_store X) sel mu sb) intent scope ctx created (s, b) = (Inl e, (s', b'))"
    and "v_ledger v = mem_store X" and "mem_wf s"
  shows "mem_entries s' = mem_entries s \<and> im_head s' = im_head s \<or>
     (\<exists>n b1. mem_entries s' = mem_entries s @ [n] \<and> fst (sb_teardown sb b1) = Inl e)"
  using mem_latest.generation_Inl [OF _ _ assms(3,1), of X] assms(2)
  by (auto simp: mem.untouched_def)

theorem generation_failure_modes_witness:
  "\<exists>n s'. demo_generation False True (demo_ledger, False) = (Inl (Io ''teardown''), (s', False)) \<and>
     mem_entries s' = [demo_parent, n] \<and>
     (\<exists>b1. fst (sb_teardown (demo_sandbox False True) b1) = Inl (Io ''teardown''))"
proof -
  obtain n s' where g: "demo_generation False True (demo_ledger, False) = (Inl (Io ''teardown''), (s', False))"
      and e: "mem_entries s' = [demo_parent, n]"
    by (rule demo_generation_ran [of True]) (rule that, simp_all)
  then show ?thesis
    using generation_failure_modes [OF g [unfolded demo_driver_def]] by (auto simp: demo_sandbox_def)
qed

end
