(* ===== verification/Veh_Text.thy ===== *)
theory Veh_Text
  imports Veh_Prelude
begin

text \<open>
  The parts of Rust's standard library on text that the ledger uses: \<open>chars().take\<close>, the UTF-8 check
  of \<open>String::from_utf8\<close>, \<open>trim().is_empty()\<close> and \<open>BufRead::lines\<close>. Text is its UTF-8 bytes.
\<close>

abbreviation byte :: "char \<Rightarrow> nat" where
  "byte c \<equiv> of_char c"

abbreviation nl :: string where
  "nl \<equiv> [CHR 0x0A]"

section \<open>Characters\<close>

definition between :: "nat \<Rightarrow> nat \<Rightarrow> char \<Rightarrow> bool" where
  "between lo hi c \<longleftrightarrow> lo \<le> byte c \<and> byte c \<le> hi"

definition utf8_continuation :: "char \<Rightarrow> bool" where
  "utf8_continuation c \<longleftrightarrow> between 0x80 0xBF c"

text \<open>A continuation byte belongs to the character before it.\<close>

fun take_chars :: "nat \<Rightarrow> string \<Rightarrow> string" where
  "take_chars k [] = []"
| "take_chars k (c # cs) =
     (if utf8_continuation c then c # take_chars k cs
      else case k of 0 \<Rightarrow> [] | Suc k \<Rightarrow> c # take_chars k cs)"

text \<open>The well-formed byte sequences of the Unicode standard: no overlong forms, no surrogates.\<close>

definition second_of_three :: "char \<Rightarrow> char \<Rightarrow> bool" where
  "second_of_three a b \<longleftrightarrow>
     (if byte a = 0xE0 then between 0xA0 0xBF b
      else if byte a = 0xED then between 0x80 0x9F b
      else utf8_continuation b)"

definition second_of_four :: "char \<Rightarrow> char \<Rightarrow> bool" where
  "second_of_four a b \<longleftrightarrow>
     (if byte a = 0xF0 then between 0x90 0xBF b
      else if byte a = 0xF4 then between 0x80 0x8F b
      else utf8_continuation b)"

fun utf8_valid :: "bytes \<Rightarrow> bool" where
  "utf8_valid [] = True"
| "utf8_valid (a # s) =
     (if byte a < 0x80 then utf8_valid s
      else if between 0xC2 0xDF a then
        (case s of b # s \<Rightarrow> utf8_continuation b \<and> utf8_valid s | _ \<Rightarrow> False)
      else if between 0xE0 0xEF a then
        (case s of b # c # s \<Rightarrow> second_of_three a b \<and> utf8_continuation c \<and> utf8_valid s | _ \<Rightarrow> False)
      else if between 0xF0 0xF4 a then
        (case s of b # c # d # s \<Rightarrow>
           second_of_four a b \<and> utf8_continuation c \<and> utf8_continuation d \<and> utf8_valid s | _ \<Rightarrow> False)
      else False)"

text \<open>Only characters with the Unicode property \<open>White_Space\<close>.\<close>

fun is_blank :: "bytes \<Rightarrow> bool" where
  "is_blank [] = True"
| "is_blank (a # s) =
     (if between 0x09 0x0D a \<or> byte a = 0x20 then is_blank s
      else case s of
        [] \<Rightarrow> False
      | b # s \<Rightarrow>
          if byte a = 0xC2 \<and> (byte b = 0x85 \<or> byte b = 0xA0) then is_blank s
          else case s of
            [] \<Rightarrow> False
          | c # s \<Rightarrow>
              (byte a = 0xE1 \<and> byte b = 0x9A \<and> byte c = 0x80 \<or>
               byte a = 0xE2 \<and> byte b = 0x80 \<and> (between 0x80 0x8A c \<or> byte c \<in> {0xA8, 0xA9, 0xAF}) \<or>
               byte a = 0xE2 \<and> byte b = 0x81 \<and> byte c = 0x9F \<or>
               byte a = 0xE3 \<and> byte b = 0x80 \<and> byte c = 0x80) \<and> is_blank s)"


section \<open>Lines\<close>

definition strip_cr :: "bytes \<Rightarrow> bytes" where
  "strip_cr l = (if l \<noteq> [] \<and> last l = CHR 0x0D then butlast l else l)"

text \<open>A line feed ends a line and takes a carriage return before it along; the last line may lack it.\<close>

function lines_of :: "bytes \<Rightarrow> bytes list" where
  "lines_of s =
     (if s = [] then []
      else case dropWhile (\<lambda>c. c \<noteq> CHR 0x0A) s of
        [] \<Rightarrow> [s]
      | _ # rest \<Rightarrow> strip_cr (takeWhile (\<lambda>c. c \<noteq> CHR 0x0A) s) # lines_of rest)"
  by auto

termination
proof (relation "measure length")
  fix s :: bytes and c rest
  assume "dropWhile (\<lambda>c. c \<noteq> CHR 0x0A) s = c # rest"
  then have "length (c # rest) \<le> length s"
    by (metis length_dropWhile_le)
  then show "(rest, s) \<in> measure length" by simp
qed simp

declare lines_of.simps [simp del]

lemma lines_of_Nil [simp]: "lines_of [] = []"
  by (simp add: lines_of.simps)

lemma split_at_nl:
  assumes "CHR 0x0A \<notin> set l"
  shows "takeWhile (\<lambda>c. c \<noteq> CHR 0x0A) (l @ CHR 0x0A # s) = l"
    and "dropWhile (\<lambda>c. c \<noteq> CHR 0x0A) (l @ CHR 0x0A # s) = CHR 0x0A # s"
  using assms by (induction l) auto

lemma lines_of_line:
  assumes "CHR 0x0A \<notin> set l"
  shows "lines_of (l @ CHR 0x0A # s) = strip_cr l # lines_of s"
  using assms by (subst lines_of.simps) (simp add: split_at_nl)

text \<open>Bytes that end in a line feed are a sequence of complete lines.\<close>

definition complete :: "bytes \<Rightarrow> bool" where
  "complete s \<longleftrightarrow> s = [] \<or> last s = CHR 0x0A"

lemma complete_Nil [simp]: "complete []"
  by (simp add: complete_def)

lemma complete_snoc [simp]: "complete (s @ l @ nl)"
  by (simp add: complete_def)

lemma lines_of_append: "complete s \<Longrightarrow> lines_of (s @ t) = lines_of s @ lines_of t"
proof (induction s rule: lines_of.induct)
  case (1 s)
  show ?case
  proof (cases "s = []")
    case False
    then have mem: "CHR 0x0A \<in> set s"
      using "1.prems" last_in_set [of s] by (auto simp: complete_def)
    then obtain l r where s: "s = l @ CHR 0x0A # r" and l: "CHR 0x0A \<notin> set l"
      by (metis split_list_first)
    have "complete r"
      using "1.prems" s by (cases "r = []") (auto simp: complete_def)
    then have "lines_of (r @ t) = lines_of r @ lines_of t"
      using "1.IH" [OF False, of "CHR 0x0A" r] split_at_nl [OF l, of r] s by simp
    then show ?thesis
      using lines_of_line [OF l, of r] lines_of_line [OF l, of "r @ t"] s by simp
  qed simp
qed

lemma lines_of_one: "CHR 0x0A \<notin> set l \<Longrightarrow> lines_of (l @ nl) = [strip_cr l]"
  using lines_of_line [of l "[]"] by simp

text \<open>Printable ASCII lines pass every check.\<close>

lemma ascii_utf8: "(\<And>c. c \<in> set l \<Longrightarrow> byte c < 0x80) \<Longrightarrow> utf8_valid l"
  by (induction l) auto

lemma ascii_not_blank:
  assumes "l \<noteq> []" and "\<And>c. c \<in> set l \<Longrightarrow> 0x20 < byte c \<and> byte c < 0x80"
  shows "\<not> is_blank l"
proof (cases l)
  case (Cons a s)
  then have "0x20 < byte a" "byte a < 0x80" using assms(2) [of a] by simp_all
  then show ?thesis using Cons by (auto simp: between_def split: list.split)
qed (simp add: assms(1))

end
