(* ===== verification/Veh_Jsonl.thy ===== *)
theory Veh_Jsonl
  imports Veh_Lifecycle Veh_Text
begin

text \<open>
  \<open>JsonlLineage\<close> of \<^verbatim>\<open>src/ledger.rs\<close>: the append-only file ledger. Its state is the in-memory index, the
  bytes of the file at its path (\<open>None\<close> when there is no file) and what the operating system will
  answer to the coming appends: success, a failing open, or a write that fails after some bytes of
  the line. Nothing else writes the file, and reading it back does not fail half-way; a line that
  repeats a key of an object is outside the model, since a parsed value has distinct keys.
\<close>

section \<open>The store\<close>

datatype io_outcome = Io_Ok | Open_Fails string | Write_Fails nat string

record ('m, 'n) jsonl_lineage =
  jl_file :: "bytes option"
  jl_inner :: "('m, 'n) mem_inner"
  jl_io :: "io_outcome list"

definition file_bytes :: "('m, 'n) jsonl_lineage \<Rightarrow> bytes" where
  "file_bytes st = (case jl_file st of None \<Rightarrow> [] | Some b \<Rightarrow> b)"

definition next_io :: "('m, 'n) jsonl_lineage \<Rightarrow> io_outcome" where
  "next_io st = (case jl_io st of [] \<Rightarrow> Io_Ok | outcome # _ \<Rightarrow> outcome)"

text \<open>Replaying one node and a file; no check for a repeated id.\<close>

definition replay_node :: "('m, 'n) agent_node \<Rightarrow> ('m, 'n) mem_inner \<Rightarrow> ('m, 'n) mem_inner" where
  "replay_node node inner =
     (let id = n_agent_id node; status = n_status node;
          inner = inner\<lparr>im_order := im_order inner @ [id]\<rparr>;
          inner = (if status = Promoted then inner\<lparr>im_head := Some id\<rparr> else inner)
      in inner\<lparr>im_nodes := (im_nodes inner)(id \<mapsto> node)\<rparr>)"

definition parse_node :: "('m, 'n, 'k) ext \<Rightarrow> bytes \<Rightarrow> ('m, 'n) agent_node res" where
  "parse_node X line = map_err Json (res_bind (x_json_parse X line) (node_from_json X))"

fun replay :: "('m, 'n, 'k) ext \<Rightarrow> ('m, 'n) mem_inner \<Rightarrow> bytes list \<Rightarrow> ('m, 'n) mem_inner res" where
  "replay X inner [] = Inr inner"
| "replay X inner (line # lines) =
     (if \<not> utf8_valid line then Inl (Io ''stream did not contain valid UTF-8'')
      else if is_blank line then replay X inner lines
      else res_bind (parse_node X line) (\<lambda>node. replay X (replay_node node inner) lines))"

text \<open>\<open>open\<close>: what the path holds is nothing, an unreadable file, or bytes.\<close>

definition jsonl_open ::
  "('m, 'n, 'k) ext \<Rightarrow> (string + bytes) option \<Rightarrow> io_outcome list \<Rightarrow> ('m, 'n) jsonl_lineage res" where
  "jsonl_open X path io =
     (case path of
        None \<Rightarrow> Inr \<lparr>jl_file = None, jl_inner = mem_new, jl_io = io\<rparr>
      | Some file \<Rightarrow>
          res_bind (map_err Io file) (\<lambda>content.
          res_bind (replay X mem_new (lines_of content)) (\<lambda>inner.
          Inr \<lparr>jl_file = Some content, jl_inner = inner, jl_io = io\<rparr>)))"

definition jsonl_append ::
  "('m, 'n, 'k) ext \<Rightarrow> ('m, 'n) agent_node \<Rightarrow> (('m, 'n) jsonl_lineage, unit) op" where
  "jsonl_append X node st =
     (case node_to_json X node of
        Inl fault \<Rightarrow> (Inl (Json fault), st)
      | Inr j \<Rightarrow>
          let serialised = x_json_text X j; id = n_agent_id node; status = n_status node;
              guard = jl_inner st in
          if im_nodes guard id \<noteq> None then (Inl (LedgerError (''duplicate agent_id '' @ id)), st)
          else
            let outcome = next_io st; st = st\<lparr>jl_io := tl (jl_io st)\<rparr> in
            case outcome of
              Open_Fails e \<Rightarrow> (Inl (Io e), st)
            | Write_Fails k e \<Rightarrow> (Inl (Io e), st\<lparr>jl_file := Some (file_bytes st @ take k serialised)\<rparr>)
            | Io_Ok \<Rightarrow>
                let st = st\<lparr>jl_file := Some (file_bytes st @ serialised @ nl)\<rparr>;
                    guard = guard\<lparr>im_order := im_order guard @ [id]\<rparr>;
                    guard = guard\<lparr>im_nodes := (im_nodes guard)(id \<mapsto> node)\<rparr>;
                    guard = (if status = Promoted then guard\<lparr>im_head := Some id\<rparr> else guard)
                in (Inr (), st\<lparr>jl_inner := guard\<rparr>))"

definition jsonl_get :: "agent_id \<Rightarrow> ('m, 'n) jsonl_lineage \<Rightarrow> ('m, 'n) agent_node res" where
  "jsonl_get aid st = ok_or (NotFound aid) (im_nodes (jl_inner st) aid)"

definition jsonl_head :: "('m, 'n) jsonl_lineage \<Rightarrow> agent_id option res" where
  "jsonl_head st = Inr (im_head (jl_inner st))"

definition jsonl_set_head :: "agent_id \<Rightarrow> (('m, 'n) jsonl_lineage, unit) op" where
  "jsonl_set_head aid st =
     (let guard = jl_inner st in
      if im_nodes guard aid = None then (Inl (NotFound aid), st)
      else (Inr (), st\<lparr>jl_inner := guard\<lparr>im_head := Some aid\<rparr>\<rparr>))"

definition jsonl_export_dag_json :: "('m, 'n, 'k) ext \<Rightarrow> ('m, 'n) jsonl_lineage \<Rightarrow> 'n json res" where
  "jsonl_export_dag_json X st =
     (let guard = jl_inner st in
      res_bind (map_err (\<lambda>_. Panic ''called `Result::unwrap()` on an `Err` value'')
                  (traverse (node_to_json X) (List.map_filter (im_nodes guard) (im_order guard)))) (\<lambda>nodes.
      Inr (JObject [(''head'', json_of_option JString (im_head guard)), (''nodes'', JArray nodes)])))"

definition jsonl_nodes :: "('m, 'n) jsonl_lineage \<Rightarrow> ('m, 'n) agent_node list res" where
  "jsonl_nodes st = Inr (List.map_filter (im_nodes (jl_inner st)) (im_order (jl_inner st)))"

definition jsonl_store :: "('m, 'n, 'k) ext \<Rightarrow> (('m, 'n) jsonl_lineage, 'm, 'n) lineage_store" where
  "jsonl_store X =
     \<lparr>ls_append = jsonl_append X, ls_get = jsonl_get, ls_head = jsonl_head, ls_set_head = jsonl_set_head,
      ls_export_dag_json = jsonl_export_dag_json X, ls_nodes = jsonl_nodes\<rparr>"

lemma jsonl_store_simps [simp]:
  "ls_append (jsonl_store X) = jsonl_append X"
  "ls_get (jsonl_store X) = jsonl_get"
  "ls_head (jsonl_store X) = jsonl_head"
  "ls_set_head (jsonl_store X) = jsonl_set_head"
  "ls_export_dag_json (jsonl_store X) = jsonl_export_dag_json X"
  "ls_nodes (jsonl_store X) = jsonl_nodes"
  by (simp_all add: jsonl_store_def)


section \<open>The index behaves as the in-memory store\<close>

lemma replay_node_mem_append:
  assumes "im_nodes g (n_agent_id n) = None"
  shows "mem_append n g = (Inr (), replay_node n g)"
  using assms by (simp add: mem_append_def replay_node_def Let_def)

lemma jsonl_append_cases:
  assumes "jsonl_append X n st = (r, st')"
  obtains
    (unserialised) fault where "node_to_json X n = Inl fault" "r = Inl (Json fault)" "st' = st"
  | (duplicate) j where "node_to_json X n = Inr j" "im_nodes (jl_inner st) (n_agent_id n) \<noteq> None"
      "r = Inl (LedgerError (''duplicate agent_id '' @ n_agent_id n))" "st' = st"
  | (io_failure) j e where "node_to_json X n = Inr j" "im_nodes (jl_inner st) (n_agent_id n) = None"
      "next_io st \<noteq> Io_Ok" "r = Inl (Io e)" "jl_inner st' = jl_inner st"
  | (stored) j where "node_to_json X n = Inr j" "im_nodes (jl_inner st) (n_agent_id n) = None"
      "next_io st = Io_Ok" "r = Inr ()"
      "st' = \<lparr>jl_file = Some (file_bytes st @ x_json_text X j @ nl),
              jl_inner = replay_node n (jl_inner st), jl_io = tl (jl_io st)\<rparr>"
proof (cases "node_to_json X n")
  case (Inl fault)
  then show thesis using assms by (intro unserialised) (auto simp: jsonl_append_def)
next
  case j: (Inr j)
  show thesis
  proof (cases "im_nodes (jl_inner st) (n_agent_id n)")
    case (Some m)
    then show thesis using assms j by (intro duplicate) (auto simp: jsonl_append_def Let_def)
  next
    case None
    show thesis
    proof (cases "next_io st")
      case Io_Ok
      then show thesis
        using assms j None
        by (intro stored) (auto simp: jsonl_append_def Let_def replay_node_def file_bytes_def)
    qed (use assms j None in \<open>auto simp: jsonl_append_def Let_def intro: io_failure\<close>)
  qed
qed

lemma jsonl_set_head_inner:
  "mem_set_head i (jl_inner st) = (fst (jsonl_set_head i st), jl_inner (snd (jsonl_set_head i st)))"
  by (simp add: jsonl_set_head_def mem_set_head_def Let_def)

lemma jsonl_set_head_file:
  "jl_file (snd (jsonl_set_head i st)) = jl_file st" "jl_io (snd (jsonl_set_head i st)) = jl_io st"
  by (simp_all add: jsonl_set_head_def Let_def)

lemma jsonl_contract:
  "lineage_contract (jsonl_store X) (\<lambda>st. mem_wf (jl_inner st)) (\<lambda>st. mem_entries (jl_inner st))
     (\<lambda>st. im_head (jl_inner st))"
proof
  fix st :: "('a, 'b) jsonl_lineage" and n st' e i h
  assume wf: "mem_wf (jl_inner st)"
  show "distinct (ids (mem_entries (jl_inner st)))"
    by (rule mem.distinct_ids [OF wf])
  show "h \<in> set (ids (mem_entries (jl_inner st)))" if "im_head (jl_inner st) = Some h"
    by (rule mem.head_mem [OF wf that])
  show "mem_wf (jl_inner st') \<and> mem_entries (jl_inner st') = mem_entries (jl_inner st) @ [n] \<and>
      im_head (jl_inner st') = pushed n (im_head (jl_inner st))"
    if "ls_append (jsonl_store X) n st = (Inr (), st')"
  proof -
    from that have fresh: "im_nodes (jl_inner st) (n_agent_id n) = None"
        and "jl_inner st' = replay_node n (jl_inner st)"
      unfolding jsonl_store_simps by (cases rule: jsonl_append_cases; simp)+
    then show ?thesis
      using mem.append_ok [OF wf, of X n "jl_inner st'"] replay_node_mem_append [OF fresh] by simp
  qed
  show "mem_wf (jl_inner st') \<and> mem_entries (jl_inner st') = mem_entries (jl_inner st) \<and>
      im_head (jl_inner st') = im_head (jl_inner st)"
    if "ls_append (jsonl_store X) n st = (Inl e, st')"
    using that wf unfolding jsonl_store_simps by (cases rule: jsonl_append_cases) auto
  show "\<exists>e. ls_append (jsonl_store X) n st = (Inl e, st)"
    if "n_agent_id n \<in> set (ids (mem_entries (jl_inner st)))"
  proof -
    have "im_nodes (jl_inner st) (n_agent_id n) \<noteq> None"
      using that by (simp only: mem_wf_lookup [OF wf] node_at_None_iff simp_thms)
    then show ?thesis by (auto simp: jsonl_append_def Let_def split: sum.split)
  qed
  show "ls_get (jsonl_store X) i st = ok_or (NotFound i) (node_at (mem_entries (jl_inner st)) i)"
    by (simp add: jsonl_get_def mem_wf_lookup [OF wf])
  show "ls_head (jsonl_store X) st = Inr (im_head (jl_inner st))"
    by (simp add: jsonl_head_def)
  show "\<exists>st'. ls_set_head (jsonl_store X) i st = (Inr (), st') \<and> mem_wf (jl_inner st') \<and>
      mem_entries (jl_inner st') = mem_entries (jl_inner st) \<and> im_head (jl_inner st') = Some i"
    if "i \<in> set (ids (mem_entries (jl_inner st)))"
    using mem.set_head_ok [OF wf that, of X] jsonl_set_head_inner [of i st]
    by (cases "jsonl_set_head i st") auto
  show "ls_set_head (jsonl_store X) i st = (Inl (NotFound i), st)"
    if "i \<notin> set (ids (mem_entries (jl_inner st)))"
  proof -
    have "im_nodes (jl_inner st) i = None"
      using that by (simp only: mem_wf_lookup [OF wf] node_at_None_iff simp_thms)
    then show ?thesis by (simp add: jsonl_set_head_def)
  qed
  show "ls_nodes (jsonl_store X) st = Inr (mem_entries (jl_inner st))"
    by (simp add: jsonl_nodes_def mem_entries_def)
qed

interpretation jsonl: lineage_contract "jsonl_store X" "\<lambda>st. mem_wf (jl_inner st)"
    "\<lambda>st. mem_entries (jl_inner st)" "\<lambda>st. im_head (jl_inner st)"
  by (rule jsonl_contract)


section \<open>The runner over the file ledger\<close>

text \<open>
  \<open>agree m m'\<close>: as long as the operating system does not fail, the operation on the file ledger does
  to the index what the other one does to the in-memory store, and gives the same result.
\<close>

definition agree :: "(('m, 'n) jsonl_lineage, 'a) op \<Rightarrow> (('m, 'n) mem_inner, 'a) op \<Rightarrow> bool" where
  "agree m m' \<longleftrightarrow> (\<forall>st r st'. jl_io st = [] \<longrightarrow> m st = (r, st') \<longrightarrow>
     m' (jl_inner st) = (r, jl_inner st') \<and> jl_io st' = [])"

lemma agreeD:
  assumes "agree m m'" and "jl_io st = []" and "m st = (r, st')"
  shows "m' (jl_inner st) = (r, jl_inner st')" and "jl_io st' = []"
  using assms unfolding agree_def by blast+

lemma agree_lift: "(\<And>st. r st = r' (jl_inner st)) \<Longrightarrow> agree (op_lift r) (op_lift r')"
  by (simp add: agree_def)

lemma agree_bind:
  assumes m: "agree m m'" and f: "\<And>x. agree (f x) (f' x)"
  shows "agree (op_bind m f) (op_bind m' f')"
  unfolding agree_def
proof (intro allI impI)
  fix st r st'
  assume io: "jl_io st = []" and run: "op_bind m f st = (r, st')"
  obtain q s1 where q: "m st = (q, s1)" by (cases "m st")
  note 1 = agreeD [OF m io q]
  show "op_bind m' f' (jl_inner st) = (r, jl_inner st') \<and> jl_io st' = []"
  proof (cases q)
    case (Inl e)
    then have "(r, st') = (Inl e, s1)" using run q by (simp add: op_bind_def)
    then show ?thesis using 1 Inl by (simp add: op_bind_def)
  next
    case (Inr x)
    then have "f x s1 = (r, st')" using run q by (simp add: op_bind_def)
    then show ?thesis using agreeD [OF f 1(2)] 1(1) Inr by (simp add: op_bind_def)
  qed
qed

lemma agree_append:
  assumes "manifest_laws X"
  shows "agree (jsonl_append X n) (mem_append n)"
  unfolding agree_def
proof (intro allI impI)
  fix st r st'
  assume io: "jl_io st = []" and run: "jsonl_append X n st = (r, st')"
  obtain j where "node_to_json X n = Inr j" using node_to_json_total [OF assms] by blast
  with run io show "mem_append n (jl_inner st) = (r, jl_inner st') \<and> jl_io st' = []"
    by (cases rule: jsonl_append_cases) (auto simp: mem_append_duplicate replay_node_mem_append next_io_def)
qed

lemma agree_set_head: "agree (jsonl_set_head i) (mem_set_head i)"
  unfolding agree_def
proof (intro allI impI)
  fix st r st'
  assume "jl_io st = []" and "jsonl_set_head i st = (r, st')"
  then show "mem_set_head i (jl_inner st) = (r, jl_inner st') \<and> jl_io st' = []"
    using jsonl_set_head_inner [of i st] jsonl_set_head_file(2) [of i st] by simp
qed

definition in_memory ::
  "('m, 'n, 'k) ext \<Rightarrow> (('m, 'n) jsonl_lineage, 'm, 'n, 'k) veh \<Rightarrow> (('m, 'n) mem_inner, 'm, 'n, 'k) veh" where
  "in_memory X v = \<lparr>v_ledger = mem_store X, v_evaluator = v_evaluator v, v_policy = v_policy v,
     v_signing_key = v_signing_key v, v_strict = v_strict v\<rparr>"

lemma in_memory_simps [simp]:
  "v_ledger (in_memory X v) = mem_store X" "v_evaluator (in_memory X v) = v_evaluator v"
  "v_policy (in_memory X v) = v_policy v" "v_signing_key (in_memory X v) = v_signing_key v"
  "v_strict (in_memory X v) = v_strict v"
  by (simp_all add: in_memory_def)

lemma agree_sign_and_append:
  assumes "v_ledger v = jsonl_store X" and "manifest_laws X"
  shows "agree (sign_and_append X v ci key) (sign_and_append X (in_memory X v) ci key)"
  unfolding sign_and_append_def assms(1) in_memory_simps jsonl_store_simps mem_store_simps
  by (intro agree_bind agree_lift agree_append assms refl)

lemma agree_run_cycle:
  assumes "v_ledger v = jsonl_store X" and "manifest_laws X"
  shows "agree (run_cycle X v inp) (run_cycle X (in_memory X v) inp)"
  unfolding run_cycle_def Let_def commit_promoted_def commit_rejected_def in_memory_simps
  by (auto split: option.split policy_decision.split
      intro!: agree_bind agree_lift agree_sign_and_append [OF assms])

lemma agree_rollback_target:
  "v_ledger v = jsonl_store X \<Longrightarrow>
     rollback_target_node X v i st = rollback_target_node X (in_memory X v) i (jl_inner st)"
  by (simp add: rollback_target_node_def jsonl_get_def mem_get_def)

lemma agree_exec:
  assumes "v_ledger v = jsonl_store X" and "manifest_laws X"
  shows "agree (veh_exec X v e) (veh_exec X (in_memory X v) e)"
proof (cases e)
  case (E_Rollback_To i)
  then show ?thesis
    by (auto simp: op_map_def rollback_to_def assms(1)
        intro!: agree_bind agree_lift agree_rollback_target agree_set_head assms(1))
next
  case (E_Commit_Rollback i t)
  then show ?thesis
    by (auto simp: op_map_def commit_rollback_def assms(1) jsonl_head_def mem_head_def jsonl_get_def mem_get_def
        intro!: agree_bind agree_lift agree_rollback_target agree_sign_and_append assms)
qed (auto simp: op_map_def commit_root_def resume_with_approval_def
    intro!: agree_bind agree_lift agree_sign_and_append [OF assms] agree_run_cycle [OF assms])


section \<open>The file replays to the index\<close>

text \<open>What a state predicate must survive to hold after any call of the runner.\<close>

definition preserves :: "('s \<Rightarrow> bool) \<Rightarrow> ('s, 'a) op \<Rightarrow> bool" where
  "preserves I m \<longleftrightarrow> (\<forall>s. I s \<longrightarrow> I (snd (m s)))"

lemma preserves_lift: "preserves I (op_lift r)"
  by (simp add: preserves_def)

lemma preserves_bind: "preserves I m \<Longrightarrow> (\<And>x. preserves I (f x)) \<Longrightarrow> preserves I (op_bind m f)"
  by (force simp: preserves_def op_bind_def split: prod.split sum.split)

lemma preserves_exec:
  assumes "\<And>n. preserves I (ls_append (v_ledger v) n)" and "\<And>i. preserves I (ls_set_head (v_ledger v) i)"
  shows "preserves I (veh_exec X v e)"
proof -
  have sign: "preserves I (sign_and_append X v ci key)" for ci key
    unfolding sign_and_append_def by (intro preserves_bind preserves_lift assms)
  show ?thesis
    by (cases e) (auto simp: op_map_def commit_root_def resume_with_approval_def run_cycle_def
        rollback_to_def commit_rollback_def Let_def commit_promoted_def commit_rejected_def
        split: option.split policy_decision.split intro!: preserves_bind preserves_lift sign assms)
qed

lemma preserves_reach:
  assumes "lifecycle X v G s0 s P" and "I s0"
    and "\<And>n. preserves I (ls_append (v_ledger v) n)" and "\<And>i. preserves I (ls_set_head (v_ledger v) i)"
  shows "I s"
  using assms(1)
proof induction
  case (step s P e r s')
  then show ?case
    using preserves_exec [OF assms(3,4), of X e] by (metis preserves_def snd_conv)
qed (rule assms(2))

definition last_promoted :: "('m, 'n) agent_node list \<Rightarrow> agent_id option" where
  "last_promoted ns = map_option n_agent_id (find (\<lambda>n. n_status n = Promoted) (rev ns))"

lemma last_promoted_snoc: "last_promoted (ns @ [n]) = pushed n (last_promoted ns)"
  by (simp add: last_promoted_def pushed_def)

text \<open>
  A node whose line survives the file: the text of its JSON is one line of valid, non-blank text that
  does not end in a carriage return, and parses back exactly. serde\_json prints no control
  characters, and parses back exactly unless a float has no short decimal that its parser maps back.
  The text of a node has the order of its fields and is decoded from that order, without a map between
  the two; \<open>x_json_parse\<close> stands for that view of a text, entries in the order in which they are written.
\<close>

definition line_ok :: "('m, 'n, 'k) ext \<Rightarrow> ('m, 'n) agent_node \<Rightarrow> bool" where
  "line_ok X n \<longleftrightarrow> (\<exists>j. node_to_json X n = Inr j \<and> x_json_parse X (x_json_text X j) = Inr j \<and>
     utf8_valid (x_json_text X j) \<and> \<not> is_blank (x_json_text X j) \<and>
     CHR 0x0A \<notin> set (x_json_text X j) \<and> last (x_json_text X j) \<noteq> CHR 0x0D)"

definition durable :: "('m, 'n, 'k) ext \<Rightarrow> ('m, 'n) jsonl_lineage \<Rightarrow> bool" where
  "durable X st \<longleftrightarrow> mem_wf (jl_inner st) \<and> complete (file_bytes st) \<and>
     (\<exists>inner. replay X mem_new (lines_of (file_bytes st)) = Inr inner \<and> mem_wf inner \<and>
        mem_entries inner = map reload (mem_entries (jl_inner st)) \<and>
        im_head inner = last_promoted (mem_entries (jl_inner st)))"

lemma replay_append:
  "replay X inner (ls @ ls') = res_bind (replay X inner ls) (\<lambda>inner. replay X inner ls')"
proof (induction ls arbitrary: inner)
  case (Cons l ls)
  then show ?case by (cases "parse_node X l") simp_all
qed simp

lemma parse_node_line:
  assumes "json_num_laws X" and "manifest_laws X" and "line_ok X n" and "node_to_json X n = Inr j"
  shows "parse_node X (x_json_text X j) = Inr (reload n)"
  using assms(3,4) node_reload [OF assms(1,2,4)] by (auto simp: line_ok_def parse_node_def)

lemma durable_stored:
  assumes laws: "json_num_laws X" "manifest_laws X" and d: "durable X st" and ok: "line_ok X n"
    and j: "node_to_json X n = Inr j" and fresh: "im_nodes (jl_inner st) (n_agent_id n) = None"
  shows "durable X \<lparr>jl_file = Some (file_bytes st @ x_json_text X j @ nl),
                   jl_inner = replay_node n (jl_inner st), jl_io = io\<rparr>"
proof -
  let ?t = "x_json_text X j"
  have wf: "mem_wf (jl_inner st)" and c: "complete (file_bytes st)" using d by (simp_all add: durable_def)
  obtain inner where inner: "replay X mem_new (lines_of (file_bytes st)) = Inr inner" "mem_wf inner"
      "mem_entries inner = map reload (mem_entries (jl_inner st))"
      "im_head inner = last_promoted (mem_entries (jl_inner st))"
    using d by (auto simp: durable_def)
  have t: "utf8_valid ?t" "\<not> is_blank ?t" "CHR 0x0A \<notin> set ?t" "strip_cr ?t = ?t"
    using ok j by (auto simp: line_ok_def strip_cr_def)
  have "lines_of (file_bytes st @ ?t @ nl) = lines_of (file_bytes st) @ [?t]"
    using lines_of_append [OF c] lines_of_one [OF t(3)] t(4) by simp
  then have rep: "replay X mem_new (lines_of (file_bytes st @ ?t @ nl)) = Inr (replay_node (reload n) inner)"
    using t inner(1) parse_node_line [OF laws ok j] by (simp add: replay_append)
  have "ids (mem_entries inner) = ids (mem_entries (jl_inner st))"
    using inner(3) by (simp add: comp_def)
  then have fresh': "im_nodes inner (n_agent_id (reload n)) = None"
    using fresh by (simp add: mem_wf_lookup [OF inner(2)] mem_wf_lookup [OF wf] node_at_None_iff)
  have old: "mem_wf (replay_node n (jl_inner st)) \<and>
      mem_entries (replay_node n (jl_inner st)) = mem_entries (jl_inner st) @ [n]"
    using mem.append_ok [OF wf] replay_node_mem_append [OF fresh] by simp
  have new: "mem_wf (replay_node (reload n) inner) \<and>
      mem_entries (replay_node (reload n) inner) = mem_entries inner @ [reload n] \<and>
      im_head (replay_node (reload n) inner) = pushed (reload n) (im_head inner)"
    using mem.append_ok [OF inner(2)] replay_node_mem_append [OF fresh'] by simp
  have "pushed (reload n) h = pushed n h" for h
    by (simp add: pushed_def)
  then show ?thesis
    using rep old new inner(3,4) complete_snoc [of "file_bytes st" ?t]
    by (simp add: durable_def file_bytes_def last_promoted_snoc)
qed

text \<open>Without failures of the operating system, and over nodes whose lines survive, nothing is lost.\<close>

definition faithful :: "('m, 'n, 'k) ext \<Rightarrow> ('m, 'n) jsonl_lineage \<Rightarrow> bool" where
  "faithful X st \<longleftrightarrow> jl_io st = [] \<and> mem_wf (jl_inner st) \<and>
     ((\<forall>n \<in> set (mem_entries (jl_inner st)). line_ok X n) \<longrightarrow> durable X st)"

lemma faithful_append:
  assumes "json_num_laws X" and "manifest_laws X"
  shows "preserves (faithful X) (jsonl_append X n)"
  unfolding preserves_def
proof (intro allI impI)
  fix st
  assume f: "faithful X st"
  then have io: "jl_io st = []" and wf: "mem_wf (jl_inner st)" by (simp_all add: faithful_def)
  obtain r st' where run: "jsonl_append X n st = (r, st')" by (cases "jsonl_append X n st")
  from run have "faithful X st'"
  proof (cases rule: jsonl_append_cases)
    case (stored j)
    then have "ls_append (jsonl_store X) n st = (Inr (), st')" using run by simp
    then have e: "mem_wf (jl_inner st') \<and> mem_entries (jl_inner st') = mem_entries (jl_inner st) @ [n]"
      using jsonl.append_ok [OF wf] by blast
    have "durable X st'" if "\<forall>m \<in> set (mem_entries (jl_inner st')). line_ok X m"
    proof -
      have "durable X st" and "line_ok X n" using f that e by (auto simp: faithful_def)
      then show ?thesis
        unfolding stored(5) by (intro durable_stored [OF assms _ _ stored(1,2)])
    qed
    then show ?thesis using e stored(5) io by (simp add: faithful_def)
  qed (use f io in \<open>simp_all add: next_io_def\<close>)
  then show "faithful X (snd (jsonl_append X n st))" using run by simp
qed

lemma faithful_set_head: "preserves (faithful X) (jsonl_set_head i)"
  unfolding preserves_def
proof (intro allI impI)
  fix st
  assume f: "faithful X st"
  show "faithful X (snd (jsonl_set_head i st))"
  proof (cases "im_nodes (jl_inner st) i")
    case (Some n)
    let ?st = "snd (jsonl_set_head i st)"
    have wf: "mem_wf (jl_inner st)" using f by (simp add: faithful_def)
    have "i \<in> set (ids (mem_entries (jl_inner st)))"
      using Some by (metis mem_wf_lookup [OF wf] node_at_None_iff option.distinct(1))
    then have "mem_wf (jl_inner ?st)" "mem_entries (jl_inner ?st) = mem_entries (jl_inner st)"
      using jsonl.set_head_ok [OF wf] by fastforce+
    then show ?thesis
      using f jsonl_set_head_file [of i st] by (simp add: faithful_def durable_def file_bytes_def)
  qed (use f in \<open>simp add: jsonl_set_head_def\<close>)
qed

lemma faithful_fresh: "jsonl_open X None [] = Inr st \<Longrightarrow> faithful X st"
  by (auto simp: jsonl_open_def faithful_def durable_def file_bytes_def last_promoted_def)


lemma reached_faithful:
  assumes "json_num_laws X" and "manifest_laws X" and "v_ledger v = jsonl_store X"
    and "jsonl_open X None [] = Inr st0" and "lifecycle X v G st0 st P"
  shows "faithful X st"
  by (rule preserves_reach [where I = "faithful X", OF assms(5) faithful_fresh [OF assms(4)]])
    (simp_all add: assms(3) faithful_append [OF assms(1,2)] faithful_set_head)

lemma durable_reopen:
  assumes "durable X st"
  shows "\<exists>st'. jsonl_open X (map_option Inr (jl_file st)) [] = Inr st' \<and>
     mem_entries (jl_inner st') = map reload (mem_entries (jl_inner st)) \<and>
     im_head (jl_inner st') = last_promoted (mem_entries (jl_inner st))"
proof (cases "jl_file st")
  case None
  then show ?thesis using assms by (auto simp: durable_def file_bytes_def jsonl_open_def)
next
  case (Some b)
  then show ?thesis using assms by (auto simp: durable_def file_bytes_def jsonl_open_def)
qed


section \<open>A concrete file\<close>

definition demo_file_veh :: "((demo_manifest, demo_num) jsonl_lineage, demo_manifest, demo_num, char) veh" where
  "demo_file_veh = veh_new (demo_ext True) (jsonl_store (demo_ext True)) (stub_evaluator 1) (CHR ''k'')"

definition demo_fresh :: "io_outcome list \<Rightarrow> (demo_manifest, demo_num) jsonl_lineage" where
  "demo_fresh io = \<lparr>jl_file = None, jl_inner = mem_new, jl_io = io\<rparr>"

lemma demo_fresh_simps [simp]:
  "jl_file (demo_fresh io) = None" "jl_inner (demo_fresh io) = mem_new" "jl_io (demo_fresh io) = io"
  "file_bytes (demo_fresh io) = []"
  by (simp_all add: demo_fresh_def file_bytes_def)

lemma demo_fresh_open: "jsonl_open X None io = Inr (demo_fresh io)"
  by (simp add: jsonl_open_def demo_fresh_def)

lemma demo_line_ok: "line_ok (demo_ext b) n"
proof -
  obtain j where j: "node_to_json (demo_ext b) n = Inr j"
    using node_to_json_total [OF demo_manifest_laws] by blast
  let ?t = "demo_text j"
  have c: "0x20 < byte c \<and> byte c < 0x80" if "c \<in> set ?t" for c
    by (rule demo_text_chars [OF that])
  have "CHR 0x0A \<notin> set ?t" "CHR 0x0D \<notin> set ?t"
    using c by fastforce+
  then have "CHR 0x0A \<notin> set ?t" "last ?t \<noteq> CHR 0x0D"
    using last_in_set [OF demo_text_not_Nil, of j] by auto
  then show ?thesis
    using j c ascii_utf8 [of ?t] ascii_not_blank [OF demo_text_not_Nil, of j] demo_parse_text
    by (auto simp: line_ok_def)
qed

lemma demo_file_in_memory: "in_memory (demo_ext True) demo_file_veh = demo_veh 1"
  by (simp add: in_memory_def demo_file_veh_def demo_veh_def veh_new_def)

lemma demo_file_ledger [simp]: "v_ledger demo_file_veh = jsonl_store (demo_ext True)"
  by (simp add: demo_file_veh_def veh_new_def)

lemma demo_file_root:
  obtains st where "veh_exec (demo_ext True) demo_file_veh demo_root_event (demo_fresh []) = (Inr (R_Node demo_parent), st)"
    and "jl_inner st = demo_ledger"
proof -
  obtain r st where run: "veh_exec (demo_ext True) demo_file_veh demo_root_event (demo_fresh []) = (r, st)"
    by (cases "veh_exec (demo_ext True) demo_file_veh demo_root_event (demo_fresh [])")
  have "veh_exec (demo_ext True) (demo_veh 1) demo_root_event mem_new = (r, jl_inner st)"
    using agreeD(1) [OF agree_exec [OF demo_file_ledger demo_manifest_laws] _ run]
    by (simp add: demo_file_in_memory del: veh_exec.simps)
  then show thesis
    using run demo_commit_root by (intro that [of st]) (simp_all del: veh_exec.simps)
qed


section \<open>Properties\<close>

text \<open>
  C22: The file ledger refines the in-memory one: while the operating system does not fail, every call of
  the runner gives the same result over either store and leaves the same index.
\<close>

theorem jsonl_refines_memory:
  assumes "manifest_laws X" and "v_ledger v = jsonl_store X" and "jl_io st = []"
    and "veh_exec X v e st = (r, st')"
  shows "veh_exec X (in_memory X v) e (jl_inner st) = (r, jl_inner st')"
  by (rule agreeD(1) [OF agree_exec [OF assms(2,1)] assms(3,4)])

theorem jsonl_refines_memory_witness:
  "\<exists>st. veh_exec (demo_ext True) demo_file_veh demo_root_event (demo_fresh []) = (Inr (R_Node demo_parent), st) \<and>
     veh_exec (demo_ext True) (in_memory (demo_ext True) demo_file_veh) demo_root_event mem_new
       = (Inr (R_Node demo_parent), jl_inner st)"
proof -
  obtain st where st: "veh_exec (demo_ext True) demo_file_veh demo_root_event (demo_fresh [])
      = (Inr (R_Node demo_parent), st)"
    by (rule demo_file_root)
  then show ?thesis
    using jsonl_refines_memory [OF demo_manifest_laws demo_file_ledger _ st] by auto
qed

text \<open>
  C23: Nothing is lost on disk: after any run of the runner on a new file without failures of the
  operating system, over nodes whose lines survive, reopening the file gives the same nodes in the same
  order, up to what JSON cannot express. The head comes back as the last promoted node, so a head that
  \<open>rollback_to\<close> has moved is not restored.
\<close>

theorem jsonl_reopen:
  assumes "json_num_laws X" and "manifest_laws X" and "v_ledger v = jsonl_store X"
    and "jsonl_open X None [] = Inr st0" and "lifecycle X v G st0 st P"
    and "\<forall>n \<in> set (mem_entries (jl_inner st)). line_ok X n"
  shows "\<exists>st'. jsonl_open X (map_option Inr (jl_file st)) [] = Inr st' \<and>
     mem_entries (jl_inner st') = map reload (mem_entries (jl_inner st)) \<and>
     im_head (jl_inner st') = last_promoted (mem_entries (jl_inner st))"
proof -
  have "faithful X st" by (rule reached_faithful [OF assms(1-5)])
  then show ?thesis using assms(6) by (intro durable_reopen) (simp add: faithful_def)
qed

theorem jsonl_reopen_witness:
  "\<exists>st st'. veh_exec (demo_ext True) demo_file_veh demo_root_event (demo_fresh []) = (Inr (R_Node demo_parent), st) \<and>
     jsonl_open (demo_ext True) (map_option Inr (jl_file st)) [] = Inr st' \<and>
     mem_entries (jl_inner st') = [reload demo_parent] \<and> im_head (jl_inner st') = Some (n_agent_id demo_parent)"
proof -
  let ?X = "demo_ext True"
  obtain st where st: "veh_exec ?X demo_file_veh demo_root_event (demo_fresh []) = (Inr (R_Node demo_parent), st)"
      and inner: "jl_inner st = demo_ledger"
    by (rule demo_file_root)
  have "lifecycle ?X demo_file_veh (\<lambda>_ _. True) (demo_fresh []) st (pending_after demo_root_event (Inr (R_Node demo_parent)) {#})"
    by (rule lifecycle.step [OF lifecycle.start _ _ st]) (simp_all add: enabled_def)
  from jsonl_reopen [OF demo_json_num_laws demo_manifest_laws demo_file_ledger demo_fresh_open this]
  show ?thesis
    using st inner demo_line_ok by (auto simp: last_promoted_def simp del: veh_exec.simps)
qed

text \<open>
  C20: A failed call leaves the ledger as it was: whatever error a root commit, a cycle, a resumption, a
  rollback or a signed rollback reports, over the in-memory ledger or the file ledger, failures of the
  operating system and panics included, no node was added to the index and the head did not move. The
  bytes of the file may have grown by the fragment that a failing write leaves.
\<close>

theorem failed_operations_keep_ledger:
  "(v_ledger v = mem_store X \<and> mem_wf s \<and> veh_exec X v e s = (Inl err, s') \<longrightarrow>
      mem_wf s' \<and> mem_entries s' = mem_entries s \<and> im_head s' = im_head s) \<and>
   (v_ledger w = jsonl_store X \<and> mem_wf (jl_inner st) \<and> veh_exec X w e st = (Inl err, st') \<longrightarrow>
      mem_wf (jl_inner st') \<and> mem_entries (jl_inner st') = mem_entries (jl_inner st) \<and>
      im_head (jl_inner st') = im_head (jl_inner st))"
  using mem.exec_err [of v X s X e err s'] jsonl.exec_err [of w X st X e err st']
  by (simp add: mem.untouched_def jsonl.untouched_def del: veh_exec.simps)

text \<open>A root that is recorded already, and a disk that is full.\<close>

theorem failed_operations_keep_ledger_witness:
  "\<exists>err st'. veh_exec (demo_ext True) (demo_veh 1) demo_root_event demo_ledger = (Inl err, demo_ledger) \<and>
     veh_exec (demo_ext True) demo_file_veh demo_root_event (demo_fresh [Write_Fails 1 ''disk full''])
       = (Inl (Io ''disk full''), st') \<and> mem_entries (jl_inner st') = [] \<and> jl_file st' = Some ''{''"
proof -
  let ?X = "demo_ext True" and ?st = "demo_fresh [Write_Fails 1 ''disk full'']"
  have "im_nodes demo_ledger (n_agent_id demo_parent) \<noteq> None"
    using mem.get_mem [of demo_ledger ?X "n_agent_id demo_parent" demo_parent] by (auto simp: mem_get_def ok_or_Inr_iff)
  then have "mem_append demo_parent demo_ledger
      = (Inl (LedgerError (''duplicate agent_id '' @ n_agent_id demo_parent)), demo_ledger)"
    by (simp add: mem_append_def)
  then have dup: "veh_exec ?X (demo_veh 1) demo_root_event demo_ledger
      = (Inl (LedgerError (''duplicate agent_id '' @ n_agent_id demo_parent)), demo_ledger)"
    using demo_root_signed by (simp add: op_map_def commit_root_def sign_and_append_def op_bind_def)
  obtain i where "node_to_json ?X demo_parent = Inr i"
    using node_to_json_total [OF demo_manifest_laws] by blast
  then obtain ms where j: "node_to_json ?X demo_parent = Inr (JObject ms)"
    by (auto simp: node_to_json_def res_bind_Inr_iff)
  have "jsonl_append ?X demo_parent ?st
      = (Inl (Io ''disk full''), ?st\<lparr>jl_io := [], jl_file := Some ''{''\<rparr>)"
    using j by (simp add: jsonl_append_def next_io_def Let_def mem_new_def file_bytes_def)
  then have torn: "veh_exec ?X demo_file_veh demo_root_event ?st
      = (Inl (Io ''disk full''), ?st\<lparr>jl_io := [], jl_file := Some ''{''\<rparr>)"
    using demo_root_signed
    by (simp add: op_map_def commit_root_def sign_and_append_def op_bind_def demo_file_veh_def veh_new_def)
  have "mem_entries (jl_inner (?st\<lparr>jl_io := [], jl_file := Some ''{''\<rparr>)) = []"
    using failed_operations_keep_ledger [THEN conjunct2, THEN mp, OF conjI [OF demo_file_ledger conjI [OF _ torn]]]
    by simp
  then show ?thesis
    by (intro exI conjI) (rule dup, rule torn, assumption, simp)
qed

text \<open>
  C28: A write that fails after part of a line poisons the file: the append reports the failure and the
  index is unchanged, but the next append, which succeeds, continues the fragment, so that the whole
  ledger can no longer be opened when the glued line does not parse.
\<close>

theorem torn_write_poisons_file:
  assumes "durable X st" and "jl_io st = [Write_Fails k e]"
    and "node_to_json X n = Inr j" and "im_nodes (jl_inner st) (n_agent_id n) = None"
    and "node_to_json X m = Inr i" and "im_nodes (jl_inner st) (n_agent_id m) = None"
    and "glued = take k (x_json_text X j) @ x_json_text X i"
    and "CHR 0x0A \<notin> set glued" and "strip_cr glued = glued" and "utf8_valid glued" and "\<not> is_blank glued"
    and "x_json_parse X glued = Inl fault"
  shows "\<exists>st1 st2. jsonl_append X n st = (Inl (Io e), st1) \<and> jl_inner st1 = jl_inner st \<and>
     jsonl_append X m st1 = (Inr (), st2) \<and> mem_entries (jl_inner st2) = mem_entries (jl_inner st) @ [m] \<and>
     jsonl_open X (map_option Inr (jl_file st2)) [] = Inl (Json fault)"
proof -
  define st1 where "st1 = st\<lparr>jl_io := [], jl_file := Some (file_bytes st @ take k (x_json_text X j))\<rparr>"
  define st2 where "st2 = \<lparr>jl_file = Some (file_bytes st1 @ x_json_text X i @ nl),
    jl_inner = replay_node m (jl_inner st), jl_io = []\<rparr>"
  have 1: "jsonl_append X n st = (Inl (Io e), st1)"
    using assms(2-4) by (simp add: jsonl_append_def Let_def next_io_def st1_def file_bytes_def)
  have 2: "jsonl_append X m st1 = (Inr (), st2)"
    using assms(5,6) by (simp add: jsonl_append_def Let_def next_io_def st1_def st2_def replay_node_def file_bytes_def)
  have wf: "mem_wf (jl_inner st)" and c: "complete (file_bytes st)"
    using assms(1) by (simp_all add: durable_def)
  have "file_bytes st2 = file_bytes st @ glued @ nl"
    by (simp add: st2_def st1_def file_bytes_def assms(7))
  then have "lines_of (file_bytes st2) = lines_of (file_bytes st) @ [glued]"
    using lines_of_append [OF c] lines_of_one [OF assms(8)] assms(9) by simp
  moreover obtain inner where "replay X mem_new (lines_of (file_bytes st)) = Inr inner"
    using assms(1) by (auto simp: durable_def)
  ultimately have "replay X mem_new (lines_of (file_bytes st2)) = Inl (Json fault)"
    using assms(10-12) by (simp add: replay_append parse_node_def)
  moreover have "jl_file st2 = Some (file_bytes st2)" by (simp add: st2_def file_bytes_def)
  ultimately have "jsonl_open X (map_option Inr (jl_file st2)) [] = Inl (Json fault)"
    by (simp add: jsonl_open_def)
  moreover have "mem_entries (jl_inner st2) = mem_entries (jl_inner st) @ [m]"
    using mem.append_ok [OF wf] replay_node_mem_append [OF assms(6)] by (simp add: st2_def)
  ultimately show ?thesis using 1 2 by (intro exI [of _ st1] exI [of _ st2]) (simp add: st1_def)
qed

lemma demo_torn: "demo_parse (CHR ''{'' # CHR ''{'' # s) = Inl (Custom_Fault ''expected value'')"
proof -
  have bad: "\<exists>d. demo_hex_decode (CHR ''{'' # x) = Inl d" for x
    by (cases x) (simp_all add: hex_val_def upt_rec_numeral upt_conv_Cons)
  have "hex_upto (CHR '':'') (CHR ''{'' # s) = None"
  proof (cases "dropWhile (\<lambda>d. d \<noteq> CHR '':'') s")
    case Nil
    then show ?thesis by (simp add: hex_upto_def upto_char_def del: dropWhile_eq_Nil_conv)
  next
    case (Cons c r)
    obtain d where "demo_hex_decode (CHR ''{'' # takeWhile (\<lambda>d. d \<noteq> CHR '':'') s) = Inl d"
      using bad by blast
    then show ?thesis using Cons by (simp add: hex_upto_def upto_char_def del: demo_hex_decode.simps)
  qed
  then show ?thesis by (simp add: demo_parse_def)
qed

theorem torn_write_poisons_file_witness:
  "\<exists>st1 st2. jsonl_append (demo_ext True) demo_parent (demo_fresh [Write_Fails 1 ''disk full'']) = (Inl (Io ''disk full''), st1) \<and>
     jsonl_append (demo_ext True) demo_parent st1 = (Inr (), st2) \<and> mem_entries (jl_inner st2) = [demo_parent] \<and>
     jsonl_open (demo_ext True) (map_option Inr (jl_file st2)) [] = Inl (Json (Custom_Fault ''expected value''))"
proof -
  let ?X = "demo_ext True" and ?st = "demo_fresh [Write_Fails 1 ''disk full'']"
  obtain j where j: "node_to_json ?X demo_parent = Inr j"
    using node_to_json_total [OF demo_manifest_laws] by blast
  then obtain ms where "j = JObject ms"
    by (auto simp: node_to_json_def res_bind_Inr_iff)
  then obtain s where s: "demo_text j = CHR ''{'' # s" by simp
  define g where "g = CHR ''{'' # demo_text j"
  have c: "0x20 < byte c \<and> byte c < 0x80" if "c \<in> set g" for c
    using that demo_text_chars [of c j] by (auto simp: g_def)
  have ne: "g \<noteq> []" by (simp add: g_def)
  have no: "CHR 0x0A \<notin> set g" "CHR 0x0D \<notin> set g"
    using c by fastforce+
  have cr: "strip_cr g = g"
    using last_in_set [OF ne] no(2) by (metis strip_cr_def)
  have utf8: "utf8_valid g" using c by (intro ascii_utf8) blast
  have blank: "\<not> is_blank g" using ne c by (rule ascii_not_blank)
  have parse: "x_json_parse ?X g = Inl (Custom_Fault ''expected value'')"
    unfolding g_def s demo_ext_simps by (rule demo_torn)
  have start: "durable ?X ?st" "jl_io ?st = [Write_Fails 1 ''disk full'']"
      "im_nodes (jl_inner ?st) (n_agent_id demo_parent) = None"
    by (simp_all add: durable_def last_promoted_def mem_new_def [symmetric]) (simp add: mem_new_def)
  have glued: "g = take 1 (x_json_text ?X j) @ x_json_text ?X j"
    unfolding g_def demo_ext_simps by (simp add: s)
  from torn_write_poisons_file [OF start(1,2) j start(3) j start(3) glued no(1) cr utf8 blank parse]
  show ?thesis by auto
qed

end
