(* ===== verification/Veh_Dot.thy ===== *)
theory Veh_Dot
  imports Veh_Graph Veh_Text
begin

text \<open>
  \<open>export_dot\<close> of \<^verbatim>\<open>src/ledger.rs\<close>: the Graphviz rendering of a store, which reads the store's JSON
  export back through untyped lookups with defaults. The property section shows that on the
  in-memory store none of the defaults is ever taken.
\<close>

section \<open>Rendering\<close>

abbreviation quoted :: "string \<Rightarrow> string" where
  "quoted s \<equiv> CHR 0x22 # s @ [CHR 0x22]"

text \<open>The two format strings; \<open>label_break\<close> is the escape sequence Graphviz reads as a line break.\<close>

definition label_break :: string where
  "label_break = [CHR 0x5C, CHR ''n'']"

definition dot_node_stmt :: "string \<Rightarrow> nat \<Rightarrow> string \<Rightarrow> string \<Rightarrow> string" where
  "dot_node_stmt i generation status short =
     ''  '' @ quoted i @ '' [label='' @
     quoted (''gen='' @ show_nat generation @ label_break @ status @ label_break @ short) @ ''];'' @ nl"

definition dot_edge_stmt :: "string \<Rightarrow> string \<Rightarrow> string" where
  "dot_edge_stmt parent i = ''  '' @ quoted parent @ '' -> '' @ quoted i @ '';'' @ nl"

definition unwrap_or :: "'a \<Rightarrow> 'a option \<Rightarrow> 'a" where
  "unwrap_or a x = (case x of None \<Rightarrow> a | Some b \<Rightarrow> b)"

lemma unwrap_or_simps [simp]: "unwrap_or a None = a" "unwrap_or a (Some b) = b"
  by (simp_all add: unwrap_or_def)

fun dot_loop :: "('m, 'n, 'k) ext \<Rightarrow> string \<Rightarrow> 'n json list \<Rightarrow> string" where
  "dot_loop X out [] = out"
| "dot_loop X out (node # nodes) =
     (let i = unwrap_or ''?'' (Option.bind (j_get ''agent_id'' node) j_as_str);
          generation = unwrap_or 0 (Option.bind (j_get ''generation'' node) (j_as_u64 X));
          status = unwrap_or ''promoted'' (Option.bind (j_get ''status'' node) j_as_str);
          out = out @ dot_node_stmt i (unat generation) status (take_chars 8 i);
          out = (case Option.bind (j_get ''parent_id'' node) j_as_str of
                   None \<Rightarrow> out
                 | Some parent \<Rightarrow> out @ dot_edge_stmt parent i)
      in dot_loop X out nodes)"

definition export_dot :: "('m, 'n, 'k) ext \<Rightarrow> ('s, 'm, 'n) lineage_store \<Rightarrow> 's \<Rightarrow> string res" where
  "export_dot X store s =
     res_bind (ls_export_dag_json store s) (\<lambda>dag.
     res_bind (ok_or (LedgerError ''dag export missing nodes'')
                 (Option.bind (j_get ''nodes'' dag) j_as_array)) (\<lambda>nodes.
     Inr (dot_loop X (''digraph lineage {'' @ nl) nodes @ ''}'' @ nl)))"


section \<open>The typed rendering\<close>

text \<open>What a node of the ledger contributes: its own statement, and an edge from its parent.\<close>

definition dot_entry :: "('m, 'n) agent_node \<Rightarrow> string" where
  "dot_entry n =
     dot_node_stmt (n_agent_id n) (unat (n_generation n)) (status_name (n_status n))
       (take_chars 8 (n_agent_id n)) @
     (case n_parent_id n of None \<Rightarrow> [] | Some p \<Rightarrow> dot_edge_stmt p (n_agent_id n))"

lemma unat_ucast_u32: "unat (ucast (w :: u32) :: u64) = unat w"
proof -
  have "unat w < 2 ^ 32" using unsigned_less [of w, where 'a = nat] by simp
  then have "take_bit 64 (unat w) = unat w" by (intro take_bit_nat_eq_self) simp
  then show ?thesis by (simp add: unsigned_ucast_eq)
qed

lemma dot_loop_Cons:
  assumes "json_num_laws X" and "node_to_json X n = Inr j"
  shows "dot_loop X out (j # js) = dot_loop X (out @ dot_entry n) js"
proof -
  obtain man where man: "x_man_to_json X (manifest (n_artifact n)) = Inr man"
    using assms(2) by (auto simp: node_to_json_def res_bind_Inr_iff)
  have gen: "j_as_u64 X (json_of_u32 X (n_generation n)) = Some (ucast (n_generation n))"
    using assms(1) by (simp add: json_of_u32_def json_num_laws_def)
  show ?thesis
    using assms(2) man gen
    by (cases "n_parent_id n")
      (auto simp: node_to_json_def dot_entry_def json_of_status_def unat_ucast_u32 Let_def)
qed

lemma dot_loop_entries:
  assumes "json_num_laws X" and "list_all2 (\<lambda>n j. node_to_json X n = Inr j) ns js"
  shows "dot_loop X out js = out @ concat (map dot_entry ns)"
  using assms(2)
proof (induction arbitrary: out rule: list_all2_induct)
  case (Cons n ns j js)
  show ?case
    unfolding dot_loop_Cons [OF assms(1) Cons.hyps(1)] Cons.IH by simp
qed simp

lemma export_dot_entries:
  assumes "json_num_laws X" and "manifest_laws X"
  shows "export_dot X (mem_store X) s =
     Inr (''digraph lineage {'' @ nl @ concat (map dot_entry (mem_entries s)) @ ''}'' @ nl)"
proof -
  obtain js where js: "traverse (node_to_json X) (mem_entries s) = Inr js"
      "list_all2 (\<lambda>n j. node_to_json X n = Inr j) (mem_entries s) js"
    using traverse_to_json [OF assms(2)] by blast
  then show ?thesis
    using dot_loop_entries [OF assms(1) js(2)]
    by (simp add: export_dot_def mem_export_dag_json_def)
qed


section \<open>Property\<close>

text \<open>
  C39: The graph is the ledger: rendering the in-memory store succeeds and lists, in insertion order, one
  statement per recorded node with its generation, status and abbreviated id, followed by an edge from
  its parent when it has one.
\<close>

theorem dot_export_exact:
  assumes "json_num_laws X" and "manifest_laws X"
  shows "export_dot X (mem_store X) s =
     Inr (''digraph lineage {'' @ nl @ concat (map dot_entry (mem_entries s)) @ ''}'' @ nl)"
  using assms by (rule export_dot_entries)

theorem dot_export_exact_witness:
  "export_dot (demo_ext True) (mem_store (demo_ext True)) demo_ledger =
     Inr (''digraph lineage {'' @ nl @
       (''  '' @ quoted (n_agent_id demo_parent) @ '' [label='' @ quoted (''gen=0'' @ label_break @
        ''promoted'' @ label_break @ take_chars 8 (n_agent_id demo_parent)) @ ''];'' @ nl) @ ''}'' @ nl)"
proof -
  have "n_parent_id demo_parent = None"
    using sign_node_simps(3) [OF demo_node_signed, of "[''a'']" Promoted "CHR ''k''"]
    by (simp add: demo_inputs_def demo_parent_def)
  then show ?thesis
    using dot_export_exact [of "demo_ext True" demo_ledger]
    by (simp add: dot_entry_def dot_node_stmt_def status_name_def show_nat.simps digit_char_def)
qed

end
