(* ===== verification/Veh_Rag.thy ===== *)
theory Veh_Rag
  imports Veh_Graph
begin

text \<open>
  \<^verbatim>\<open>src/rag_evaluator.rs\<close>: the adapter from a retrieval benchmark to an evaluator. The report type of
  \<^verbatim>\<open>rig_evals_rag\<close> is third-party: the record \<open>rag\<close> holds the fields the adapter reads, the report's
  serialisation, and the factory the host supplies.
\<close>

section \<open>The adapter\<close>

record ('r, 'a, 'n) rag =
  rg_metrics :: "'r \<Rightarrow> 'a list"                   \<comment> \<open>\<open>MultiReport::metrics\<close>\<close>
  rg_metric :: "'a \<Rightarrow> string"                     \<comment> \<open>a metric report's name\<close>
  rg_mean :: "'a \<Rightarrow> f64"                          \<comment> \<open>a metric report's mean\<close>
  rg_to_value :: "'r \<Rightarrow> json_fault + 'n json"     \<comment> \<open>\<open>serde_json::to_value\<close> of a report\<close>

type_synonym ('m, 'r) report_factory = "'m agent_artifact \<Rightarrow> 'r res"

record ('m, 'r) retrieval =
  rt_primary_metric :: string
  rt_factory :: "('m, 'r) report_factory"

definition retrieval_new :: "string \<Rightarrow> ('m, 'r) report_factory \<Rightarrow> ('m, 'r) retrieval" where
  "retrieval_new primary_metric factory = \<lparr>rt_primary_metric = primary_metric, rt_factory = factory\<rparr>"

definition retrieval_evaluate ::
  "('r, 'a, 'n) rag \<Rightarrow> ('m, 'r) retrieval \<Rightarrow> 'm agent_artifact \<Rightarrow> 'n eval_result res" where
  "retrieval_evaluate R self artifact =
     res_bind (rt_factory self artifact) (\<lambda>report.
     res_bind (ok_or (EvaluatorError (''metric '' @ rt_primary_metric self @ '' not in report''))
       (map_option (rg_mean R)
         (find (\<lambda>r. rg_metric R r = rt_primary_metric self) (rg_metrics R report)))) (\<lambda>score.
     let details = (case rg_to_value R report of Inl _ \<Rightarrow> JNull | Inr j \<Rightarrow> j)
     in Inr \<lparr>er_score = score, er_details = details\<rparr>))"

definition retrieval_evaluator :: "('r, 'a, 'n) rag \<Rightarrow> ('m, 'r) retrieval \<Rightarrow> ('m, 'n) evaluator" where
  "retrieval_evaluator R self =
     \<lparr>ev_evaluate = retrieval_evaluate R self,
      ev_evaluate_staged = default_evaluate_staged (retrieval_evaluate R self)\<rparr>"


section \<open>Properties\<close>

lemma retrieval_evaluate_Inr:
  "retrieval_evaluate R self a = Inr ev \<longleftrightarrow>
     (\<exists>report r pre post. rt_factory self a = Inr report \<and> rg_metrics R report = pre @ r # post \<and>
        rg_metric R r = rt_primary_metric self \<and>
        (\<forall>q \<in> set pre. rg_metric R q \<noteq> rt_primary_metric self) \<and>
        er_score ev = rg_mean R r \<and>
        er_details ev = (case rg_to_value R report of Inl _ \<Rightarrow> JNull | Inr j \<Rightarrow> j))"
  (is "?l \<longleftrightarrow> ?r")
proof -
  have "?l \<longleftrightarrow> (\<exists>report r. rt_factory self a = Inr report \<and>
      find (\<lambda>r. rg_metric R r = rt_primary_metric self) (rg_metrics R report) = Some r \<and>
      er_score ev = rg_mean R r \<and>
      er_details ev = (case rg_to_value R report of Inl _ \<Rightarrow> JNull | Inr j \<Rightarrow> j))"
    by (cases ev) (auto simp: retrieval_evaluate_def res_bind_Inr_iff ok_or_Inr_iff Let_def)
  then show ?thesis
    unfolding find_Some_split by blast
qed

text \<open>A score that is not a number is never found lacking, and is stored as \<open>null\<close>.\<close>

lemma not_improved_nan: "f64_is_nan (er_score eval) \<Longrightarrow> not_improved X strict parent eval = None"
  by (auto simp: not_improved_def less_eq_f64_def split: option.split)

lemma recorded_score_nan:
  assumes "json_num_laws X" and "f64_is_nan (er_score eval)" and "n_eval_results n = Some (eval_to_json X eval)"
  shows "recorded_score X n = None"
proof -
  have "\<not> f64_is_finite (er_score eval)"
    using assms(2) f64_finite_not_nan by blast
  then show ?thesis
    using assms(3) json_of_f64_nonfinite [OF assms(1)] by (simp add: recorded_score_def)
qed

text \<open>
  C36: An undefined benchmark mean passes the strict improvement rule: when the first report of the
  primary metric has a mean that is not a number and the gate approves, a cycle promotes the candidate
  whatever its parent scored, and the new node records no score for its own children to exceed.
\<close>

theorem undefined_mean_is_promoted:
  assumes "json_num_laws X" and "v_evaluator v = retrieval_evaluator R self"
    and "rt_factory self (cy_candidate inp) = Inr report"
    and "find (\<lambda>r. rg_metric R r = rt_primary_metric self) (rg_metrics R report) = Some r"
    and "f64_is_nan (rg_mean R r)" and "gate_decision X v inp = Inr Approve"
    and "run_cycle X v inp s = (Inr out, s')"
  shows "\<exists>n eval. out = Cycle_Promoted n eval \<and> recorded_score X n = None"
proof -
  obtain eval where ev: "ev_evaluate (v_evaluator v) (cy_candidate inp) = Inr eval" and "f64_is_nan (er_score eval)"
    using assms(2-5) by (auto simp: retrieval_evaluator_def retrieval_evaluate_def Let_def)
  then have nan: "not_improved X (v_strict v) (cy_parent inp) eval = None" "f64_is_nan (er_score eval)"
    by (simp_all add: not_improved_nan)
  from assms(7) show ?thesis
  proof (cases rule: run_cycle_Inr)
    case (promoted diff eval' g n)
    then have "sign_node X (cycle_promoted_inputs X inp g diff eval) (v_signing_key v) = Inr n"
      using ev by (auto simp: sign_and_append_def op_bind_Inr_iff)
    then have "n_eval_results n = Some (eval_to_json X eval)"
      by (simp add: sign_node_simps(8) promoted_inputs_def)
    then show ?thesis
      using promoted(1) recorded_score_nan [OF assms(1) nan(2)] by blast
  qed (use assms(6) ev nan in auto)
qed

definition demo_rag :: "(f64, f64, demo_num) rag" where
  "demo_rag = \<lparr>rg_metrics = (\<lambda>r. [r]), rg_metric = (\<lambda>_. ''recall@10''), rg_mean = (\<lambda>m. m),
     rg_to_value = (\<lambda>_. Inr JNull)\<rparr>"

definition demo_rag_veh :: "((demo_manifest, demo_num) mem_inner, demo_manifest, demo_num, char) veh" where
  "demo_rag_veh = veh_new (demo_ext True) (mem_store (demo_ext True))
     (retrieval_evaluator demo_rag (retrieval_new ''recall@10'' (\<lambda>_. Inr f64_nan))) (CHR ''k'')"

theorem undefined_mean_is_promoted_witness:
  "\<exists>n eval s'. run_cycle (demo_ext True) demo_rag_veh (demo_cycle demo_scored [''a'']) mem_new
       = (Inr (Cycle_Promoted n eval), s') \<and> recorded_score (demo_ext True) demo_scored = Some 1 \<and>
     recorded_score (demo_ext True) n = None"
proof -
  let ?X = "demo_ext True" and ?inp = "demo_cycle demo_scored [''a'']"
  have ap: "default_evaluate ?X demo_scored (intent_new ''tighten'')
      (capability_sbom ?X (artifact_new (demo_man [''a'']))) = Inr Approve"
    by (simp add: default_evaluate_Approve_iff depth_overflows_def depth_exceeded_def widens_def gated_def
        scope_default_def del: demo_ext_simps)
  have v: "v_ledger demo_rag_veh = mem_store ?X" "v_policy demo_rag_veh = default_evaluate ?X"
      "v_evaluator demo_rag_veh = retrieval_evaluator demo_rag (retrieval_new ''recall@10'' (\<lambda>_. Inr f64_nan))"
    by (simp_all add: demo_rag_veh_def veh_new_def)
  have ev: "ev_evaluate (v_evaluator demo_rag_veh) (cy_candidate ?inp) = Inr (from_score f64_nan)"
    by (simp add: v retrieval_evaluator_def retrieval_evaluate_def retrieval_new_def demo_rag_def from_score_def)
  obtain out where "fst (run_cycle ?X demo_rag_veh ?inp mem_new) = Inr out"
    using run_cycle_progress [of ?X demo_rag_veh mem_new ?inp "from_score f64_nan", OF _ _ v(1) _ _ _ ev] ap v(2)
    by (auto simp: from_score_def)
  then obtain s' where run: "run_cycle ?X demo_rag_veh ?inp mem_new = (Inr out, s')"
    by (cases "run_cycle ?X demo_rag_veh ?inp mem_new") auto
  have "\<exists>n eval. out = Cycle_Promoted n eval \<and> recorded_score ?X n = None"
    by (rule undefined_mean_is_promoted [OF demo_json_num_laws v(3) _ _ _ _ run, of f64_nan f64_nan])
      (simp_all add: retrieval_new_def demo_rag_def v(2) ap del: demo_ext_simps)
  then show ?thesis using run demo_scored_score by auto
qed

end
