(* ===== verification/Veh_Limits.thy ===== *)
theory Veh_Limits
  imports Veh_Lifecycle
begin

text \<open>
  Where the containment of \<open>Veh_Lifecycle\<close> ends. Its host discipline asks every cycle to start from a
  recorded valid parent; \<^verbatim>\<open>src/graph.rs\<close> does not check that. This theory shows what the runner does
  for a host that evolves a rejected node.
\<close>

section \<open>A rejected parent\<close>

lemma approves_covered:
  assumes "set sbom \<subseteq> set (n_capability_sbom p) \<union> scope_capabilities (n_allowed_scope p)" and "sc_max_generation (n_allowed_scope p) = None"
    and "sc_gated_capabilities (n_allowed_scope p) = []"
  shows "default_evaluate X p i sbom = Inr Approve"
  using assms
  by (auto simp: default_evaluate_Approve_iff depth_overflows_def depth_exceeded_def widens_def gated_def)

lemma default_evaluate_total: "\<not> depth_overflows X p \<Longrightarrow> \<exists>d. default_evaluate X p i sbom = Inr d"
  using default_evaluate_cases [where X = X and p = p and i = i and sbom = sbom] by metis

lemma run_cycle_rejected_node:
  assumes "run_cycle X v inp s = (Inr (Cycle_Rejected n r), s')"
  shows "n_capability_sbom n = capability_sbom X (cy_candidate inp)" and "n_allowed_scope n = cy_allowed_scope inp"
    and "n_status n = Rejected" and "\<not> n_valid_parent n"
proof -
  from assms obtain ci key where "sign_node X ci key = Inr n" and "ci_artifact ci = cy_candidate inp"
      "ci_allowed_scope ci = cy_allowed_scope inp" "ci_status ci = Rejected" "\<not> ci_valid_parent ci"
  proof (cases rule: run_cycle_Inr)
    case (rejected diff eval g m reason)
    then show thesis
      by (intro that [of "cycle_rejected_inputs X inp g diff eval" "v_signing_key v"])
        (auto simp: sign_and_append_def op_bind_Inr_iff rejected_inputs_def)
  qed simp_all
  then show "n_capability_sbom n = capability_sbom X (cy_candidate inp)" "n_allowed_scope n = cy_allowed_scope inp"
      "n_status n = Rejected" "\<not> n_valid_parent n"
    by (simp_all add: sign_node_simps(1,5,6,13))
qed

lemma run_cycle_promoted_signed:
  assumes "run_cycle X v inp s = (Inr (Cycle_Promoted n eval), s')"
  obtains g diff where "sign_node X (cycle_promoted_inputs X inp g diff eval) (v_signing_key v) = Inr n"
    and "u32_succ X (n_generation (cy_parent inp)) = Inr g"
    and "ev_evaluate (v_evaluator v) (cy_candidate inp) = Inr eval"
  using assms
proof (cases rule: run_cycle_Inr)
  case (promoted diff ev g m)
  then show thesis
    by (intro that [of g diff]) (auto simp: sign_and_append_def op_bind_Inr_iff)
qed simp_all

lemma run_cycle_promoted_node:
  assumes "run_cycle X v inp s = (Inr (Cycle_Promoted n eval), s')"
  shows "n_allowed_scope n = cy_allowed_scope inp" and "n_capability_sbom n = capability_sbom X (cy_candidate inp)"
    and "n_artifact n = cy_candidate inp" and "n_status n = Promoted" and "n_created_at n = cy_created_at inp"
  by (rule run_cycle_promoted_signed [OF assms], simp add: sign_node_simps promoted_inputs_def)+

text \<open>A completed cycle whose candidate is approved and improves has promoted it.\<close>

lemma approved_second:
  assumes "run_cycle X v inp s = (Inr out, s')" and "gate_decision X v inp = Inr Approve"
    and "ev_evaluate (v_evaluator v) (cy_candidate inp) = Inr eval"
    and "not_improved X (v_strict v) (cy_parent inp) eval = None"
  shows "\<exists>n. out = Cycle_Promoted n eval \<and> n_artifact n = cy_candidate inp"
  using assms(1)
proof (cases rule: run_cycle_Inr)
  case (promoted diff eval' g n)
  then have out: "out = Cycle_Promoted n eval" using assms(3) by simp
  show ?thesis using run_cycle_promoted_node(3) [OF assms(1) [unfolded out]] out by blast
qed (use assms(2-4) in auto)

text \<open>
  A rejection does not contain a capability: a host that passes the rejected node of one cycle as
  the parent of the next gets a candidate with the rejected capabilities promoted without review, as
  soon as it scores better than the rejected one, since the gate compares with the parent it is given.
\<close>

theorem rejected_parent_launders:
  assumes "v_policy v = default_evaluate X"
    and "run_cycle X v first s = (Inr (Cycle_Rejected n1 r), s1)"
    and "sc_max_generation (cy_allowed_scope first) = None" and "sc_gated_capabilities (cy_allowed_scope first) = []"
    and "cy_parent second = n1"
    and "set (capability_sbom X (cy_candidate second)) \<subseteq> set (capability_sbom X (cy_candidate first))"
    and "ev_evaluate (v_evaluator v) (cy_candidate second) = Inr eval" and "not_improved X (v_strict v) n1 eval = None"
    and "run_cycle X v second s1 = (Inr out, s2)"
  shows "n_status n1 = Rejected \<and> (\<exists>n2. out = Cycle_Promoted n2 eval \<and> n_artifact n2 = cy_candidate second)"
proof -
  note n1 = run_cycle_rejected_node [OF assms(2)]
  have gate: "gate_decision X v second = Inr Approve"
    unfolding assms(1,5) by (rule approves_covered) (use n1 assms(3,4,6) in \<open>simp_all add: le_supI1\<close>)
  then show ?thesis
    using approved_second [OF assms(9) _ assms(7)] assms(5,8) n1(3) by simp
qed

text \<open>A judge that dislikes one tool, and the two cycles.\<close>

definition demo_judge :: "demo_manifest agent_artifact \<Rightarrow> demo_num eval_result res" where
  "demo_judge a = Inr (from_score (if ''c'' \<in> set (dm_tools (manifest a)) then 0 else 1))"

definition demo_judged_veh :: "((demo_manifest, demo_num) mem_inner, demo_manifest, demo_num, char) veh" where
  "demo_judged_veh = veh_new (demo_ext True) (mem_store (demo_ext True))
     \<lparr>ev_evaluate = demo_judge, ev_evaluate_staged = default_evaluate_staged demo_judge\<rparr> (CHR ''k'')"

lemma demo_judged_simps [simp]:
  "v_ledger demo_judged_veh = mem_store (demo_ext True)" "v_policy demo_judged_veh = default_evaluate (demo_ext True)"
  "ev_evaluate (v_evaluator demo_judged_veh) = demo_judge" "v_signing_key demo_judged_veh = CHR ''k''"
  "v_strict demo_judged_veh"
  by (simp_all add: demo_judged_veh_def veh_new_def)

lemma demo_judge_simps [simp]:
  "demo_judge (artifact_new (demo_man [''b'', ''c''])) = Inr (from_score 0)"
  "demo_judge (artifact_new (demo_man [''b''])) = Inr (from_score 1)"
  by (simp_all add: demo_judge_def artifact_new_def)

lemma demo_first:
  obtains n1 r s1 where "run_cycle (demo_ext True) demo_judged_veh (demo_cycle demo_scored [''b'', ''c'']) mem_new
      = (Inr (Cycle_Rejected n1 r), s1)"
proof -
  let ?X = "demo_ext True" and ?inp = "demo_cycle demo_scored [''b'', ''c'']"
  have no: "not_improved ?X True demo_scored (from_score 0) = Some 1"
    by (simp add: not_improved_def demo_scored_score from_score_def f64_eval)
  have "\<not> depth_overflows ?X demo_scored"
    by (simp add: depth_overflows_def scope_default_def)
  then obtain decision where "default_evaluate ?X demo_scored (intent_new ''tighten'')
      (capability_sbom ?X (artifact_new (demo_man [''b'', ''c'']))) = Inr decision"
    using default_evaluate_total by blast
  then have "\<exists>n r. fst (run_cycle ?X demo_judged_veh ?inp mem_new) = Inr (Cycle_Rejected n r)"
    using run_cycle_progress [of ?X demo_judged_veh mem_new ?inp "from_score 0" decision] no
    by (auto simp: from_score_def)
  then show thesis using that by (metis prod.collapse)
qed

lemma demo_second:
  assumes first: "run_cycle (demo_ext True) demo_judged_veh (demo_cycle demo_scored [''b'', ''c'']) mem_new
      = (Inr (Cycle_Rejected n1 r), s1)"
  obtains n2 s2 where "run_cycle (demo_ext True) demo_judged_veh (demo_cycle n1 [''b'']) s1
      = (Inr (Cycle_Promoted n2 (from_score 1)), s2)"
    and "not_improved (demo_ext True) True n1 (from_score 1) = None"
  using first
proof (cases rule: run_cycle_Inr)
  case (rejected diff eval g m reason)
  let ?X = "demo_ext True" and ?inp = "demo_cycle n1 [''b'']"
  let ?ci = "cycle_rejected_inputs ?X (demo_cycle demo_scored [''b'', ''c'']) g diff eval"
  have ev: "eval = from_score 0" using rejected(3) by simp
  have run: "sign_and_append ?X demo_judged_veh ?ci (v_signing_key demo_judged_veh) mem_new = (Inr n1, s1)"
    using rejected(1,6) by simp
  then have com: "mem.committed ?X ?ci (CHR ''k'') mem_new n1 s1"
    using mem.sign_and_append_ok [of demo_judged_veh ?X mem_new ?X ?ci "CHR ''k''" n1 s1] by simp
  then have sign: "sign_node ?X ?ci (CHR ''k'') = Inr n1" and wf: "mem_wf s1" and e: "mem_entries s1 = [n1]"
    by (simp_all add: mem.committed_def)
  have "n_eval_results n1 = Some (eval_to_json ?X (from_score 0))"
    using sign_node_simps(8) [OF sign] ev by (simp add: rejected_inputs_def)
  then have no: "not_improved ?X True n1 (from_score 1) = None"
    by (simp add: not_improved_def recorded_score_def json_of_f64_as_f64 from_score_def f64_eval del: demo_ext_simps)
  have inj: "inj (x_sha256 ?X)" by (simp add: inj_def)
  have wf_ci: "wf_inputs ?ci" by (simp add: ev from_score_def)
  have gen: "n_generation n1 = 1"
    using sign_node_simps(4) [OF sign] rejected(5) by (simp add: rejected_inputs_def u32_succ_def split: if_splits)
  have fresh: "n_agent_id n \<notin> set (ids (mem_entries s1))"
    if "sign_node ?X ci (CHR ''k'') = Inr n" "wf_inputs ci" "ci_artifact ci = artifact_new (demo_man [''b''])" for ci n
  proof -
    have "''tool:c'' \<in> set (capability_sbom ?X (ci_artifact ?ci))"
      by (simp add: rejected_inputs_def capability_set_def tool_capability_def artifact_new_def)
    moreover have "''tool:c'' \<notin> set (capability_sbom ?X (ci_artifact ci))"
      by (simp add: that(3) capability_set_def tool_capability_def artifact_new_def)
    ultimately have "capability_sbom ?X (ci_artifact ci) \<noteq> capability_sbom ?X (ci_artifact ?ci)"
      by metis
    then have "\<not> same_content ?X ci ?ci" by (simp add: same_content_def)
    from signed_ids_differ [OF demo_json_text_laws demo_json_num_laws demo_manifest_laws demo_crypto_laws
        inj that(2) wf_ci that(1) sign this]
    show ?thesis by (simp add: e)
  qed
  have gate: "default_evaluate ?X n1 (intent_new ''tighten'') (capability_sbom ?X (artifact_new (demo_man [''b'']))) = Inr Approve"
    by (rule approves_covered)
      (use run_cycle_rejected_node(1,2) [OF first] in \<open>auto simp: scope_default_def capability_set_def
        tool_capability_def artifact_new_def\<close>)
  have "\<exists>n2. fst (run_cycle ?X demo_judged_veh ?inp s1) = Inr (Cycle_Promoted n2 (from_score 1))"
    using run_cycle_progress [of ?X demo_judged_veh s1 ?inp "from_score 1" Approve] no gate wf gen fresh
    by (auto simp: from_score_def promoted_inputs_def rejected_inputs_def wf_inputs_def simp del: demo_ext_simps)
  then show thesis using no by (auto intro: that simp: prod_eq_iff)
qed simp_all

theorem rejected_parent_launders_witness:
  "\<exists>n1 n2 r s1 s2. run_cycle (demo_ext True) demo_judged_veh (demo_cycle demo_scored [''b'', ''c'']) mem_new
       = (Inr (Cycle_Rejected n1 r), s1) \<and>
     run_cycle (demo_ext True) demo_judged_veh (demo_cycle n1 [''b'']) s1 = (Inr (Cycle_Promoted n2 (from_score 1)), s2) \<and>
     n_status n1 = Rejected \<and> n_artifact n2 = artifact_new (demo_man [''b'']) \<and>
     ''tool:b'' \<notin> set (n_capability_sbom demo_scored)"
proof -
  let ?X = "demo_ext True"
  obtain n1 r s1 where first: "run_cycle ?X demo_judged_veh (demo_cycle demo_scored [''b'', ''c'']) mem_new
      = (Inr (Cycle_Rejected n1 r), s1)"
    by (rule demo_first)
  obtain n2 s2 where second: "run_cycle ?X demo_judged_veh (demo_cycle n1 [''b'']) s1
      = (Inr (Cycle_Promoted n2 (from_score 1)), s2)" and no: "not_improved ?X True n1 (from_score 1) = None"
    by (rule demo_second [OF first])
  have covered: "capability_set ?X (artifact_new (demo_man [''b''])) \<subseteq>
      capability_set ?X (artifact_new (demo_man [''b'', ''c'']))"
    by (auto simp: capability_set_def tool_capability_def artifact_new_def)
  have "n_status n1 = Rejected \<and> (\<exists>m. Cycle_Promoted n2 (from_score 1) = Cycle_Promoted m (from_score 1) \<and>
      n_artifact m = cy_candidate (demo_cycle n1 [''b'']))"
    by (rule rejected_parent_launders [OF _ first _ _ _ _ _ _ second])
      (simp_all add: no covered, simp_all add: scope_default_def)
  moreover have "''tool:b'' \<notin> set (n_capability_sbom demo_scored)"
    by (auto simp: capability_set_def tool_capability_def artifact_new_def)
  ultimately show ?thesis using first second by auto
qed

end
