(* ===== verification/Veh_Typing.thy ===== *)
theory Veh_Typing
  imports Veh_Lifecycle
begin

text \<open>
  The type invariant of the recorded data. A \<open>serde_json::Map\<close> has distinct keys; the model's objects
  are association lists, so that every JSON value a ledger stores or exports stays a value of the
  Rust type is a theorem: whatever well-formed values the host and its evaluator supply, all nodes
  are well-formed, every pending approval is, and the export never panics and is well-formed.
\<close>

section \<open>Well-formed inputs\<close>

definition wf_event :: "('m, 'n, 'k) event \<Rightarrow> bool" where
  "wf_event e \<longleftrightarrow> (case e of E_Cycle inp \<Rightarrow> wf_intent (cy_intent inp) | _ \<Rightarrow> True)"

definition wf_evaluator :: "('m, 'n) evaluator \<Rightarrow> bool" where
  "wf_evaluator ev \<longleftrightarrow> (\<forall>a r. ev_evaluate ev a = Inr r \<longrightarrow> wf_json (er_details r))"

definition wf_pending :: "('m, 'n) pending_approval multiset \<Rightarrow> bool" where
  "wf_pending P \<longleftrightarrow> (\<forall>p \<in># P. wf_intent (pa_intent p) \<and> wf_json (pa_eval_results p))"

lemma wf_stub_evaluator: "wf_evaluator (stub_evaluator s)"
  by (simp add: wf_evaluator_def stub_evaluator_def stub_evaluate_def from_score_def)

lemma wf_node_signed: "sign_node X ci key = Inr n \<Longrightarrow> wf_node n \<longleftrightarrow> wf_inputs ci"
  by (simp add: wf_node_def wf_inputs_def sign_node_simps)


section \<open>Preservation\<close>

lemma commits_wf:
  assumes "commits X v ns h e ci" and "wf_event e" and "wf_evaluator (v_evaluator v)"
    and "enabled e P" and "wf_pending P"
  shows "wf_inputs ci"
  using assms
  by (auto simp: commits_def wf_event_def wf_evaluator_def enabled_def wf_pending_def
      wf_inputs_def root_inputs_def resume_inputs_def rollback_inputs_def promoted_inputs_def
      rejected_inputs_def split: event.splits)

lemma veh_exec_awaiting:
  assumes "veh_exec X v e s = (Inr (R_Cycle (Awaiting_Approval p)), s')"
  obtains inp where "e = E_Cycle inp" and "run_cycle X v inp s = (Inr (Awaiting_Approval p), s')"
  using assms by (cases e) (auto dest!: op_map_cases)

lemma pending_after_cases:
  assumes "p \<in># pending_after e r P"
  obtains "p \<in># P" | "r = Inr (R_Cycle (Awaiting_Approval p))"
  using assms
  by (auto simp: pending_after_def dest: in_diffD
      split: event.splits sum.splits reply.splits cycle_outcome.splits)

lemma wf_pending_after:
  assumes "wf_pending P" and "wf_event e" and "wf_evaluator (v_evaluator v)"
    and "veh_exec X v e s = (r, s')"
  shows "wf_pending (pending_after e r P)"
  unfolding wf_pending_def
proof
  fix p
  assume "p \<in># pending_after e r P"
  then show "wf_intent (pa_intent p) \<and> wf_json (pa_eval_results p)"
  proof (cases rule: pending_after_cases)
    case 1
    then show ?thesis using assms(1) by (simp add: wf_pending_def)
  next
    case 2
    obtain inp where e: "e = E_Cycle inp" and run: "run_cycle X v inp s = (Inr (Awaiting_Approval p), s')"
      by (rule veh_exec_awaiting [OF assms(4) [unfolded 2]])
    from run show ?thesis
    proof (cases rule: run_cycle_Inr)
      case (awaiting diff eval reason)
      then have "wf_json (er_details eval)" using assms(3) unfolding wf_evaluator_def by blast
      then show ?thesis using awaiting(1) assms(2) e by (simp add: pending_of_def wf_event_def)
    qed simp_all
  qed
qed

context lineage_contract
begin

lemma reach_wf:
  assumes "lifecycle X v (\<lambda>_. wf_event) s0 s P" and "v_ledger v = S"
    and "wf_evaluator (v_evaluator v)" and "inv s0" and "\<forall>n \<in> set (entries s0). wf_node n"
  shows "inv s \<and> (\<forall>n \<in> set (entries s). wf_node n) \<and> wf_pending P"
  using assms(1)
proof induction
  case start
  then show ?case using assms(4,5) by (simp add: wf_pending_def)
next
  case (step s P e r s')
  then have inv: "inv s" and all: "\<forall>n \<in> set (entries s). wf_node n" and P: "wf_pending P" by blast+
  have P': "wf_pending (pending_after e r P)"
    by (rule wf_pending_after [OF P step.hyps(2) assms(3) step.hyps(4)])
  from assms(2) inv step.hyps(4) show ?case
  proof (cases rule: exec_effect)
    case (added ci key n)
    have "wf_inputs ci" by (rule commits_wf [OF added(1) step.hyps(2) assms(3) step.hyps(3) P])
    then show ?thesis
      using added(2) all P' wf_node_signed [of X ci key n] by (simp add: committed_def)
  qed (use all P' in \<open>auto simp: untouched_def\<close>)
qed

end


section \<open>The export\<close>

lemma wf_nodes_json:
  "list_all2 (\<lambda>n j. node_to_json X n = Inr j) ns js \<Longrightarrow> manifest_laws X \<Longrightarrow>
     \<forall>n \<in> set ns. wf_node n \<Longrightarrow> \<forall>j \<in> set js. wf_json j"
proof (induction rule: list_all2_induct)
  case (Cons n ns j js)
  obtain j' where j': "node_to_json X n = Inr j'" "wf_node n \<Longrightarrow> wf_json j'"
    using node_to_json_total [OF Cons.prems(1), of n] by blast
  then show ?case using Cons by simp
qed simp

lemma export_json:
  assumes "manifest_laws X" and "\<forall>n \<in> set (mem_entries s). wf_node n"
  obtains js where "mem_export_dag_json X s
      = Inr (JObject [(''head'', json_of_option JString (im_head s)), (''nodes'', JArray js)])"
    and "list_all2 (\<lambda>n j. node_to_json X n = Inr j) (mem_entries s) js" and "\<forall>j \<in> set js. wf_json j"
proof -
  obtain js where "traverse (node_to_json X) (mem_entries s) = Inr js"
      "list_all2 (\<lambda>n j. node_to_json X n = Inr j) (mem_entries s) js"
    by (rule traverse_to_json [OF assms(1)])
  then show thesis
    using wf_nodes_json [OF _ assms] by (intro that [of js]) (simp_all add: mem_export_dag_json_def)
qed


section \<open>Properties\<close>

text \<open>
  C14: The types are preserved: while the host and the evaluator supply JSON values of the Rust type,
  every recorded node and pending approval stays one, and the DAG export of any reachable ledger
  succeeds, without the panic of its \<open>json!\<close>, with an object of the head and the node values in
  insertion order.
\<close>

theorem recorded_json_well_typed:
  assumes "lifecycle X v (\<lambda>_. wf_event) mem_new s P" and "v_ledger v = mem_store X"
    and "wf_evaluator (v_evaluator v)" and "manifest_laws X"
  shows "(\<forall>n \<in> set (mem_entries s). wf_node n) \<and>
     (\<forall>p \<in># P. wf_intent (pa_intent p) \<and> wf_json (pa_eval_results p)) \<and>
     (\<exists>dag js. mem_export_dag_json X s = Inr dag \<and> wf_json dag \<and>
        j_get ''head'' dag = Some (json_of_option JString (im_head s)) \<and>
        j_get ''nodes'' dag = Some (JArray js) \<and>
        list_all2 (\<lambda>n j. node_to_json X n = Inr j) (mem_entries s) js)"
proof -
  have wf: "(\<forall>n \<in> set (mem_entries s). wf_node n) \<and> wf_pending P"
    using mem.reach_wf [OF assms(1-3)] by simp
  obtain js where "mem_export_dag_json X s
      = Inr (JObject [(''head'', json_of_option JString (im_head s)), (''nodes'', JArray js)])"
    and "list_all2 (\<lambda>n j. node_to_json X n = Inr j) (mem_entries s) js" and "\<forall>j \<in> set js. wf_json j"
    by (rule export_json [OF assms(4)]) (use wf in blast)+
  then show ?thesis
    using wf by (auto simp: wf_pending_def json_of_option_def split: option.split)
qed

theorem recorded_json_well_typed_witness:
  "\<exists>s n js dag. mem_entries s = [demo_parent, n] \<and> wf_node n \<and>
     mem_export_dag_json (demo_ext True) s = Inr dag \<and> wf_json dag \<and>
     j_get ''nodes'' dag = Some (JArray js) \<and> length js = 2"
proof -
  obtain n s where l: "lifecycle (demo_ext True) (demo_veh 1) (\<lambda>_. wf_event) mem_new s {#}"
      and e: "mem_entries s = [demo_parent, n]"
    by (rule demo_lifecycle [of "\<lambda>_. wf_event"]) (simp_all add: wf_event_def)
  have "v_ledger (demo_veh 1) = mem_store (demo_ext True)" "wf_evaluator (v_evaluator (demo_veh 1))"
    using wf_stub_evaluator [of 1] by (simp_all add: demo_veh_def veh_new_def)
  from recorded_json_well_typed [OF l this demo_manifest_laws] e show ?thesis
    by (force dest: list_all2_lengthD)
qed

end
