(* ===== verification/Veh_Tasks.thy ===== *)
theory Veh_Tasks
  imports Veh_Lifecycle
begin

text \<open>
  The runner's methods at the granularity of their \<open>.await\<close>s. A method locks the ledger once per store
  call, so other calls may run between two of its accesses: \<open>rollback_to\<close> makes two of them and
  \<open>commit_rollback\<close> four. A task is a method cut at its accesses. Run alone, each task is the method of
  \<open>Veh_Graph\<close>; \<open>Veh_Concurrent\<close> interleaves them.
\<close>

section \<open>Tasks\<close>

text \<open>\<open>Await m\<close> is suspended before the access \<open>m\<close> to the shared ledger.\<close>

datatype ('s, 'a) task = Done "'a res" | Await "'s \<Rightarrow> ('s, 'a) task \<times> 's"

primrec task_bind :: "('s, 'a) task \<Rightarrow> ('a \<Rightarrow> ('s, 'b) task) \<Rightarrow> ('s, 'b) task" where
  "task_bind (Done r) f = (case r of Inl e \<Rightarrow> Done (Inl e) | Inr x \<Rightarrow> f x)"
| "task_bind (Await m) f = Await (map_prod (\<lambda>t. task_bind t f) id \<circ> m)"

definition await :: "('s, 'a) op \<Rightarrow> ('s, 'a) task" where
  "await m = Await (map_prod Done id \<circ> m)"

text \<open>A task with nobody else on the ledger.\<close>

primrec run_task :: "('s, 'a) task \<Rightarrow> ('s, 'a) op" where
  "run_task (Done r) = (\<lambda>s. (r, s))"
| "run_task (Await m) = (\<lambda>s. case map_prod run_task id (m s) of (go, s') \<Rightarrow> go s')"

lemma task_bind_simps [simp]:
  "task_bind (Done (Inl e)) f = Done (Inl e)"
  "task_bind (Done (Inr x)) f = f x"
  by simp_all

lemma run_task_await [simp]: "run_task (await m) = m"
  by (rule ext) (simp add: await_def split_beta map_prod_def)

lemma run_task_bind [simp]: "run_task (task_bind t f) s = op_bind (run_task t) (\<lambda>x. run_task (f x)) s"
proof (induction t arbitrary: s)
  case (Done r)
  then show ?case by (cases r) (simp_all add: op_bind_def)
next
  case (Await m)
  obtain t s' where m: "m s = (t, s')" by fastforce
  then have "run_task (task_bind t f) s' = op_bind (run_task t) (\<lambda>x. run_task (f x)) s'"
    using Await [of "m s" t s'] by (metis fsts.intros fst_conv rangeI)
  then show ?case using m by (simp add: op_bind_def)
qed

lemma task_bind_assoc: "task_bind (task_bind t f) g = task_bind t (\<lambda>x. task_bind (f x) g)"
proof (induction t)
  case (Done r)
  then show ?case by (cases r) simp_all
next
  case (Await m)
  then have "map_prod (\<lambda>t. task_bind (task_bind t f) g) id (m s) = map_prod (\<lambda>t. task_bind t (\<lambda>x. task_bind (f x) g)) id (m s)" for s
    by (cases "m s") (metis fsts.intros fst_conv map_prod_simp rangeI)
  then show ?case by (simp add: fun_eq_iff map_prod_def split_beta)
qed

lemma task_bind_choice:
  "task_bind (case r of Inl e \<Rightarrow> Done (Inl e) | Inr x \<Rightarrow> f x) g =
     (case r of Inl e \<Rightarrow> Done (Inl e) | Inr x \<Rightarrow> task_bind (f x) g)"
  by (cases r) simp_all

lemma task_bind_read:
  "task_bind (await (op_lift r)) f = Await (\<lambda>s. (case r s of Inl e \<Rightarrow> Done (Inl e) | Inr x \<Rightarrow> f x, s))"
  by (simp add: await_def fun_eq_iff)


section \<open>The methods, access by access\<close>

definition sign_and_append_task ::
  "('m, 'n, 'k) ext \<Rightarrow> ('s, 'm, 'n, 'k) veh \<Rightarrow> ('m, 'n) commit_inputs \<Rightarrow> 'k
     \<Rightarrow> ('s, ('m, 'n) agent_node) task" where
  "sign_and_append_task X v inputs key =
     task_bind (Done (sign_node X inputs key)) (\<lambda>node.
     task_bind (await (ls_append (v_ledger v) node)) (\<lambda>_.
     Done (Inr node)))"

definition commit_root_task ::
  "('m, 'n, 'k) ext \<Rightarrow> ('s, 'm, 'n, 'k) veh \<Rightarrow> 'm agent_artifact \<Rightarrow> allowed_scope \<Rightarrow> string
     \<Rightarrow> ('s, ('m, 'n) agent_node) task" where
  "commit_root_task X v artifact scope created =
     sign_and_append_task X v (root_inputs artifact scope created) (v_signing_key v)"

definition run_cycle_task ::
  "('m, 'n, 'k) ext \<Rightarrow> ('s, 'm, 'n, 'k) veh \<Rightarrow> ('m, 'n) cycle_inputs \<Rightarrow> ('s, ('m, 'n) cycle_outcome) task" where
  "run_cycle_task X v inputs =
     (let parent = cy_parent inputs; intent = cy_intent inputs; candidate = cy_candidate inputs;
          scope = cy_allowed_scope inputs; created = cy_created_at inputs in
      task_bind (Done (manifest_diff X (n_artifact parent) candidate)) (\<lambda>diff.
      task_bind (Done (ev_evaluate (v_evaluator v) candidate)) (\<lambda>eval.
      let rejected = (\<lambda>reason.
            task_bind (Done (u32_succ X (n_generation parent))) (\<lambda>generation.
            task_bind (sign_and_append_task X v
              (rejected_inputs X parent generation intent candidate scope created diff eval)
              (v_signing_key v)) (\<lambda>node.
            Done (Inr (Cycle_Rejected node reason))))) in
      case not_improved X (v_strict v) parent eval of
        Some parent_score \<Rightarrow>
          rejected (''candidate score '' @ x_f64_text X (er_score eval) @ '' did not exceed parent '' @
            x_f64_text X parent_score)
      | None \<Rightarrow>
          task_bind (Done (v_policy v parent intent (capability_sbom X candidate))) (\<lambda>decision.
          case decision of
            Approve \<Rightarrow>
              task_bind (Done (u32_succ X (n_generation parent))) (\<lambda>generation.
              task_bind (sign_and_append_task X v
                (promoted_inputs X parent generation intent candidate scope created diff eval)
                (v_signing_key v)) (\<lambda>node.
              Done (Inr (Cycle_Promoted node eval))))
          | Deny reason \<Rightarrow> rejected reason
          | RequireApproval reason \<Rightarrow>
              Done (Inr (Awaiting_Approval (pending_of X inputs diff eval reason)))))))"

definition resume_task ::
  "('m, 'n, 'k) ext \<Rightarrow> ('s, 'm, 'n, 'k) veh \<Rightarrow> ('m, 'n) pending_approval \<Rightarrow> 'k
     \<Rightarrow> ('s, ('m, 'n) agent_node) task" where
  "resume_task X v pending approval_key =
     task_bind (Done (u32_succ X (pa_parent_generation pending))) (\<lambda>generation.
     sign_and_append_task X v (resume_inputs pending generation) approval_key)"

definition rollback_target_task ::
  "('m, 'n, 'k) ext \<Rightarrow> ('s, 'm, 'n, 'k) veh \<Rightarrow> agent_id \<Rightarrow> ('s, ('m, 'n) agent_node) task" where
  "rollback_target_task X v aid =
     task_bind (await (op_lift (ls_get (v_ledger v) aid))) (\<lambda>target.
     task_bind (Done (verify_node X target)) (\<lambda>_.
     Done (if n_status target \<noteq> Promoted
           then Inl (PolicyDenied (''cannot roll back to non-promoted node '' @ aid))
           else Inr target)))"

definition rollback_to_task ::
  "('m, 'n, 'k) ext \<Rightarrow> ('s, 'm, 'n, 'k) veh \<Rightarrow> agent_id \<Rightarrow> ('s, unit) task" where
  "rollback_to_task X v aid =
     task_bind (rollback_target_task X v aid) (\<lambda>_. await (ls_set_head (v_ledger v) aid))"

definition commit_rollback_task ::
  "('m, 'n, 'k) ext \<Rightarrow> ('s, 'm, 'n, 'k) veh \<Rightarrow> agent_id \<Rightarrow> string \<Rightarrow> ('s, ('m, 'n) agent_node) task" where
  "commit_rollback_task X v target_id created =
     task_bind (rollback_target_task X v target_id) (\<lambda>target.
     task_bind (await (op_lift (ls_head (v_ledger v)))) (\<lambda>head.
     task_bind (Done (ok_or (LedgerError ''ledger has no head; nothing to roll back'') head)) (\<lambda>parent_id.
     task_bind (await (op_lift (ls_get (v_ledger v) parent_id))) (\<lambda>parent.
     task_bind (Done (u32_succ X (n_generation parent))) (\<lambda>generation.
     sign_and_append_task X v (rollback_inputs target parent target_id generation created)
       (v_signing_key v))))))"

definition task_map :: "('a \<Rightarrow> 'b) \<Rightarrow> ('s, 'a) task \<Rightarrow> ('s, 'b) task" where
  "task_map f t = task_bind t (\<lambda>x. Done (Inr (f x)))"

fun veh_task ::
  "('m, 'n, 'k) ext \<Rightarrow> ('s, 'm, 'n, 'k) veh \<Rightarrow> ('m, 'n, 'k) event \<Rightarrow> ('s, ('m, 'n) reply) task" where
  "veh_task X v (E_Root a sc t) = task_map R_Node (commit_root_task X v a sc t)"
| "veh_task X v (E_Cycle inp) = task_map R_Cycle (run_cycle_task X v inp)"
| "veh_task X v (E_Resume p key) = task_map R_Node (resume_task X v p key)"
| "veh_task X v (E_Rollback_To i) = task_map (\<lambda>_. R_Unit) (rollback_to_task X v i)"
| "veh_task X v (E_Commit_Rollback i t) = task_map R_Node (commit_rollback_task X v i t)"


section \<open>Run alone, a task is the method\<close>

text \<open>A step that touches no state, then the rest.\<close>

lemma run_task_Done_bind [simp]: "run_task (task_bind (Done r) f) s = op_bind (op_lift (\<lambda>_. r)) (\<lambda>x. run_task (f x)) s"
  by (cases r) simp_all

lemma run_sign_and_append [simp]: "run_task (sign_and_append_task X v ci key) = sign_and_append X v ci key"
  by (rule ext) (simp add: sign_and_append_task_def sign_and_append_def op_bind_def split_beta split: sum.split)

lemma run_commit_root: "run_task (commit_root_task X v a sc t) = commit_root X v a sc t"
  by (simp add: commit_root_task_def commit_root_def)

lemma run_resume: "run_task (resume_task X v p key) = resume_with_approval X v p key"
  by (rule ext) (simp add: resume_task_def resume_with_approval_def op_bind_def split_beta split: sum.split)

lemma run_rollback_target [simp]: "run_task (rollback_target_task X v i) = op_lift (rollback_target_node X v i)"
  by (rule ext)
    (simp add: rollback_target_task_def rollback_target_node_def res_bind_def op_bind_def split_beta split: sum.split)

lemma run_rollback_to: "run_task (rollback_to_task X v i) = rollback_to X v i"
  by (rule ext) (simp add: rollback_to_task_def rollback_to_def)

lemma run_commit_rollback: "run_task (commit_rollback_task X v i t) = commit_rollback X v i t"
  by (rule ext)
    (simp add: commit_rollback_task_def commit_rollback_def op_bind_def res_bind_def split_beta split: sum.split)

lemma run_cycle_alone: "run_task (run_cycle_task X v inp) = run_cycle X v inp"
  by (rule ext)
    (simp add: run_cycle_task_def run_cycle_def Let_def op_bind_def commit_promoted_def commit_rejected_def
       pending_of_def split_beta split: sum.split option.split policy_decision.split)

lemma run_task_map [simp]: "run_task (task_map f t) = op_map f (run_task t)"
  by (rule ext) (simp add: task_map_def op_map_def op_bind_def split_beta split: sum.split)

lemma run_veh_task: "run_task (veh_task X v e) = veh_exec X v e"
  by (cases e) (simp_all add: run_commit_root run_cycle_alone run_resume run_rollback_to run_commit_rollback)

lemma local_exec:
  assumes "veh_task X v e = Done r"
  shows "veh_exec X v e s = (r, s)"
  by (simp only: run_veh_task [symmetric] assms run_task.simps)


section \<open>The accesses of a rollback\<close>

lemma rollback_target_access:
  "task_bind (rollback_target_task X v i) f =
     Await (\<lambda>s. (case rollback_target_node X v i s of Inl e \<Rightarrow> Done (Inl e) | Inr n \<Rightarrow> f n, s))"
  by (simp add: rollback_target_task_def task_bind_read task_bind_choice fun_eq_iff rollback_target_node_def
      res_bind_def split: sum.split)

lemma rollback_to_access:
  "veh_task X v (E_Rollback_To i) = Await (\<lambda>s. (case rollback_target_node X v i s of
       Inl e \<Rightarrow> Done (Inl e)
     | Inr n \<Rightarrow> task_map (\<lambda>_. R_Unit) (await (ls_set_head (v_ledger v) i)), s))"
  by (simp add: task_map_def rollback_to_task_def rollback_target_access task_bind_choice fun_eq_iff split: sum.split)

definition rollback_from ::
  "('m, 'n, 'k) ext \<Rightarrow> ('s, 'm, 'n, 'k) veh \<Rightarrow> agent_id \<Rightarrow> string \<Rightarrow> ('m, 'n) agent_node \<Rightarrow> ('m, 'n) agent_node
     \<Rightarrow> ('s, ('m, 'n) reply) task" where
  "rollback_from X v i t target parent =
     task_bind (Done (u32_succ X (n_generation parent))) (\<lambda>generation.
     task_map R_Node (sign_and_append_task X v (rollback_inputs target parent i generation t) (v_signing_key v)))"

lemma commit_rollback_access:
  "veh_task X v (E_Commit_Rollback i t) = Await (\<lambda>s. (case rollback_target_node X v i s of
       Inl e \<Rightarrow> Done (Inl e)
     | Inr target \<Rightarrow> Await (\<lambda>s. (case ls_head (v_ledger v) s of
         Inl e \<Rightarrow> Done (Inl e)
       | Inr None \<Rightarrow> Done (Inl (LedgerError ''ledger has no head; nothing to roll back''))
       | Inr (Some parent_id) \<Rightarrow> Await (\<lambda>s. (case ls_get (v_ledger v) parent_id s of
           Inl e \<Rightarrow> Done (Inl e)
         | Inr parent \<Rightarrow> rollback_from X v i t target parent, s)), s)), s))"
  by (simp add: task_map_def commit_rollback_task_def rollback_target_access task_bind_read task_bind_choice
      rollback_from_def ok_or_def fun_eq_iff split: sum.split option.split)

end
