(* ===== verification/Veh_Concurrent.thy ===== *)
theory Veh_Concurrent
  imports Veh_Tasks
begin

text \<open>
  Calls of the runner in parallel on one shared ledger. Any number of calls are in flight; a step lets
  one of them make its next access. What a task may rely on is that the others append nodes and move
  the head; what it guarantees is an \<open>effect\<close> of its own event, so the invariants of \<open>Veh_Lifecycle\<close>
  hold in every interleaving. All methods but \<open>commit_rollback\<close> are linearizable.
\<close>

section \<open>Interleaved calls\<close>

type_synonym ('s, 'm, 'n) access = "'s \<Rightarrow> ('s, ('m, 'n) reply) task \<times> 's"

type_synonym ('m, 'n, 'k) history = "(('m, 'n, 'k) event \<times> ('m, 'n) reply res) list"

text \<open>A resumption takes its pending approval when it is called; a paused cycle offers one.\<close>

definition claimed ::
  "('m, 'n, 'k) event \<Rightarrow> ('m, 'n) pending_approval multiset \<Rightarrow> ('m, 'n) pending_approval multiset" where
  "claimed e P = (case e of E_Resume p _ \<Rightarrow> P - {#p#} | _ \<Rightarrow> P)"

definition offered ::
  "('m, 'n) reply res \<Rightarrow> ('m, 'n) pending_approval multiset \<Rightarrow> ('m, 'n) pending_approval multiset" where
  "offered r P = (case r of Inr (R_Cycle (Awaiting_Approval p)) \<Rightarrow> add_mset p P | _ \<Rightarrow> P)"

text \<open>
  The shared state, the calls in flight with their next access, the pending approvals the hosts hold,
  and the completed calls in the order of their last access. A call that never proceeds is one whose
  future was dropped.
\<close>

inductive interleaved ::
  "('m, 'n, 'k) ext \<Rightarrow> ('s, 'm, 'n, 'k) veh \<Rightarrow> ('s \<Rightarrow> ('m, 'n, 'k) event \<Rightarrow> bool) \<Rightarrow> 's
     \<Rightarrow> 's \<Rightarrow> (('m, 'n, 'k) event \<times> ('s, 'm, 'n) access) multiset \<Rightarrow> ('m, 'n) pending_approval multiset
     \<Rightarrow> ('m, 'n, 'k) history \<Rightarrow> bool"
  for X v G s0 where
  idle: "interleaved X v G s0 s0 {#} {#} []"
| call: "interleaved X v G s0 s T P H \<Longrightarrow> G s e \<Longrightarrow> enabled e P \<Longrightarrow> veh_task X v e = Await m \<Longrightarrow>
     interleaved X v G s0 s (add_mset (e, m) T) (claimed e P) H"
| local_call: "interleaved X v G s0 s T P H \<Longrightarrow> G s e \<Longrightarrow> enabled e P \<Longrightarrow> veh_task X v e = Done r \<Longrightarrow>
     interleaved X v G s0 s T (offered r (claimed e P)) (H @ [(e, r)])"
| access: "interleaved X v G s0 s (add_mset (e, m) T) P H \<Longrightarrow> m s = (Await m', s') \<Longrightarrow>
     interleaved X v G s0 s' (add_mset (e, m') T) P H"
| complete: "interleaved X v G s0 s (add_mset (e, m) T) P H \<Longrightarrow> m s = (Done r, s') \<Longrightarrow>
     interleaved X v G s0 s' T (offered r P) (H @ [(e, r)])"

lemma interleaved_any: "interleaved X v G s0 s T P H \<Longrightarrow> interleaved X v (\<lambda>_ _. True) s0 s T P H"
  by (induction rule: interleaved.induct) (auto intro: interleaved.intros)

text \<open>One call after the other: the replies and the state they leave.\<close>

fun veh_run ::
  "('m, 'n, 'k) ext \<Rightarrow> ('s, 'm, 'n, 'k) veh \<Rightarrow> ('m, 'n, 'k) event list \<Rightarrow> 's \<Rightarrow> ('m, 'n) reply res list \<times> 's" where
  "veh_run X v [] s = ([], s)"
| "veh_run X v (e # es) s =
     (case veh_exec X v e s of (r, s') \<Rightarrow> case veh_run X v es s' of (rs, s'') \<Rightarrow> (r # rs, s''))"

lemma veh_run_snoc:
  "veh_run X v es s = (rs, s') \<Longrightarrow> veh_exec X v e s' = (r, s'') \<Longrightarrow> veh_run X v (es @ [e]) s = (rs @ [r], s'')"
  by (induction es arbitrary: s rs) (auto split: prod.splits)


section \<open>Tasks with at most one access\<close>

definition single :: "('s, 'a) task \<Rightarrow> bool" where
  "single t \<longleftrightarrow> (case t of Done _ \<Rightarrow> True | Await m \<Rightarrow> \<forall>s. \<exists>r s'. m s = (Done r, s'))"

lemma single_Done [simp]: "single (Done r)"
  by (simp add: single_def)

lemma single_bind_local: "(\<And>x. single (f x)) \<Longrightarrow> single (task_bind (Done r) f)"
  by (cases r) simp_all

lemma single_bind_end:
  assumes "single t" and "\<And>x. \<exists>r. f x = Done r"
  shows "single (task_bind t f)"
proof (cases t)
  case (Done r)
  then show ?thesis using assms(2) by (cases r) (auto simp: single_def split: task.split, metis task.distinct(1))
next
  case (Await m)
  have "\<exists>r s'. map_prod (\<lambda>t. task_bind t f) id (m s) = (Done r, s')" for s
  proof -
    obtain r s' where "m s = (Done r, s')" using assms(1) Await by (fastforce simp: single_def)
    then show ?thesis using assms(2) by (cases r) auto
  qed
  then show ?thesis using Await by (simp add: single_def)
qed

lemma single_await [simp]: "single (await m)"
  by (simp add: single_def await_def map_prod_def split_beta)

lemma single_sign_and_append: "single (sign_and_append_task X v ci key)"
  unfolding sign_and_append_task_def by (intro single_bind_local single_bind_end) auto

lemma single_commit:
  "single (task_bind (Done r) (\<lambda>g. task_bind (sign_and_append_task X v (ci g) key) (\<lambda>n. Done (f n))))"
  by (intro single_bind_local single_bind_end [OF single_sign_and_append]) blast

lemma single_map: "single t \<Longrightarrow> single (task_map f t)"
  unfolding task_map_def by (erule single_bind_end) blast

lemma single_run_cycle: "single (run_cycle_task X v inp)"
  unfolding run_cycle_task_def Let_def
proof (intro single_bind_local)
  fix diff eval
  show "single (case not_improved X (v_strict v) (cy_parent inp) eval of
      None \<Rightarrow> task_bind (Done (gate_decision X v inp)) (\<lambda>decision. case decision of
          Approve \<Rightarrow> task_bind (Done (u32_succ X (n_generation (cy_parent inp)))) (\<lambda>generation.
            task_bind (sign_and_append_task X v (cycle_promoted_inputs X inp generation diff eval) (v_signing_key v))
              (\<lambda>node. Done (Inr (Cycle_Promoted node eval))))
        | Deny reason \<Rightarrow> task_bind (Done (u32_succ X (n_generation (cy_parent inp)))) (\<lambda>generation.
            task_bind (sign_and_append_task X v (cycle_rejected_inputs X inp generation diff eval) (v_signing_key v))
              (\<lambda>node. Done (Inr (Cycle_Rejected node reason))))
        | RequireApproval reason \<Rightarrow> Done (Inr (Awaiting_Approval (pending_of X inp diff eval reason))))
    | Some parent_score \<Rightarrow> task_bind (Done (u32_succ X (n_generation (cy_parent inp)))) (\<lambda>generation.
        task_bind (sign_and_append_task X v (cycle_rejected_inputs X inp generation diff eval) (v_signing_key v))
          (\<lambda>node. Done (Inr (Cycle_Rejected node (''candidate score '' @ x_f64_text X (er_score eval) @
             '' did not exceed parent '' @ x_f64_text X parent_score))))))"
    by (auto intro!: single_bind_local [of _ "gate_decision X v inp"] single_commit simp del: task_bind.simps
        simp del: task_bind_simps split: option.split policy_decision.split)
qed

lemma single_commits:
  "single (veh_task X v (E_Root a sc t))" "single (veh_task X v (E_Cycle inp))" "single (veh_task X v (E_Resume p key))"
  unfolding veh_task.simps commit_root_task_def resume_task_def
  by (intro single_map single_run_cycle single_sign_and_append single_bind_local)+


section \<open>What a task relies on and what it guarantees\<close>

context lineage_contract
begin

text \<open>What the others may do to the ledger.\<close>

definition later :: "'s \<Rightarrow> 's \<Rightarrow> bool" where
  "later s s' \<longleftrightarrow> inv s' \<and> (\<exists>new. entries s' = entries s @ new)"

lemma later_refl: "inv s \<Longrightarrow> later s s"
  by (simp add: later_def)

lemma later_trans: "later s s' \<Longrightarrow> later s' s'' \<Longrightarrow> later s s''"
  by (auto simp: later_def)

lemma later_inv: "later s s' \<Longrightarrow> inv s'"
  by (simp add: later_def)

lemma later_mem: "later s s' \<Longrightarrow> n \<in> set (entries s) \<Longrightarrow> n \<in> set (entries s')"
  by (auto simp: later_def)

lemma effect_later: "effect X v e s s' \<Longrightarrow> later s s'"
  using effect_appends by (simp add: later_def)

text \<open>A reply's nodes are recorded, and a pending approval is that of the call's own parent.\<close>

definition reply_ok :: "('m, 'n, 'k) event \<Rightarrow> 's \<Rightarrow> ('m, 'n) reply res \<Rightarrow> bool" where
  "reply_ok e s r \<longleftrightarrow>
     (case r of
        Inr (R_Node n) \<Rightarrow> n \<in> set (entries s)
      | Inr (R_Cycle (Cycle_Promoted n _)) \<Rightarrow> n \<in> set (entries s)
      | Inr (R_Cycle (Cycle_Rejected n _)) \<Rightarrow> n \<in> set (entries s)
      | Inr (R_Cycle (Awaiting_Approval p)) \<Rightarrow> \<exists>inp. e = E_Cycle inp \<and>
          pa_parent_id p = Some (n_agent_id (cy_parent inp)) \<and> pa_parent_generation p = n_generation (cy_parent inp)
      | _ \<Rightarrow> True)"

lemma reply_ok_simps [simp]:
  "reply_ok e s (Inl err)" "reply_ok e s (Inr R_Unit)"
  "reply_ok e s (Inr (R_Node n)) \<longleftrightarrow> n \<in> set (entries s)"
  by (simp_all add: reply_ok_def)

lemma reply_ok_later: "reply_ok e s r \<Longrightarrow> later s s' \<Longrightarrow> reply_ok e s' r"
  by (auto simp: reply_ok_def dest: later_mem split: sum.splits reply.splits cycle_outcome.splits)

lemma committed_mem: "committed X ci key s n s' \<Longrightarrow> n \<in> set (entries s')"
  by (simp add: committed_def)

lemma exec_reply_ok:
  assumes "v_ledger v = S" and "inv s" and "veh_exec X v e s = (r, s')"
  shows "reply_ok e s' r"
proof (cases e)
  case (E_Root a sc t)
  then show ?thesis
    using assms(3) op_map_cases [of R_Node "commit_root X v a sc t" s r s'] commit_root_ok [OF assms(1,2)] committed_mem
    by fastforce
next
  case (E_Cycle inp)
  then consider err where "r = Inl err" | out where "r = Inr (R_Cycle out)" "run_cycle X v inp s = (Inr out, s')"
    using assms(3) op_map_cases [of R_Cycle "run_cycle X v inp" s r s'] by auto
  then show ?thesis
  proof cases
    case 2
    from 2(2) show ?thesis
      by (cases rule: run_cycle_Inr)
        (auto simp: 2(1) reply_ok_def E_Cycle pending_of_def dest!: sign_and_append_ok [OF assms(1,2)] committed_mem)
  qed simp
next
  case (E_Resume p key)
  then show ?thesis
    using assms(3) op_map_cases [of R_Node "resume_with_approval X v p key" s r s'] resume_ok [OF assms(1,2)] committed_mem
    by (metis reply_ok_simps(1,3) veh_exec.simps(3))
next
  case (E_Rollback_To i)
  then show ?thesis
    using assms(3) op_map_cases [of "\<lambda>_. R_Unit" "rollback_to X v i" s r s'] by auto
next
  case (E_Commit_Rollback i t)
  then show ?thesis
    using assms(3) op_map_cases [of R_Node "commit_rollback X v i t" s r s'] commit_rollback_ok [OF assms(1,2)] committed_mem
    by (metis reply_ok_simps(1,3) veh_exec.simps(5))
qed

text \<open>From any later ledger, every access of the task has an effect of its event.\<close>

inductive guarded ::
  "('m, 'n, 'k) ext \<Rightarrow> ('s, 'm, 'n, 'k) veh \<Rightarrow> ('m, 'n, 'k) event \<Rightarrow> 's \<Rightarrow> ('s, ('m, 'n) reply) task \<Rightarrow> bool"
  for X v e where
  ended: "reply_ok e s r \<Longrightarrow> guarded X v e s (Done r)"
| suspended: "(\<And>s' t s''. later s s' \<Longrightarrow> m s' = (t, s'') \<Longrightarrow> effect X v e s' s'' \<and> guarded X v e s'' t) \<Longrightarrow>
     guarded X v e s (Await m)"

inductive_cases guarded_awaitE: "guarded X v e s (Await m)"
inductive_simps guarded_done_iff [simp]: "guarded X v e s (Done r)"

text \<open>
  From any later ledger, the next access is the last and does what the whole method would do there, or
  only reads.
\<close>

inductive linear ::
  "('m, 'n, 'k) ext \<Rightarrow> ('s, 'm, 'n, 'k) veh \<Rightarrow> ('m, 'n, 'k) event \<Rightarrow> 's \<Rightarrow> ('s, ('m, 'n) reply) task \<Rightarrow> bool"
  for X v e where
  last: "(\<And>s'. later s s' \<Longrightarrow> (\<exists>r s''. m s' = (Done r, s'') \<and> veh_exec X v e s' = (r, s'')) \<or>
       (\<exists>m'. m s' = (Await m', s') \<and> linear X v e s' (Await m'))) \<Longrightarrow> linear X v e s (Await m)"

inductive_cases linear_awaitE: "linear X v e s (Await m)"

lemma guarded_later: "guarded X v e s t \<Longrightarrow> later s s' \<Longrightarrow> guarded X v e s' t"
proof (cases t)
  case (Await m)
  assume g: "guarded X v e s t" and le: "later s s'"
  have "effect X v e s1 s2 \<and> guarded X v e s2 t'" if "later s' s1" "m s1 = (t', s2)" for s1 t' s2
    using g [unfolded Await] later_trans [OF le that(1)] that(2) by (auto elim: guarded_awaitE)
  then show ?thesis unfolding Await by (rule suspended)
qed (auto intro: reply_ok_later)

lemma linear_later: "linear X v e s (Await m) \<Longrightarrow> later s s' \<Longrightarrow> linear X v e s' (Await m)"
  by (rule linear.last) (erule linear_awaitE, blast dest: later_trans)

lemma linear_guarded:
  assumes "v_ledger v = S" and "linear X v e s t"
  shows "guarded X v e s t"
  using assms(2)
proof induction
  case (last s m)
  show ?case
  proof (rule suspended)
    fix s' t s'' assume later: "later s s'" and m: "m s' = (t, s'')"
    then have inv: "inv s'" by (simp add: later_inv)
    from last [OF later] consider r where "t = Done r" "veh_exec X v e s' = (r, s'')"
      | "s'' = s'" "guarded X v e s' t"
      using m by auto
    then show "effect X v e s' s'' \<and> guarded X v e s'' t"
    proof cases
      case 1
      then show ?thesis using exec_has_effect [OF assms(1) inv] exec_reply_ok [OF assms(1) inv] by simp
    next
      case 2
      then show ?thesis using inv by (simp add: effect_def)
    qed
  qed
qed

lemma single_access:
  assumes "veh_task X v e = Await m" and "single (Await m)"
  obtains r s' where "m s = (Done r, s')" and "veh_exec X v e s = (r, s')"
proof -
  obtain r s' where m: "m s = (Done r, s')" using assms(2) by (fastforce simp: single_def)
  have "veh_exec X v e s = run_task (Await m) s" using assms(1) by (simp add: run_veh_task [symmetric])
  then show thesis using m by (intro that) simp_all
qed

lemma linear_single: "veh_task X v e = Await m \<Longrightarrow> single (Await m) \<Longrightarrow> linear X v e s (Await m)"
  by (rule linear.last) (metis single_access)

lemma linear_rollback_to:
  assumes "v_ledger v = S" and "veh_task X v (E_Rollback_To i) = Await m"
  shows "linear X v (E_Rollback_To i) s (Await m)"
proof (rule linear.last)
  fix s' assume "later s s'"
  then have inv: "inv s'" by (simp add: later_inv)
  have m: "m s' = (case rollback_target_node X v i s' of Inl e \<Rightarrow> Done (Inl e)
       | Inr n \<Rightarrow> task_map (\<lambda>_. R_Unit) (await (ls_set_head S i)), s')"
    using assms(2) [unfolded rollback_to_access] assms(1) by auto
  show "(\<exists>r s''. m s' = (Done r, s'') \<and> veh_exec X v (E_Rollback_To i) s' = (r, s'')) \<or>
     (\<exists>m'. m s' = (Await m', s') \<and> linear X v (E_Rollback_To i) s' (Await m'))"
  proof (cases "rollback_target_node X v i s'")
    case (Inl e)
    then show ?thesis using m by (simp add: op_map_def rollback_to_def)
  next
    case (Inr n)
    let ?set = "\<lambda>s. map_prod (\<lambda>t. task_bind t (\<lambda>_. Done (Inr R_Unit))) id (map_prod Done id (ls_set_head S i s))"
    have "linear X v (E_Rollback_To i) s' (Await ?set)"
    proof (rule linear.last)
      fix s'' assume later: "later s' s''"
      then have "rollback_target_node X v i s'' = Inr n"
        using Inr rollback_node_iff [OF assms(1)] inv later_inv [OF later] later_mem [OF later] by blast
      then show "(\<exists>r s3. ?set s'' = (Done r, s3) \<and> veh_exec X v (E_Rollback_To i) s'' = (r, s3)) \<or>
         (\<exists>m'. ?set s'' = (Await m', s'') \<and> linear X v (E_Rollback_To i) s'' (Await m'))"
        using assms(1)
        by (cases "ls_set_head S i s''")
          (simp add: op_map_def rollback_to_def op_bind_def split: sum.split)
    qed
    moreover have "m s' = (Await ?set, s')"
      using m Inr by (simp add: task_map_def await_def comp_def)
    ultimately show ?thesis by blast
  qed
qed

lemma linear_veh_task:
  assumes "v_ledger v = S" and "veh_task X v e = Await m" and "\<And>i t. e \<noteq> E_Commit_Rollback i t"
  shows "linear X v e s (Await m)"
proof (cases e)
  case (E_Rollback_To i)
  then show ?thesis using linear_rollback_to [OF assms(1)] assms(2) by blast
qed (use assms linear_single [of X v e m s] single_commits [of X v] in \<open>metis\<close>)+


section \<open>A signed rollback\<close>

lemma guarded_read:
  assumes "\<And>s'. later s s' \<Longrightarrow> guarded X v e s' (f s')"
  shows "guarded X v e s (Await (\<lambda>s. (f s, s)))"
  using assms by (intro suspended) (auto simp: effect_def dest: later_inv)

lemma guarded_single:
  assumes "single t" and "inv s"
    and does: "\<And>s' r s''. later s s' \<Longrightarrow> run_task t s' = (r, s'') \<Longrightarrow> effect X v e s' s'' \<and> reply_ok e s'' r"
  shows "guarded X v e s t"
proof (cases t)
  case (Done r)
  then show ?thesis using does [OF later_refl [OF assms(2)], of r s] by simp
next
  case (Await m)
  show ?thesis
    unfolding Await
  proof (rule suspended)
    fix s' t' s'' assume later: "later s s'" and m: "m s' = (t', s'')"
    have "single (Await m)" using assms(1) Await by simp
    then obtain r where t': "t' = Done r"
      using m by (auto simp: single_def) (metis fst_conv)
    then have "run_task t s' = (r, s'')" using Await m by simp
    then show "effect X v e s' s'' \<and> guarded X v e s'' t'"
      using does [OF later] t' by simp
  qed
qed

lemma guarded_rollback_from:
  assumes "v_ledger v = S" and "inv s" and "target \<in> set (entries s)" and "n_status target = Promoted"
    and "parent \<in> set (entries s)"
  shows "guarded X v (E_Commit_Rollback i t) s (rollback_from X v i t target parent)"
proof (rule guarded_single [OF _ assms(2)])
  show "single (rollback_from X v i t target parent)"
    unfolding rollback_from_def by (intro single_bind_local single_map single_sign_and_append)
next
  fix s' r s''
  let ?key = "v_signing_key v" and ?e = "E_Commit_Rollback i t"
  assume later: "later s s'" and run: "run_task (rollback_from X v i t target parent) s' = (r, s'')"
  then have inv: "inv s'" by (simp add: later_inv)
  show "effect X v ?e s' s'' \<and> reply_ok ?e s'' r"
  proof (cases "u32_succ X (n_generation parent)")
    case (Inl err)
    then show ?thesis using run inv by (auto simp: rollback_from_def effect_def)
  next
    case (Inr g)
    let ?ci = "rollback_inputs target parent i g t"
    have "op_map R_Node (sign_and_append X v ?ci ?key) s' = (r, s'')"
      using run Inr by (simp add: rollback_from_def)
    then consider err where "r = Inl err" "sign_and_append X v ?ci ?key s' = (Inl err, s'')"
      | n where "r = Inr (R_Node n)" "sign_and_append X v ?ci ?key s' = (Inr n, s'')"
      by (auto dest: op_map_cases)
    then show ?thesis
    proof cases
      case 1
      then show ?thesis using sign_and_append_err [OF assms(1) inv] by (simp add: effect_def)
    next
      case 2
      have "commits X v (entries s') (Some (n_agent_id parent)) ?e ?ci"
        using assms(3-5) Inr later_mem [OF later] by (auto simp: commits_def)
      then show ?thesis
        using sign_and_append_ok [OF assms(1) inv 2(2)] committed_mem 2(1) unfolding effect_def by fastforce
    qed
  qed
qed

lemma guarded_commit_rollback:
  assumes "v_ledger v = S"
  shows "guarded X v (E_Commit_Rollback i t) s (veh_task X v (E_Commit_Rollback i t))"
  unfolding commit_rollback_access
proof (rule guarded_read)
  let ?e = "E_Commit_Rollback i t"
  let ?parent = "\<lambda>target pid. Await (\<lambda>s. (case ls_get (v_ledger v) pid s of
      Inl e \<Rightarrow> Done (Inl e) | Inr parent \<Rightarrow> rollback_from X v i t target parent, s))"
  let ?head = "\<lambda>target. Await (\<lambda>s. (case ls_head (v_ledger v) s of
      Inl e \<Rightarrow> Done (Inl e)
    | Inr None \<Rightarrow> Done (Inl (LedgerError ''ledger has no head; nothing to roll back''))
    | Inr (Some pid) \<Rightarrow> ?parent target pid, s))"
  fix s' assume "later s s'"
  have parent: "guarded X v ?e s1 (?parent target pid)"
    if "target \<in> set (entries s1)" "n_status target = Promoted" for s1 target pid
  proof (rule guarded_read)
    fix s2 assume le: "later s1 s2"
    then show "guarded X v ?e s2 (case ls_get (v_ledger v) pid s2 of
        Inl e \<Rightarrow> Done (Inl e) | Inr parent \<Rightarrow> rollback_from X v i t target parent)"
      using guarded_rollback_from [OF assms later_inv [OF le] later_mem [OF le that(1)] that(2)]
        get_mem [OF later_inv [OF le]] assms
      by (auto intro: ended split: sum.split)
  qed
  have "guarded X v ?e s' (?head target)" if "target \<in> set (entries s')" "n_status target = Promoted" for target
    using parent that
    by (intro guarded_read) (auto intro: ended dest: later_mem split: sum.split option.split)
  then show "guarded X v ?e s' (case rollback_target_node X v i s' of Inl e \<Rightarrow> Done (Inl e) | Inr target \<Rightarrow> ?head target)"
    using rollback_node_iff [OF assms later_inv [OF \<open>later s s'\<close>]]
    by (auto intro: ended split: sum.split)
qed

lemma guarded_veh_task:
  assumes "v_ledger v = S" and "veh_task X v e = Await m"
  shows "guarded X v e s (Await m)"
proof (cases "\<exists>i t. e = E_Commit_Rollback i t")
  case True
  then show ?thesis using guarded_commit_rollback [OF assms(1)] assms(2) by metis
next
  case False
  then show ?thesis using linear_guarded [OF assms(1)] linear_veh_task [OF assms] by blast
qed


section \<open>Invariants of all interleavings\<close>

text \<open>
  What every effect of an allowed event keeps, every interleaving keeps. A discipline is checked when a
  call is made, so it has to last while the ledger grows.
\<close>

definition in_flight ::
  "('m, 'n, 'k) ext \<Rightarrow> ('s, 'm, 'n, 'k) veh \<Rightarrow> ('s \<Rightarrow> ('m, 'n, 'k) event \<Rightarrow> bool) \<Rightarrow> 's
     \<Rightarrow> (('m, 'n, 'k) event \<times> ('s, 'm, 'n) access) multiset \<Rightarrow> bool" where
  "in_flight X v G s T \<longleftrightarrow> (\<forall>c \<in># T. G s (fst c) \<and> guarded X v (fst c) s (Await (snd c)))"

definition lasting :: "('s \<Rightarrow> ('m, 'n, 'k) event \<Rightarrow> bool) \<Rightarrow> bool" where
  "lasting G \<longleftrightarrow> (\<forall>s s' e. G s e \<longrightarrow> later s s' \<longrightarrow> G s' e)"

lemma in_flight_add [simp]:
  "in_flight X v G s (add_mset c T) \<longleftrightarrow> G s (fst c) \<and> guarded X v (fst c) s (Await (snd c)) \<and> in_flight X v G s T"
  by (auto simp: in_flight_def)

lemma in_flight_later: "in_flight X v G s T \<Longrightarrow> lasting G \<Longrightarrow> later s s' \<Longrightarrow> in_flight X v G s' T"
  by (auto simp: in_flight_def lasting_def intro: guarded_later)

text \<open>One access of a call in flight.\<close>

lemma in_flight_step:
  assumes "in_flight X v G s (add_mset (e, m) T)" and "inv s" and "m s = (t, s')" and "lasting G"
  shows "G s e \<and> effect X v e s s' \<and> later s s' \<and> G s' e \<and> guarded X v e s' t \<and> in_flight X v G s' T"
proof -
  have "guarded X v e s (Await m)" "later s s" and g: "G s e"
    using assms(1,2) later_refl by auto
  then have eff: "effect X v e s s'" and "guarded X v e s' t"
    using assms(3) by (auto elim: guarded_awaitE)
  then show ?thesis
    using effect_later [OF eff] assms(1,4) g in_flight_later [of X v G s T s'] by (auto simp: lasting_def)
qed

definition answered :: "'s \<Rightarrow> ('m, 'n, 'k) history \<Rightarrow> bool" where
  "answered s H \<longleftrightarrow> (\<forall>c \<in> set H. reply_ok (fst c) s (snd c))"

lemma answered_snoc [simp]: "answered s (H @ [(e, r)]) \<longleftrightarrow> answered s H \<and> reply_ok e s r"
  by (auto simp: answered_def)

lemma answered_later: "answered s H \<Longrightarrow> later s s' \<Longrightarrow> answered s' H"
  by (auto simp: answered_def intro: reply_ok_later)

lemma interleaved_invariant:
  assumes "interleaved X v G s0 s T P H" and "v_ledger v = S" and "inv s0" and "lasting G" and "I s0"
    and keeps: "\<And>s s' e. I s \<Longrightarrow> G s e \<Longrightarrow> effect X v e s s' \<Longrightarrow> I s'"
  shows "later s0 s \<and> in_flight X v G s T \<and> answered s H \<and> I s"
  using assms(1)
proof induction
  case idle
  then show ?case using assms(3,5) by (simp add: later_refl in_flight_def answered_def)
next
  case (call s T P H e m)
  then show ?case using guarded_veh_task [OF assms(2) call.hyps(4)] by simp
next
  case (local_call s T P H e r)
  then show ?case using exec_reply_ok [OF assms(2) _ local_exec] later_inv by auto
next
  case (access s e m T P H m' s')
  then have "effect X v e s s'" "I s" "G s e" "later s s'" "G s' e" "guarded X v e s' (Await m')" "in_flight X v G s' T"
    using in_flight_step [where m = m and s = s, OF _ _ access.hyps(2) assms(4)] later_inv by blast+
  then show ?case using access.IH keeps answered_later later_trans by auto
next
  case (complete s e m T P H r s')
  then have "effect X v e s s'" "I s" "G s e" "later s s'" "guarded X v e s' (Done r)" "in_flight X v G s' T"
    using in_flight_step [where m = m and s = s, OF _ _ complete.hyps(2) assms(4)] later_inv by blast+
  then show ?case using complete.IH keeps answered_later later_trans by auto
qed

section \<open>Lineage\<close>

text \<open>A resumption in flight remembers a recorded parent.\<close>

definition evolving :: "'s \<Rightarrow> ('m, 'n, 'k) event \<Rightarrow> bool" where
  "evolving s e \<longleftrightarrow> recorded_parents (entries s) e \<and>
     (case e of E_Resume p _ \<Rightarrow> pending_ok (entries s) {#p#} | _ \<Rightarrow> True)"

lemma pending_ok_single: "p \<in># P \<Longrightarrow> pending_ok ns P \<Longrightarrow> pending_ok ns {#p#}"
  by (simp add: pending_ok_def)

lemma pending_later: "pending_ok (entries s) P \<Longrightarrow> later s s' \<Longrightarrow> pending_ok (entries s') P"
  by (rule pending_ok_mono) (auto dest: later_mem)

lemma lasting_recorded: "lasting (\<lambda>s. recorded_parents (entries s))"
  by (auto simp: lasting_def recorded_parents_def dest: later_mem split: event.splits)

lemma lasting_evolving: "lasting evolving"
  using lasting_recorded pending_later by (auto simp: lasting_def evolving_def split: event.splits)

lemma pending_claimed: "pending_ok ns P \<Longrightarrow> pending_ok ns (claimed e P)"
  by (auto simp: pending_ok_def claimed_def split: event.splits dest: in_diffD)

lemma pending_offered:
  "pending_ok (entries s) P \<Longrightarrow> recorded_parents (entries s) e \<Longrightarrow> reply_ok e s r \<Longrightarrow>
     pending_ok (entries s) (offered r P)"
  by (auto simp: pending_ok_def offered_def reply_ok_def recorded_parents_def
      split: sum.splits reply.splits cycle_outcome.splits)

lemma interleaved_evolving:
  assumes "interleaved X v (\<lambda>s. recorded_parents (entries s)) s0 s T P H" and "v_ledger v = S" and "inv s0"
  shows "interleaved X v evolving s0 s T P H \<and> pending_ok (entries s) P"
proof -
  note facts = interleaved_invariant [where I = "\<lambda>_. True", OF _ assms(2,3) lasting_recorded]
  from assms(1) show ?thesis
  proof induction
    case idle
    then show ?case by (simp add: interleaved.idle pending_ok_def)
  next
    case (call s T P H e m)
    then have "evolving s e"
      by (auto simp: evolving_def enabled_def split: event.splits intro: pending_ok_single)
    then show ?case using call.IH interleaved.call [OF _ _ call.hyps(3,4)] pending_claimed by blast
  next
    case (local_call s T P H e r)
    then have "evolving s e"
      by (auto simp: evolving_def enabled_def split: event.splits intro: pending_ok_single)
    moreover have "reply_ok e s r"
      using exec_reply_ok [OF assms(2) _ local_exec [OF local_call.hyps(4)]] later_inv facts [OF local_call.hyps(1)] by blast
    ultimately show ?case
      using local_call.IH interleaved.local_call [OF _ _ local_call.hyps(3,4)] pending_claimed
        pending_offered local_call.hyps(2) by blast
  next
    case (access s e m T P H m' s')
    have "later s s'"
      using in_flight_step [where m = m and s = s, OF _ _ access.hyps(2) lasting_recorded]
        facts [OF access.hyps(1)] later_inv by blast
    then show ?case
      using access.IH interleaved.access [where m = m and s = s, OF _ access.hyps(2)] pending_later by blast
  next
    case (complete s e m T P H r s')
    have "later s s'" "recorded_parents (entries s') e" "reply_ok e s' r"
      using in_flight_step [where m = m and s = s, OF _ _ complete.hyps(2) lasting_recorded]
        facts [OF complete.hyps(1)] later_inv guarded_done_iff by blast+
    then show ?case
      using complete.IH interleaved.complete [where m = m and s = s, OF _ complete.hyps(2)] pending_later pending_offered by blast
  qed
qed

lemma effect_lineage:
  assumes "effect X v e s s'" and "evolving s e" and "lineage_ok X (entries s)"
  shows "lineage_ok X (entries s')"
  using assms(1)
proof (cases rule: effect_cases)
  case (added ci key n h)
  let ?P = "case e of E_Resume p _ \<Rightarrow> {#p#} | _ \<Rightarrow> {#}"
  have "enabled e ?P" "pending_ok (entries s) ?P"
    using assms(2) by (auto simp: enabled_def evolving_def pending_ok_def split: event.splits)
  then have "parent_ok X (entries s) n"
    using commits_parent_ok [OF added(1) _ _ _ added(3)] assms(2) by (simp add: evolving_def)
  then show ?thesis using added(2) assms(3) by (simp add: committed_def lineage_ok_snoc)
qed (use assms(3) in \<open>auto simp: untouched_def\<close>)

lemma interleaved_lineage:
  assumes "interleaved X v (\<lambda>s. recorded_parents (entries s)) s0 s T P H" and "v_ledger v = S" and "inv s0"
    and "entries s0 = []"
  shows "lineage_ok X (entries s)"
proof -
  have "interleaved X v evolving s0 s T P H" using interleaved_evolving [OF assms(1-3)] by blast
  then have "later s0 s \<and> in_flight X v evolving s T \<and> answered s H \<and> lineage_ok X (entries s)"
    by (rule interleaved_invariant [OF _ assms(2,3) lasting_evolving]) (simp_all add: assms(4) effect_lineage)
  then show ?thesis by blast
qed


section \<open>Linearizability\<close>

text \<open>The completed calls, one after the other, give the same replies and the same ledger.\<close>

lemma interleaved_linear:
  assumes "interleaved X v G s0 s T P H" and "v_ledger v = S" and "inv s0"
    and none: "\<And>s e i t. G s e \<Longrightarrow> e \<noteq> E_Commit_Rollback i t"
  shows "later s0 s \<and> (\<forall>c \<in># T. linear X v (fst c) s (Await (snd c))) \<and>
     veh_run X v (map fst H) s0 = (map snd H, s)"
  using assms(1)
proof induction
  case idle
  then show ?case using assms(3) by (simp add: later_refl)
next
  case (call s T P H e m)
  then show ?case using linear_veh_task [OF assms(2) call.hyps(4)] none [OF call.hyps(2)] by simp
next
  case (local_call s T P H e r)
  show ?case using local_call.IH local_exec [OF local_call.hyps(4), of s] by (simp add: veh_run_snoc)
next
  case (access s e m T P H m' s')
  then have s: "later s s" and l: "linear X v e s (Await m)" using later_inv later_refl by auto
  from l have "s' = s \<and> linear X v e s (Await m')"
    using s access.hyps(2) by (fastforce elim: linear_awaitE)
  then show ?case using access.IH by simp
next
  case (complete s e m T P H r s')
  then have s: "later s s" and l: "linear X v e s (Await m)" using later_inv later_refl by auto
  from l have x: "veh_exec X v e s = (r, s')"
    using s complete.hyps(2) by (fastforce elim: linear_awaitE)
  then have le: "later s s'"
    using exec_has_effect [OF assms(2) later_inv [OF s]] effect_later by blast
  have "linear X v (fst c) s' (Await (snd c))" if "c \<in># T" for c
    by (rule linear_later [OF _ le]) (use complete.IH that in auto)
  then show ?case
    using complete.IH x le by (simp add: veh_run_snoc) (blast intro: later_trans)
qed

end


section \<open>Building interleavings\<close>

lemma interleaved_exec:
  assumes "interleaved X v G s0 s T P H" and "G s e" and "enabled e P" and "single (veh_task X v e)"
    and "veh_exec X v e s = (r, s')"
  shows "interleaved X v G s0 s' T (offered r (claimed e P)) (H @ [(e, r)])"
proof (cases "veh_task X v e")
  case (Done r')
  then show ?thesis
    using interleaved.local_call [OF assms(1-3) Done] local_exec [OF Done, of s] assms(5) by simp
next
  case (Await m)
  obtain r' s1 where m: "m s = (Done r', s1)" "veh_exec X v e s = (r', s1)"
    by (rule mem.single_access [OF Await]) (use assms(4) Await in simp_all)
  then show ?thesis
    using interleaved.complete [where m = m and s = s, OF interleaved.call [OF assms(1-3) Await] m(1)] assms(5) by simp
qed

text \<open>A call that runs to its end with nobody in between; so every sequential run is an interleaving.\<close>

lemma interleaved_uninterrupted:
  assumes "interleaved X v G s0 s (add_mset (e, m) T) P H" and "run_task (Await m) s = (r, s')"
  shows "interleaved X v G s0 s' T (offered r P) (H @ [(e, r)])"
proof -
  have "interleaved X v G s0 s' T (offered r P) (H @ [(e, r)])"
    if "t = Await m" "interleaved X v G s0 s (add_mset (e, m) T) P H" "run_task t s = (r, s')" for t m s
    using that
  proof (induction t arbitrary: m s)
    case (Await n)
    obtain t' s1 where step: "m s = (t', s1)" by fastforce
    then have rest: "run_task t' s1 = (r, s')" using Await.prems by simp
    show ?case
    proof (cases t')
      case (Done r')
      then show ?thesis
        using interleaved.complete [where m = m and s = s, OF Await.prems(2)] step rest by simp
    next
      case again: (Await m')
      have "interleaved X v G s0 s1 (add_mset (e, m') T) P H"
        using interleaved.access [where m = m and s = s, OF Await.prems(2)] step again by simp
      then show ?thesis
        using Await.IH [of "n s" t' m' s1] Await.prems(1) step again rest
        by (metis fsts.intros fst_conv rangeI task.inject(2))
    qed
  qed simp
  then show ?thesis using assms by blast
qed

lemma lifecycle_interleaved: "lifecycle X v G s0 s P \<Longrightarrow> \<exists>H. interleaved X v G s0 s {#} P H"
proof (induction rule: lifecycle.induct)
  case start
  show ?case by (rule exI [of _ "[]"]) (rule interleaved.idle)
next
  case (step s P e r s')
  then obtain H where run: "interleaved X v G s0 s {#} P H" by blast
  have "pending_after e r P = offered r (claimed e P)"
  proof (cases e)
    case (E_Resume p key)
    then show ?thesis
      using step.hyps(4) op_map_cases [of R_Node "resume_with_approval X v p key" s r s']
      by (auto simp: pending_after_def offered_def claimed_def)
  qed (auto simp: pending_after_def offered_def claimed_def split: sum.split reply.split cycle_outcome.split)
  moreover have "\<exists>H. interleaved X v G s0 s' {#} (offered r (claimed e P)) H"
  proof (cases "veh_task X v e")
    case (Done r')
    then show ?thesis
      using interleaved.local_call [OF run step.hyps(2,3) Done] local_exec [OF Done, of s] step.hyps(4) by auto
  next
    case (Await m)
    have "run_task (Await m) s = (r, s')" using step.hyps(4) Await by (simp only: run_veh_task [symmetric])
    then show ?thesis
      using interleaved_uninterrupted [OF interleaved.call [OF run step.hyps(2,3) Await]] by blast
  qed
  ultimately show ?case by simp
qed

text \<open>A signed rollback that has made its three reads, and its last access.\<close>

lemma interleaved_reads:
  assumes "interleaved X v G s0 s T P H" and "G s (E_Commit_Rollback i t)"
    and "rollback_target_node X v i s = Inr target" and "ls_head (v_ledger v) s = Inr (Some pid)"
    and "ls_get (v_ledger v) pid s = Inr parent" and "rollback_from X v i t target parent = Await m"
  shows "interleaved X v G s0 s (add_mset (E_Commit_Rollback i t, m) T) P H"
proof -
  have c: "claimed (E_Commit_Rollback i t) P = P" by (simp add: claimed_def)
  have "enabled (E_Commit_Rollback i t) P" by (simp add: enabled_def)
  note interleaved.call [OF assms(1,2) this commit_rollback_access, unfolded c]
  note interleaved.access [OF this, unfolded assms(3) sum.case, OF refl]
  note interleaved.access [OF this, unfolded assms(4) sum.case option.case, OF refl]
  from interleaved.access [OF this, unfolded assms(5,6) sum.case, OF refl] show ?thesis .
qed

lemma rollback_from_last:
  assumes "u32_succ X (n_generation parent) = Inr g"
    and "sign_node X (rollback_inputs target parent i g t) (v_signing_key v) = Inr n"
  obtains m where "rollback_from X v i t target parent = Await m"
    and "\<And>s s'. ls_append (v_ledger v) n s = (Inr (), s') \<Longrightarrow> m s = (Done (Inr (R_Node n)), s')"
  using assms by (auto simp: rollback_from_def task_map_def sign_and_append_task_def await_def)

end
