(* ===== verification/Veh_Atomicity.thy ===== *)
theory Veh_Atomicity
  imports Veh_Concurrent
begin

text \<open>
  What hosts that share a ledger can count on: soundness, containment and lineage in every
  interleaving, and atomic methods but for one. A signed rollback reads the head and appends later, so
  a promotion that commits in between is lost from the head and from the rollback's parent.
\<close>

section \<open>A lost head\<close>

text \<open>No order of a promotion and a signed rollback leaves both on the ledger with the old head as their parent.\<close>

lemma rollback_order:
  assumes "v_ledger v = mem_store X" and "mem_wf s1" and "veh_exec X v (E_Commit_Rollback i t) s1 = (r, s2)"
    and "mem_entries s2 = mem_entries s1 @ [m]"
  shows "n_parent_id m = im_head s1"
proof -
  obtain m' where rb: "commit_rollback X v i t s1 = (Inr m', s2)"
    using assms(3,4) op_map_cases [of R_Node "commit_rollback X v i t" s1 r s2]
      mem.commit_rollback_err [OF assms(1,2)] by (fastforce simp: mem.untouched_def)
  obtain target parent g where "im_head s1 = Some (n_agent_id parent)"
      and c: "mem.committed X (rollback_inputs target parent i g t) (v_signing_key v) s1 m' s2"
    by (rule mem.commit_rollback_ok [OF assms(1,2) rb])
  moreover from c have "m' = m" "n_parent_id m' = Some (n_agent_id parent)"
    using assms(4) sign_node_simps(3) by (fastforce simp: mem.committed_def rollback_inputs_def)+
  ultimately show ?thesis by simp
qed

lemma cycle_order:
  assumes "v_ledger v = mem_store X" and "mem_wf s" and "commit_rollback X v i t s = (Inr m, s')"
    and "veh_exec X v (E_Cycle inp) s' = (r, s2)" and "mem_entries s2 = mem_entries s @ [n, m]"
  shows "m = n"
proof -
  have "mem_wf s' \<and> mem_entries s' = mem_entries s @ [m]"
    by (rule mem.commit_rollback_ok [OF assms(1-3)]) (simp add: mem.committed_def)
  then show ?thesis
    using mem.effect_appends [OF mem.exec_has_effect [OF assms(1) _ assms(4)]] assms(5) by auto
qed

lemma promotion_committed:
  assumes "v_ledger v = mem_store X" and "mem_wf s"
    and "run_cycle X v inp s = (Inr (Cycle_Promoted n eval), s1)"
  obtains g diff where "mem.committed X (cycle_promoted_inputs X inp g diff eval) (v_signing_key v) s n s1"
  using assms(3)
proof (cases rule: run_cycle_Inr)
  case (promoted diff eval' g n')
  then show thesis using mem.sign_and_append_ok [OF assms(1,2) promoted(7)] by (intro that [of g diff]) simp
qed simp_all

lemma promotion_moves_head:
  assumes "v_ledger v = mem_store X" and "mem_wf s"
    and "run_cycle X v inp s = (Inr (Cycle_Promoted n eval), s1)"
  shows "n_agent_id n \<notin> set (ids (mem_entries s)) \<and> mem_wf s1 \<and> mem_entries s1 = mem_entries s @ [n] \<and>
     im_head s1 = Some (n_agent_id n) \<and> n_status n = Promoted"
proof -
  obtain g diff where "mem.committed X (cycle_promoted_inputs X inp g diff eval) (v_signing_key v) s n s1"
    by (rule promotion_committed [OF assms])
  then show ?thesis using sign_node_simps(1) [of X _ _ n] by (fastforce simp: mem.committed_def pushed_def)
qed

text \<open>
  A promotion that commits between the reads and the append of a signed rollback: the rollback still
  succeeds, its node keeps the old head as parent, and the promoted node is no longer the head.
\<close>

lemma stale_rollback_run:
  assumes "v_ledger v = mem_store X" and "mem_wf s"
    and "run_cycle X v inp s = (Inr (Cycle_Promoted n eval), s1)"
    and "commit_rollback X v i t s = (Inr m, s')" and "n_agent_id m \<noteq> n_agent_id n"
  obtains s2 where "mem_wf s1" "mem_entries s1 = mem_entries s @ [n]" "im_head s1 = Some (n_agent_id n)"
    "mem_wf s2" "mem_entries s2 = mem_entries s @ [n, m]" "im_head s2 = Some (n_agent_id m)" "n_parent_id m = im_head s"
    "mem_entries s' = mem_entries s @ [m]" "im_head s \<noteq> Some (n_agent_id n)"
    "\<And>G T P H s0. interleaved X v G s0 s T P H \<Longrightarrow> G s (E_Commit_Rollback i t) \<Longrightarrow> G s (E_Cycle inp) \<Longrightarrow>
       interleaved X v G s0 s2 T P (H @ [(E_Cycle inp, Inr (R_Cycle (Cycle_Promoted n eval))),
         (E_Commit_Rollback i t, Inr (R_Node m))])"
proof -
  let ?rb = "E_Commit_Rollback i t" and ?cy = "E_Cycle inp"
  obtain target parent g where
      t: "target \<in> set (mem_entries s)" "n_agent_id target = i" "verify_node X target = Inr ()" "n_status target = Promoted"
    and p: "im_head s = Some (n_agent_id parent)" "parent \<in> set (mem_entries s)"
    and g: "u32_succ X (n_generation parent) = Inr g"
    and c: "mem.committed X (rollback_inputs target parent i g t) (v_signing_key v) s m s'"
    by (rule mem.commit_rollback_ok [OF assms(1,2,4)])
  have m: "sign_node X (rollback_inputs target parent i g t) (v_signing_key v) = Inr m"
      "n_agent_id m \<notin> set (ids (mem_entries s))" "mem_entries s' = mem_entries s @ [m]"
    using c by (simp_all add: mem.committed_def)
  have n: "n_agent_id n \<notin> set (ids (mem_entries s))" "mem_wf s1" "mem_entries s1 = mem_entries s @ [n]"
      and h: "im_head s1 = Some (n_agent_id n)"
    using promotion_moves_head [OF assms(1-3)] by blast+
  have "im_nodes s1 (n_agent_id m) = None"
    using m(2) n assms(5) by (simp add: mem_wf_lookup node_at_None_iff)
  then obtain s2 where s2: "mem_append m s1 = (Inr (), s2)" "mem_wf s2" "mem_entries s2 = mem_entries s1 @ [m]"
      "im_head s2 = pushed m (im_head s1)"
    by (rule mem_append_fresh [OF n(2)])
  obtain last where last: "rollback_from X v i t target parent = Await last"
      and ends: "\<And>s s'. ls_append (v_ledger v) m s = (Inr (), s') \<Longrightarrow> last s = (Done (Inr (R_Node m)), s')"
    by (rule rollback_from_last [OF g m(1)]) blast
  have get: "ls_get (v_ledger v) (n_agent_id parent) s = Inr parent"
    using mem.get_mem [OF assms(2)] p assms(1) by simp
  have target: "rollback_target_node X v i s = Inr target"
    using mem.rollback_node_iff [OF assms(1,2)] t by blast
  have head: "ls_head (v_ledger v) s = Inr (Some (n_agent_id parent))"
    using p assms(1) by (simp add: mem_head_def)
  have run: "interleaved X v G s0 s2 T P (H @ [(?cy, Inr (R_Cycle (Cycle_Promoted n eval))), (?rb, Inr (R_Node m))])"
    if "interleaved X v G s0 s T P H" "G s ?rb" "G s ?cy" for G T P H s0
  proof -
    have "interleaved X v G s0 s (add_mset (?rb, last) T) P H"
      by (rule interleaved_reads [OF that(1,2) target head get last])
    from interleaved_exec [OF this that(3) _ single_commits(2), of "Inr (R_Cycle (Cycle_Promoted n eval))" s1]
    have one: "interleaved X v G s0 s1 (add_mset (?rb, last) T) P (H @ [(?cy, Inr (R_Cycle (Cycle_Promoted n eval)))])"
      using assms(3) by (simp add: enabled_def claimed_def offered_def op_map_def)
    have "last s1 = (Done (Inr (R_Node m)), s2)" using ends s2(1) assms(1) by simp
    from interleaved.complete [where m = last and s = s1, OF one this] show ?thesis by (simp add: offered_def)
  qed
  have "im_head s \<noteq> Some (n_agent_id n)" using mem.head_mem [OF assms(2)] n(1) by blast
  moreover have "n_parent_id m = im_head s"
    using sign_node_simps(3) [OF m(1)] p by (simp add: rollback_inputs_def)
  moreover have "im_head s2 = Some (n_agent_id m)"
    using sign_node_simps(1) [OF m(1)] s2(4) by (simp add: rollback_inputs_def pushed_def)
  ultimately show thesis
    using n h s2(2,3) m(3) run by (intro that) simp_all
qed


section \<open>Sample interleavings\<close>

text \<open>A \<open>rollback_to\<close> that has read its target.\<close>

lemma interleaved_rollback_read:
  assumes "interleaved X v G s0 s T P H" and "G s (E_Rollback_To i)" and "rollback_target_node X v i s = Inr n"
  obtains m where "interleaved X v G s0 s (add_mset (E_Rollback_To i, m) T) P H"
    and "\<And>s s'. ls_set_head (v_ledger v) i s = (Inr (), s') \<Longrightarrow> m s = (Done (Inr R_Unit), s')"
proof -
  have c: "claimed (E_Rollback_To i) P = P" by (simp add: claimed_def)
  have "enabled (E_Rollback_To i) P" by (simp add: enabled_def)
  note interleaved.call [OF assms(1,2) this rollback_to_access, unfolded c]
  note interleaved.access [OF this, unfolded assms(3) sum.case task_map_def await_def task_bind.simps, OF refl]
  then show thesis by (rule that) simp
qed

lemma demo_root_call:
  assumes "G mem_new demo_root_event"
  shows "interleaved (demo_ext True) (demo_veh 1) G mem_new demo_ledger {#} {#} [(demo_root_event, Inr (R_Node demo_parent))]"
  using interleaved_exec [where G = G, OF interleaved.idle assms _ single_commits(1) demo_commit_root]
  by (simp add: enabled_def claimed_def offered_def)

lemma demo_promotion:
  obtains n s where "run_cycle (demo_ext True) (demo_veh 1) (demo_cycle demo_parent [''a'']) demo_ledger
      = (Inr (Cycle_Promoted n (from_score 1)), s)"
  by (rule demo_cycle_on_ledger) (auto dest: op_map_cases)

lemma demo_ids_differ:
  assumes "run_cycle (demo_ext True) (demo_veh 1) (demo_cycle demo_parent [''a'']) demo_ledger
      = (Inr (Cycle_Promoted n (from_score 1)), s)"
    and "commit_rollback (demo_ext True) (demo_veh 1) (n_agent_id demo_parent) ''t'' demo_ledger = (Inr m, s')"
  shows "n_agent_id m \<noteq> n_agent_id n"
proof -
  let ?X = "demo_ext True" and ?inp = "demo_cycle demo_parent [''a'']"
  have inj: "inj (x_sha256 ?X)" by (simp add: inj_def)
  obtain g diff where n: "sign_node ?X (cycle_promoted_inputs ?X ?inp g diff (from_score 1)) (CHR ''k'') = Inr n"
    using promotion_committed [OF demo_veh_simps(1) demo_ledger_facts(1) assms(1)]
    unfolding demo_veh_simps mem.committed_def by blast
  obtain target parent g' where
      m: "sign_node ?X (rollback_inputs target parent (n_agent_id demo_parent) g' ''t'') (CHR ''k'') = Inr m"
    by (rule mem.commit_rollback_ok [OF demo_veh_simps(1) demo_ledger_facts(1) assms(2)])
      (unfold mem.committed_def demo_veh_simps, blast)
  have "ci_created_at (rollback_inputs target parent (n_agent_id demo_parent) g' ''t'')
      \<noteq> ci_created_at (cycle_promoted_inputs ?X ?inp g diff (from_score 1))"
    by (simp add: rollback_inputs_def promoted_inputs_def demo_cycle_def)
  then have "\<not> same_content ?X (rollback_inputs target parent (n_agent_id demo_parent) g' ''t'')
      (cycle_promoted_inputs ?X ?inp g diff (from_score 1))"
    unfolding same_content_def by blast
  moreover have "wf_inputs (rollback_inputs target parent (n_agent_id demo_parent) g' ''t'' ::
      (demo_manifest, demo_num) commit_inputs)"
    by (simp add: wf_inputs_def rollback_inputs_def)
  ultimately show ?thesis
    by (intro signed_ids_differ [OF demo_json_text_laws demo_json_num_laws demo_manifest_laws demo_crypto_laws inj _ _ m n])
      (simp_all add: from_score_def del: demo_ext_simps)
qed

lemma demo_race:
  assumes "G mem_new demo_root_event" and "G demo_ledger demo_child_event"
    and "G demo_ledger (E_Commit_Rollback (n_agent_id demo_parent) ''t'')"
  obtains n m s where "interleaved (demo_ext True) (demo_veh 1) G mem_new s {#} {#}
      [(demo_root_event, Inr (R_Node demo_parent)), (demo_child_event, Inr (R_Cycle (Cycle_Promoted n (from_score 1)))),
       (E_Commit_Rollback (n_agent_id demo_parent) ''t'', Inr (R_Node m))]"
    and "mem_entries s = [demo_parent, n, m]" and "n_status n = Promoted"
proof -
  let ?X = "demo_ext True" and ?v = "demo_veh 1" and ?rb = "E_Commit_Rollback (n_agent_id demo_parent) ''t'' :: (demo_manifest, demo_num, char) event"
  obtain n s1 where cycle: "run_cycle ?X ?v (demo_cycle demo_parent [''a'']) demo_ledger = (Inr (Cycle_Promoted n (from_score 1)), s1)"
    by (rule demo_promotion)
  obtain m s' where rb: "commit_rollback ?X ?v (n_agent_id demo_parent) ''t'' demo_ledger = (Inr m, s')"
    by (rule demo_rolled_back)
  obtain s2 where e: "mem_entries s2 = mem_entries demo_ledger @ [n, m]"
    and run: "\<And>G T P H s0. interleaved ?X ?v G s0 demo_ledger T P H \<Longrightarrow> G demo_ledger ?rb \<Longrightarrow> G demo_ledger demo_child_event \<Longrightarrow>
       interleaved ?X ?v G s0 s2 T P (H @ [(demo_child_event, Inr (R_Cycle (Cycle_Promoted n (from_score 1)))),
         (?rb, Inr (R_Node m))])"
    by (rule stale_rollback_run [OF demo_veh_simps(1) demo_ledger_facts(1) cycle rb demo_ids_differ [OF cycle rb]]) blast
  have "n_status n = Promoted"
    using promotion_moves_head [OF demo_veh_simps(1) demo_ledger_facts(1) cycle] by blast
  then show thesis
    using run [OF demo_root_call [where G = G, OF assms(1)] assms(3,2)] e by (intro that) simp_all
qed

text \<open>A cycle between the two accesses of a \<open>rollback_to\<close>.\<close>

lemma demo_overtaken:
  assumes "G mem_new demo_root_event" and "G demo_ledger demo_child_event"
    and "G demo_ledger (E_Rollback_To (n_agent_id demo_parent))"
  obtains n s where "interleaved (demo_ext True) (demo_veh 1) G mem_new s {#} {#}
      [(demo_root_event, Inr (R_Node demo_parent)), (demo_child_event, Inr (R_Cycle (Cycle_Promoted n (from_score 1)))),
       (E_Rollback_To (n_agent_id demo_parent), Inr R_Unit)]"
    and "mem_entries s = [demo_parent, n]" and "im_head s = Some (n_agent_id demo_parent)"
proof -
  let ?X = "demo_ext True" and ?v = "demo_veh 1" and ?i = "n_agent_id demo_parent"
  obtain n s1 where cycle: "run_cycle ?X ?v (demo_cycle demo_parent [''a'']) demo_ledger = (Inr (Cycle_Promoted n (from_score 1)), s1)"
    by (rule demo_promotion)
  then have n: "mem_wf s1" "mem_entries s1 = [demo_parent, n]"
    using promotion_moves_head [OF demo_veh_simps(1) demo_ledger_facts(1) cycle] by simp_all
  have "rollback_target_node ?X ?v ?i demo_ledger = Inr demo_parent"
    by (simp add: mem.rollback_node_iff)
  from interleaved_rollback_read [OF demo_root_call [where G = G, OF assms(1)] assms(3) this]
  obtain m where read: "interleaved ?X ?v G mem_new demo_ledger (add_mset (E_Rollback_To ?i, m) {#}) {#}
        [(demo_root_event, Inr (R_Node demo_parent))]"
    and ends: "\<And>s s'. mem_set_head ?i s = (Inr (), s') \<Longrightarrow> m s = (Done (Inr R_Unit), s')" by auto
  from interleaved_exec [OF read assms(2) _ single_commits(2), of "Inr (R_Cycle (Cycle_Promoted n (from_score 1)))" s1]
  have one: "interleaved ?X ?v G mem_new s1 (add_mset (E_Rollback_To ?i, m) {#}) {#}
      [(demo_root_event, Inr (R_Node demo_parent)), (demo_child_event, Inr (R_Cycle (Cycle_Promoted n (from_score 1))))]"
    using cycle by (simp add: enabled_def claimed_def offered_def op_map_def)
  obtain s2 where s2: "mem_set_head ?i s1 = (Inr (), s2)" "mem_entries s2 = mem_entries s1" "im_head s2 = Some ?i"
    using mem.set_head_ok [OF n(1), of ?i] n(2) by auto
  from interleaved.complete [where m = m and s = s1, OF one ends [OF s2(1)]] s2 n show thesis
    by (intro that) (simp_all add: offered_def)
qed


section \<open>Properties\<close>

text \<open>
  C1: However calls from any number of hosts interleave on one shared in-memory ledger, access by
  access, the ledger stays sound: unique ids, every node verified and valid as a parent exactly when
  promoted, the head a recorded promoted node; and every node a completed call has handed out, of a
  root, a promotion, a rejection, an approval or a signed rollback, is recorded, so no acknowledged
  commit is lost to a concurrent one.
\<close>

theorem concurrent_ledger_sound:
  assumes "interleaved X v G mem_new s T P H" and "v_ledger v = mem_store X" and "crypto_laws X"
  shows "distinct (ids (mem_entries s)) \<and>
     (\<forall>n \<in> set (mem_entries s). verify_node X n = Inr () \<and> (n_valid_parent n \<longleftrightarrow> n_status n = Promoted) \<and>
        n_capability_sbom n = capability_sbom X (n_artifact n)) \<and>
     (case im_head s of
        None \<Rightarrow> \<forall>n \<in> set (mem_entries s). n_status n = Rejected
      | Some h \<Rightarrow> \<exists>n \<in> set (mem_entries s). n_agent_id n = h \<and> n_status n = Promoted) \<and>
     (\<forall>e n. (e, Inr (R_Node n)) \<in> set H \<longrightarrow> n \<in> set (mem_entries s)) \<and>
     (\<forall>e n ev. (e, Inr (R_Cycle (Cycle_Promoted n ev))) \<in> set H \<longrightarrow> n \<in> set (mem_entries s)) \<and>
     (\<forall>e n reason. (e, Inr (R_Cycle (Cycle_Rejected n reason))) \<in> set H \<longrightarrow> n \<in> set (mem_entries s))"
proof -
  have "mem.later mem_new s \<and> mem.in_flight X v (\<lambda>_ _. True) s T \<and> mem.answered s H \<and> mem.sound_ledger X s"
    by (rule mem.interleaved_invariant [OF interleaved_any [OF assms(1)] assms(2)])
      (simp_all add: mem.lasting_def mem.sound_empty mem.effect_sound assms(3))
  then have "mem.sound_ledger X s" and "mem.answered s H" by blast+
  moreover from this(2) have "(\<forall>e n. (e, Inr (R_Node n)) \<in> set H \<longrightarrow> n \<in> set (mem_entries s)) \<and>
     (\<forall>e n ev. (e, Inr (R_Cycle (Cycle_Promoted n ev))) \<in> set H \<longrightarrow> n \<in> set (mem_entries s)) \<and>
     (\<forall>e n reason. (e, Inr (R_Cycle (Cycle_Rejected n reason))) \<in> set H \<longrightarrow> n \<in> set (mem_entries s))"
    by (fastforce simp: mem.answered_def mem.reply_ok_def)
  ultimately show ?thesis using sound_ledger_facts [of X s] by blast
qed

theorem concurrent_ledger_sound_witness:
  "\<exists>s n m. mem_entries s = [demo_parent, n, m] \<and> distinct (ids (mem_entries s)) \<and>
     verify_node (demo_ext True) m = Inr ()"
proof -
  obtain n m s where run: "interleaved (demo_ext True) (demo_veh 1) (\<lambda>_ _. True) mem_new s {#} {#}
      [(demo_root_event, Inr (R_Node demo_parent)), (demo_child_event, Inr (R_Cycle (Cycle_Promoted n (from_score 1)))),
       (E_Commit_Rollback (n_agent_id demo_parent) ''t'', Inr (R_Node m))]"
    and e: "mem_entries s = [demo_parent, n, m]"
    by (rule demo_race [of "\<lambda>_ _. True"]) simp_all
  have "v_ledger (demo_veh 1) = mem_store (demo_ext True)" by simp
  have "m \<in> set (mem_entries s)" using e by simp
  then have "distinct (ids (mem_entries s)) \<and> verify_node (demo_ext True) m = Inr ()"
    using concurrent_ledger_sound [OF run \<open>v_ledger (demo_veh 1) = mem_store (demo_ext True)\<close> demo_crypto_laws] by blast
  then show ?thesis using e by blast
qed

text \<open>
  C3: Linearizability: while no host calls \<open>commit_rollback\<close>, any interleaving of root commits, cycles,
  resumptions and \<open>rollback_to\<close> calls is as if the completed calls had run one after the other, in the
  order of their last accesses: each gets the reply the whole method gives there, and the ledger is the
  same, whatever else is still in flight.
\<close>

theorem linearizable_calls:
  assumes "interleaved X v G s0 s T P H" and "v_ledger v = mem_store X" and "mem_wf s0"
    and "\<And>s e i t. G s e \<Longrightarrow> e \<noteq> E_Commit_Rollback i t"
  shows "veh_run X v (map fst H) s0 = (map snd H, s)"
  using mem.interleaved_linear [OF assms(1-3)] assms(4) by blast

theorem linearizable_calls_witness:
  "\<exists>n s. veh_run (demo_ext True) (demo_veh 1)
       [demo_root_event, demo_child_event, E_Rollback_To (n_agent_id demo_parent)] mem_new =
     ([Inr (R_Node demo_parent), Inr (R_Cycle (Cycle_Promoted n (from_score 1))), Inr R_Unit], s) \<and>
     mem_entries s = [demo_parent, n] \<and> im_head s = Some (n_agent_id demo_parent)"
proof -
  let ?G = "\<lambda>(_ :: (demo_manifest, demo_num) mem_inner) e. \<forall>i t. e \<noteq> E_Commit_Rollback i t"
  obtain n s where run: "interleaved (demo_ext True) (demo_veh 1) ?G mem_new s {#} {#}
      [(demo_root_event, Inr (R_Node demo_parent)), (demo_child_event, Inr (R_Cycle (Cycle_Promoted n (from_score 1)))),
       (E_Rollback_To (n_agent_id demo_parent), Inr R_Unit)]"
    and e: "mem_entries s = [demo_parent, n]" "im_head s = Some (n_agent_id demo_parent)"
    by (rule demo_overtaken [of ?G]) simp_all
  have "v_ledger (demo_veh 1) = mem_store (demo_ext True)" by simp
  from linearizable_calls [OF run this] e show ?thesis by auto
qed

text \<open>
  C2: Containment under concurrency: governed hosts that share one ledger, which commit one root artifact
  under one scope, evolve valid parents read at some earlier moment under that scope, roll back, and
  approve nothing out of band, never promote a capability outside the root artifact's own SBOM and the
  scope's allow-lists.
\<close>

theorem concurrent_capabilities_contained:
  assumes "interleaved X v (\<lambda>s. governed a0 sc (mem_entries s)) mem_new s T P H" and "v_ledger v = mem_store X"
    and "v_policy v = default_evaluate X" and "crypto_laws X"
    and "n \<in> set (mem_entries s)" and "n_status n = Promoted"
  shows "set (capability_sbom X (n_artifact n)) \<subseteq> set (capability_sbom X a0) \<union> scope_capabilities sc"
proof -
  have gate: "scope_gate (v_policy v)"
    using assms(3) default_gate.scope_gate_axioms by simp
  have "mem.lasting (\<lambda>s. governed a0 sc (mem_entries s))"
    by (auto simp: mem.lasting_def governed_def dest: mem.later_mem split: event.splits)
  then have "mem.later mem_new s \<and> mem.in_flight X v (\<lambda>s. governed a0 sc (mem_entries s)) s T \<and> mem.answered s H \<and>
      mem.bounded_ledger X a0 sc s"
    by (intro mem.interleaved_invariant [OF assms(1,2)])
      (simp_all add: mem.bounded_empty [OF mem_new_wf] mem.effect_contained [OF _ assms(4) gate])
  then have "sound_node X n" "bounded_node X a0 sc n"
    using assms(5) by (auto simp: mem.bounded_ledger_def mem.sound_ledger_def)
  then show ?thesis
    using assms(6) by (simp add: bounded_node_def sound_node_def)
qed

theorem concurrent_capabilities_contained_witness:
  "\<exists>s n m. mem_entries s = [demo_parent, n, m] \<and>
     set (capability_sbom (demo_ext True) (n_artifact n)) \<subseteq> {''tool:a'', ''mcp:files''}"
proof -
  let ?X = "demo_ext True" and ?a = "artifact_new (demo_man [''a''])"
  let ?G = "\<lambda>s. governed ?a scope_default (mem_entries s)"
  obtain n m s where run: "interleaved ?X (demo_veh 1) ?G mem_new s {#} {#}
      [(demo_root_event, Inr (R_Node demo_parent)), (demo_child_event, Inr (R_Cycle (Cycle_Promoted n (from_score 1)))),
       (E_Commit_Rollback (n_agent_id demo_parent) ''t'', Inr (R_Node m))]"
    and e: "mem_entries s = [demo_parent, n, m]" and st: "n_status n = Promoted"
    by (rule demo_race [of ?G]) (simp_all add: governed_def demo_parent_valid)
  have "set (capability_sbom ?X (n_artifact n)) \<subseteq> set (capability_sbom ?X ?a) \<union> scope_capabilities scope_default"
    by (rule concurrent_capabilities_contained [OF run _ _ demo_crypto_laws _ st]) (simp_all add: e)
  also have "\<dots> \<subseteq> {''tool:a'', ''mcp:files''}"
    by (simp add: capability_set_def tool_capability_def artifact_new_def scope_capabilities_def scope_default_def)
  finally show ?thesis using e by blast
qed

text \<open>
  C12: Lineage under concurrency: while every cycle starts from a node read off the ledger at some
  earlier moment, every node's ancestors lead to a root, also for a node whose parent was overtaken
  meanwhile. Its generation is the length of that chain, modulo \<open>2 ^ 32\<close> in a build without overflow
  checks and exactly in one with them.
\<close>

theorem concurrent_generation_is_depth:
  assumes "interleaved X v (\<lambda>s. recorded_parents (mem_entries s)) mem_new s T P H" and "v_ledger v = mem_store X"
    and "n \<in> set (mem_entries s)"
  shows "\<exists>k. descends (mem_entries s) (n_agent_id n) k \<and> n_generation n = of_nat k \<and>
     (x_overflow_checks X \<longrightarrow> unat (n_generation n) = k)"
proof -
  have "lineage_ok X (mem_entries s)"
    using mem.interleaved_lineage [OF assms(1,2)] by simp
  then show ?thesis by (rule lineage_depth [OF _ assms(3)]) blast
qed

theorem concurrent_generation_is_depth_witness:
  "\<exists>s n m. mem_entries s = [demo_parent, n, m] \<and>
     descends (mem_entries s) (n_agent_id m) (unat (n_generation m))"
proof -
  let ?G = "\<lambda>s :: (demo_manifest, demo_num) mem_inner. recorded_parents (mem_entries s) :: (demo_manifest, demo_num, char) event \<Rightarrow> bool"
  obtain n m s where run: "interleaved (demo_ext True) (demo_veh 1) ?G mem_new s {#} {#}
      [(demo_root_event, Inr (R_Node demo_parent)), (demo_child_event, Inr (R_Cycle (Cycle_Promoted n (from_score 1)))),
       (E_Commit_Rollback (n_agent_id demo_parent) ''t'', Inr (R_Node m))]"
    and e: "mem_entries s = [demo_parent, n, m]"
    by (rule demo_race [of ?G]) (simp_all add: recorded_parents_def)
  have "v_ledger (demo_veh 1) = mem_store (demo_ext True)" "m \<in> set (mem_entries s)" "x_overflow_checks (demo_ext True)"
    using e by simp_all
  then have "descends (mem_entries s) (n_agent_id m) (unat (n_generation m))"
    using concurrent_generation_is_depth [OF run] by blast
  then show ?thesis using e by blast
qed

text \<open>
  C4: A signed rollback is not atomic: when a cycle promotes a node of another id between its reads and
  its append, it still succeeds and its node becomes the head; both nodes are recorded, but the
  rollback's parent is the head it read and not the promoted node it replaces, which is the head no
  longer, a result that neither order of the two whole calls gives.
\<close>

theorem stale_rollback_parent:
  assumes "v_ledger v = mem_store X" and "mem_wf s"
    and "run_cycle X v inp s = (Inr (Cycle_Promoted n eval), s1)"
    and "commit_rollback X v i t s = (Inr m, s')" and "n_agent_id m \<noteq> n_agent_id n"
  shows "\<exists>s2. interleaved X v (\<lambda>_ _. True) s s2 {#} {#}
       [(E_Cycle inp, Inr (R_Cycle (Cycle_Promoted n eval))), (E_Commit_Rollback i t, Inr (R_Node m))] \<and>
     mem_entries s2 = mem_entries s @ [n, m] \<and> n_parent_id m = im_head s \<and>
     im_head s1 = Some (n_agent_id n) \<and> n_parent_id m \<noteq> im_head s1 \<and>
     im_head s2 = Some (n_agent_id m) \<and> im_head s2 \<noteq> Some (n_agent_id n) \<and>
     snd (veh_run X v [E_Cycle inp, E_Commit_Rollback i t] s) \<noteq> s2 \<and>
     snd (veh_run X v [E_Commit_Rollback i t, E_Cycle inp] s) \<noteq> s2"
proof -
  obtain s2 where s1: "mem_wf s1" "mem_entries s1 = mem_entries s @ [n]" "im_head s1 = Some (n_agent_id n)"
    and s2: "mem_wf s2" "mem_entries s2 = mem_entries s @ [n, m]" "im_head s2 = Some (n_agent_id m)"
    and m: "n_parent_id m = im_head s" "mem_entries s' = mem_entries s @ [m]" "im_head s \<noteq> Some (n_agent_id n)"
    and run: "\<And>G T P H s0. interleaved X v G s0 s T P H \<Longrightarrow> G s (E_Commit_Rollback i t) \<Longrightarrow> G s (E_Cycle inp) \<Longrightarrow>
       interleaved X v G s0 s2 T P (H @ [(E_Cycle inp, Inr (R_Cycle (Cycle_Promoted n eval))),
         (E_Commit_Rollback i t, Inr (R_Node m))])"
    by (rule stale_rollback_run [OF assms]) blast
  have "sb \<noteq> s2" if "veh_exec X v (E_Commit_Rollback i t) s1 = (r, sb)" for r sb
    using rollback_order [OF assms(1) s1(1) that] s1 s2(2) m by auto
  moreover have "sc \<noteq> s2" if "veh_exec X v (E_Cycle inp) s' = (r, sc)" for r sc
    using cycle_order [OF assms(1,2,4) that] s2(2) assms(5) by blast
  moreover have "veh_exec X v (E_Cycle inp) s = (Inr (R_Cycle (Cycle_Promoted n eval)), s1)"
      "veh_exec X v (E_Commit_Rollback i t) s = (Inr (R_Node m), s')"
    using assms(3,4) by (simp_all add: op_map_def)
  ultimately show ?thesis
    using run [OF interleaved.idle] s1(3) s2(2,3) m(1,3) assms(5)
    by (intro exI [of _ s2]) (auto simp del: veh_exec.simps split: prod.splits)
qed

theorem stale_rollback_parent_witness:
  "\<exists>n m s1 s2. run_cycle (demo_ext True) (demo_veh 1) (demo_cycle demo_parent [''a'']) demo_ledger
       = (Inr (Cycle_Promoted n (from_score 1)), s1) \<and>
     interleaved (demo_ext True) (demo_veh 1) (\<lambda>_ _. True) demo_ledger s2 {#} {#}
       [(demo_child_event, Inr (R_Cycle (Cycle_Promoted n (from_score 1)))),
        (E_Commit_Rollback (n_agent_id demo_parent) ''t'', Inr (R_Node m))] \<and>
     n_parent_id m = Some (n_agent_id demo_parent) \<and> im_head s1 = Some (n_agent_id n) \<and>
     im_head s2 = Some (n_agent_id m) \<and> im_head s2 \<noteq> im_head s1"
proof -
  let ?X = "demo_ext True" and ?v = "demo_veh 1"
  obtain n s1 where cycle: "run_cycle ?X ?v (demo_cycle demo_parent [''a'']) demo_ledger = (Inr (Cycle_Promoted n (from_score 1)), s1)"
    by (rule demo_promotion)
  obtain m s' where rb: "commit_rollback ?X ?v (n_agent_id demo_parent) ''t'' demo_ledger = (Inr m, s')"
    by (rule demo_rolled_back)
  show ?thesis
    using stale_rollback_parent [OF demo_veh_simps(1) demo_ledger_facts(1) cycle rb demo_ids_differ [OF cycle rb]]
      cycle unfolding demo_ledger_facts by metis
qed

end
