(* ===== verification/Veh_Restart.thy ===== *)
theory Veh_Restart
  imports Veh_Evolution Veh_Jsonl
begin

text \<open>
  The evolution driver over the file ledger, across a restart of the process. Every strategy is shown
  to meet \<open>evolution_store\<close> on the file ledger too, and to depend only on what a line of the file
  keeps of a node (\<open>restart_selector\<close>), so that a driver that reopens its file selects the parent it
  would have selected without the restart.
\<close>

section \<open>Every strategy over the file ledger\<close>

lemma stock_jsonl_store:
  assumes "sel \<in> set (stock_selectors X E seed)"
  shows "evolution_store (jsonl_store X') (\<lambda>st. mem_wf (jl_inner st)) (\<lambda>st. mem_entries (jl_inner st))
     (\<lambda>st. im_head (jl_inner st)) sel"
  by (rule evolution_store.intro [OF jsonl_contract parent_selector.axioms(1) [OF stock_selector [OF assms]]])

interpretation jsonl_latest: evolution_store "jsonl_store X" "\<lambda>st. mem_wf (jl_inner st)"
    "\<lambda>st. mem_entries (jl_inner st)" "\<lambda>st. im_head (jl_inner st)" latest_select
  by (intro evolution_store.intro jsonl_contract latest.valid_picker_axioms)


section \<open>Strategies that survive a restart\<close>

locale restart_selector = parent_selector select
  for select :: "('s, 'm, 'n) selector" +
  assumes reload_blind: "ls_nodes S s = Inr ns \<Longrightarrow> ls_nodes S s' = Inr (map reload ns) \<Longrightarrow>
     select S s' = select S s"

lemma score_of_reload [simp]: "score_of X (reload n) = score_of X n"
  by (simp add: score_of_def reload_def drop_null_def split: option.split json.split)

lemma filter_reload: "filter n_valid_parent (map reload ns) = map reload (filter n_valid_parent ns)"
  by (simp add: filter_map comp_def)

lemma find_reload:
  "find n_valid_parent (map reload ns) = map_option reload (find n_valid_parent ns)"
  by (induction ns) simp_all

lemma best_loop_reload: "best_loop X b (map reload ns) = best_loop X b ns"
proof (induction ns arbitrary: b)
  case (Cons n ns)
  then show ?case by (cases b) (auto simp: Let_def split: prod.split)
qed simp

lemma count_children_reload: "count_children X c (map reload ns) = count_children X c ns"
proof (induction ns arbitrary: c)
  case (Cons n ns)
  then show ?case by (simp add: fun_upd_def cong: option.case_cong)
qed simp

lemma score_weights_reload: "score_weights X (map reload ns) = score_weights X ns"
  by (simp add: score_weights_def filter_reload)

lemma child_weights_reload: "child_weights X c (map reload ns) = child_weights X c ns"
  by (simp add: child_weights_def filter_reload Let_def)

interpretation latest_restart: restart_selector latest_select
  by unfold_locales (simp add: latest_select_def rev_map find_reload option.map_comp comp_def)

interpretation best_restart: restart_selector "best_select X"
  by unfold_locales (simp add: best_select_def best_loop_reload)

interpretation random_restart: restart_selector "random_select E seed"
proof
  fix S :: "('a, 'b, 'c) lineage_store" and s s' and ns :: "('b, 'c) agent_node list"
  assume "ls_nodes S s = Inr ns" and "ls_nodes S s' = Inr (map reload ns)"
  moreover have "random_index E seed (map reload vs) = random_index E seed vs" for vs :: "('b, 'c) agent_node list"
    by (simp add: random_index_def comp_def split: option.split)
  ultimately show "random_select E seed S s' = random_select E seed S s"
    by (simp add: random_select_def filter_reload Let_def)
qed

interpretation score_prop_restart: restart_selector "score_prop_select X E seed"
  by unfold_locales (simp add: score_prop_select_def score_weights_reload)

interpretation score_child_prop_restart: restart_selector "score_child_prop_select X E seed"
  by unfold_locales (simp add: score_child_prop_select_def count_children_reload child_weights_reload)

lemma stock_restart: "sel \<in> set (stock_selectors X E seed) \<Longrightarrow> restart_selector sel"
  using latest_restart.restart_selector_axioms best_restart.restart_selector_axioms
    random_restart.restart_selector_axioms score_prop_restart.restart_selector_axioms
    score_child_prop_restart.restart_selector_axioms
  by (auto simp: stock_selectors_def)

lemma durable_selection:
  assumes "sel \<in> set (stock_selectors X E seed)"
    and "mem_entries (jl_inner st') = map reload (mem_entries (jl_inner st))"
  shows "sel (jsonl_store X') st' = sel (jsonl_store X') st"
  by (rule restart_selector.reload_blind [OF stock_restart [OF assms(1)], of "jsonl_store X'" st])
    (use assms(2) in \<open>simp_all add: jsonl_nodes_def mem_entries_def\<close>)


section \<open>Without a moved head\<close>

context lineage_contract
begin

lemma reach_head:
  assumes "lifecycle X v G s0 s P" and "\<And>s i. \<not> G s (E_Rollback_To i)" and "v_ledger v = S"
    and "inv s0" and "hd_of s0 = last_promoted (entries s0)"
  shows "inv s \<and> hd_of s = last_promoted (entries s)"
  using assms(1)
proof induction
  case (step s P e r s')
  then have inv: "inv s" and hd: "hd_of s = last_promoted (entries s)" by blast+
  from assms(3) inv step.hyps(4) show ?case
  proof (cases rule: exec_effect)
    case (moved i n)
    then show ?thesis using step.hyps(2) assms(2) by simp
  qed (use hd in \<open>simp_all add: untouched_def committed_def last_promoted_snoc\<close>)
qed (use assms(4,5) in simp)

end


section \<open>Properties\<close>

text \<open>A driver on a fresh file, from its first root.\<close>

lemma not_rollback: "valid_cycle A ns e \<Longrightarrow> e \<noteq> E_Rollback_To i"
  by (auto simp: valid_cycle_def)

lemma driven_file:
  assumes "jsonl_open X None [] = Inr st0" and "commit_root X v a sc t st0 = (Inr n0, st1)"
    and "driver_run X (driver_new v (jsonl_store X) sel mu sb) A (st1, b) (st2, b')"
    and "sel \<in> set (stock_selectors X E seed)" and "v_ledger v = jsonl_store X"
  obtains P where "lifecycle X v (\<lambda>s e. (\<forall>i. e \<noteq> E_Rollback_To i)) st0 st2 P"
    and "mem_wf (jl_inner st0)" and "mem_entries (jl_inner st0) = []" and "im_head (jl_inner st0) = None"
proof -
  have st0: "mem_wf (jl_inner st0)" "mem_entries (jl_inner st0) = []" "im_head (jl_inner st0) = None"
    using assms(1) by (auto simp: jsonl_open_def)
  have exec: "veh_exec X v (E_Root a sc t) st0 = (Inr (R_Node n0), st1)"
    using assms(2) by (simp add: op_map_def)
  have "\<exists>P. lifecycle X v (\<lambda>s e. \<forall>i. e \<noteq> E_Rollback_To i) st0 st1 P"
    by (rule exI, rule lifecycle.step [OF lifecycle.start _ _ exec]) (simp_all add: enabled_def)
  then obtain P1 where one: "lifecycle X v (\<lambda>s e. \<forall>i. e \<noteq> E_Rollback_To i) st0 st1 P1" ..
  have wf: "mem_wf (jl_inner st1)"
    using jsonl.commit_root_ok [OF assms(5) st0(1) assms(2)] by (simp add: jsonl.committed_def)
  have "\<exists>P. lifecycle X v (\<lambda>s e. \<forall>i. e \<noteq> E_Rollback_To i) st0 st2 P"
    using evolution_store.driver_run_refines [OF stock_jsonl_store [OF assms(4), of X] assms(3),
        where G = "\<lambda>s e. \<forall>i. e \<noteq> E_Rollback_To i" and ?s0.0 = st0 and P = P1] one wf assms(5)
    by (simp add: not_rollback)
  then show thesis using st0 that by blast
qed

text \<open>
  C24: Evolution survives a restart: a driver that starts a new file with a root and runs any number of
  generations, without failures of the operating system and over nodes whose lines survive, can be
  stopped and reopened: the file gives back every node, verified, the same head, and the same choice
  of the next parent by every built-in strategy, at the same reading of the clock if it has no seed.
\<close>

theorem evolution_survives_restart:
  assumes "json_num_laws X" and "manifest_laws X" and "crypto_laws X"
    and "jsonl_open X None [] = Inr st0" and "commit_root X v a sc t st0 = (Inr n0, st1)"
    and "driver_run X (driver_new v (jsonl_store X) sel mu sb) A (st1, b) (st2, b')"
    and "sel \<in> set (stock_selectors X E seed)" and "v_ledger v = jsonl_store X"
    and "\<forall>n \<in> set (mem_entries (jl_inner st2)). line_ok X n"
  shows "\<exists>st3. jsonl_open X (map_option Inr (jl_file st2)) [] = Inr st3 \<and>
     mem_entries (jl_inner st3) = map reload (mem_entries (jl_inner st2)) \<and>
     im_head (jl_inner st3) = im_head (jl_inner st2) \<and>
     (\<forall>n \<in> set (mem_entries (jl_inner st3)). verify_node X n = Inr ()) \<and>
     sel (jsonl_store X) st3 = sel (jsonl_store X) st2"
proof -
  obtain P where run: "lifecycle X v (\<lambda>s e. (\<forall>i. e \<noteq> E_Rollback_To i)) st0 st2 P"
    and st0: "mem_wf (jl_inner st0)" "mem_entries (jl_inner st0) = []" "im_head (jl_inner st0) = None"
    by (rule driven_file [OF assms(4-8)])
  have "durable X st2"
    using reached_faithful [OF assms(1,2,8,4) run] assms(9) by (simp add: faithful_def)
  then obtain st3 where st3: "jsonl_open X (map_option Inr (jl_file st2)) [] = Inr st3"
      "mem_entries (jl_inner st3) = map reload (mem_entries (jl_inner st2))"
      "im_head (jl_inner st3) = last_promoted (mem_entries (jl_inner st2))"
    using durable_reopen by blast
  have "im_head (jl_inner st2) = last_promoted (mem_entries (jl_inner st2))"
    using jsonl.reach_head [OF run _ assms(8)] st0 by (simp add: last_promoted_def)
  moreover have "\<forall>n \<in> set (mem_entries (jl_inner st2)). verify_node X n = Inr ()"
    using jsonl.reach_sound [OF run assms(8,3)] st0 by (simp add: sound_node_def)
  ultimately show ?thesis
    using st3 durable_selection [OF assms(7) st3(2), of X] verify_node_reload [OF assms(1)] by auto
qed

definition demo_file_driver ::
  "((demo_manifest, demo_num) jsonl_lineage, unit, demo_manifest, demo_num, char) evolution_driver" where
  "demo_file_driver =
     driver_new demo_file_veh (jsonl_store (demo_ext True)) latest_select
       (static_mutator (artifact_new (demo_man [''a'']))) noop_sandbox"

lemma demo_file_cycle:
  assumes "jl_inner st = demo_ledger" and "jl_io st = []"
  obtains n st' where "run_cycle (demo_ext True) demo_file_veh (demo_cycle demo_parent [''a'']) st
      = (Inr (Cycle_Promoted n (from_score 1)), st')"
    and "mem_entries (jl_inner st') = [demo_parent, n]"
proof -
  let ?X = "demo_ext True"
  obtain n s' where mem: "veh_exec ?X (demo_veh 1) demo_child_event demo_ledger
      = (Inr (R_Cycle (Cycle_Promoted n (from_score 1))), s')"
    by (rule demo_cycle_on_ledger)
  obtain r st' where run: "veh_exec ?X demo_file_veh demo_child_event st = (r, st')"
    by (cases "veh_exec ?X demo_file_veh demo_child_event st")
  have "veh_exec ?X (demo_veh 1) demo_child_event demo_ledger = (r, jl_inner st')"
    using agreeD(1) [OF agree_exec [OF demo_file_ledger demo_manifest_laws] assms(2) run] assms(1)
    by (simp add: demo_file_in_memory del: veh_exec.simps)
  then have r: "r = Inr (R_Cycle (Cycle_Promoted n (from_score 1)))"
    using mem by simp
  have cyc: "run_cycle ?X demo_file_veh (demo_cycle demo_parent [''a'']) st
      = (Inr (Cycle_Promoted n (from_score 1)), st')"
    using run r op_map_cases [of R_Cycle "run_cycle ?X demo_file_veh (demo_cycle demo_parent [''a''])" st] by auto
  have "mem_entries (jl_inner st') = [demo_parent, n]"
    using jsonl_latest.cycle_effect [OF _ _ cyc, of ?X] assms(1) by simp
  with cyc show thesis by (rule that)
qed

lemma demo_file_generation:
  assumes "jl_inner st = demo_ledger" and "jl_io st = []"
  obtains n st' where "driver_run (demo_ext True) demo_file_driver (\<lambda>_. True) (st, ()) (st', ())"
    and "mem_entries (jl_inner st') = [demo_parent, n]" and "n_valid_parent n"
proof -
  let ?inp = "demo_cycle demo_parent [''a'']"
  obtain n st' where cyc: "run_cycle (demo_ext True) demo_file_veh ?inp st
      = (Inr (Cycle_Promoted n (from_score 1)), st')" and e: "mem_entries (jl_inner st') = [demo_parent, n]"
    by (rule demo_file_cycle [OF assms])
  have "mem_get (n_agent_id demo_parent) demo_ledger = Inr demo_parent"
    using mem.get_mem [of demo_ledger "demo_ext True" "n_agent_id demo_parent" demo_parent] by simp
  then have "jsonl_get (n_agent_id demo_parent) st = Inr demo_parent"
    using assms(1) by (simp add: jsonl_get_def mem_get_def)
  moreover have "jsonl_nodes st = Inr [demo_parent]"
    using assms(1) demo_ledger_facts by (simp add: jsonl_nodes_def mem_entries_def)
  moreover have "n_valid_parent demo_parent"
    by (simp add: demo_parent_def)
  ultimately have "proposal demo_file_driver (intent_new ''tighten'') context_new st
      = Inr (demo_parent, artifact_new (demo_man [''a'']))"
    by (simp add: proposal_def demo_file_driver_def latest_select_def static_mutator_def)
  moreover have "generation_inputs (intent_new ''tighten'') scope_default ''2026-01-01T00:01:00Z'' demo_parent
      (artifact_new (demo_man [''a''])) = ?inp"
    by (simp add: generation_inputs_def demo_cycle_def)
  ultimately have g: "run_generation (demo_ext True) demo_file_driver (intent_new ''tighten'') scope_default
      context_new ''2026-01-01T00:01:00Z'' (st, ()) = (Inr (Cycle_Promoted n (from_score 1)), (st', ()))"
    using cyc by (simp add: run_generation_eq cycle_and_teardown_eq demo_file_driver_def noop_sandbox_def
        default_teardown_def)
  have "n_valid_parent n"
    using cyc
  proof (cases rule: run_cycle_Inr)
    case (promoted diff eval g m)
    then have "sign_node (demo_ext True) (cycle_promoted_inputs (demo_ext True) ?inp g diff eval)
        (v_signing_key demo_file_veh) = Inr n"
      by (auto simp: sign_and_append_def op_bind_Inr_iff)
    from sign_node_simps(6) [OF this] show ?thesis by (simp add: promoted_inputs_def)
  qed simp_all
  then show thesis using that driver_run.generation [OF driver_run.start TrueI g] e by blast
qed

theorem evolution_survives_restart_witness:
  "\<exists>st2 st3 n. driver_run (demo_ext True) demo_file_driver (\<lambda>_. True)
       (snd (commit_root (demo_ext True) demo_file_veh (artifact_new (demo_man [''a''])) scope_default
          ''2026-01-01T00:00:00Z'' (demo_fresh [])), ()) (st2, ()) \<and>
     jsonl_open (demo_ext True) (map_option Inr (jl_file st2)) [] = Inr st3 \<and>
     mem_entries (jl_inner st3) = [reload demo_parent, reload n] \<and>
     latest_select (jsonl_store (demo_ext True)) st3 = Inr (n_agent_id n)"
proof -
  let ?X = "demo_ext True"
  obtain st1 where "veh_exec ?X demo_file_veh demo_root_event (demo_fresh []) = (Inr (R_Node demo_parent), st1)"
      and inner: "jl_inner st1 = demo_ledger"
    by (rule demo_file_root)
  then have root: "commit_root ?X demo_file_veh (artifact_new (demo_man [''a''])) scope_default
      ''2026-01-01T00:00:00Z'' (demo_fresh []) = (Inr demo_parent, st1)"
    by (auto dest: op_map_cases)
  have "jl_io st1 = []"
    using agreeD(2) [OF agree_exec [OF demo_file_ledger demo_manifest_laws], of "demo_fresh []" demo_root_event
        "Inr (R_Node demo_parent)" st1] root by (simp add: op_map_def)
  then obtain n st2 where run: "driver_run ?X demo_file_driver (\<lambda>_. True) (st1, ()) (st2, ())"
      and e: "mem_entries (jl_inner st2) = [demo_parent, n]" and "n_valid_parent n"
    using demo_file_generation [OF inner] by blast
  then have sel: "latest_select (jsonl_store ?X) st2 = Inr (n_agent_id n)"
    by (simp add: latest_select_def jsonl_nodes_def flip: mem_entries_def)
  show ?thesis
    using evolution_survives_restart [OF demo_json_num_laws demo_manifest_laws demo_crypto_laws
        demo_fresh_open root run [unfolded demo_file_driver_def], where E = demo_entropy and seed = None]
      demo_line_ok e sel root run
    by (auto simp: stock_selectors_def)
qed

end
