(* ===== verification/Veh_Governance.thy ===== *)
theory Veh_Governance
  imports Veh_Evolution Veh_Limits
begin

text \<open>
  Governance of a whole evolution: what the runner's containment, the driver's refinement and the
  strategies together say of a search that starts from one root and is driven under one scope, and
  what happens when the scope changes on the way.
\<close>

section \<open>A governed driver\<close>

text \<open>A root commit, then any number of generations: a run of any discipline that allows both.\<close>

lemma driven_lifecycle:
  assumes "commit_root X v a0 sc t mem_new = (Inr root, s1)"
    and "driver_run X (driver_new v (mem_store X) sel mu sb) A (s1, b) (s2, b')"
    and "sel \<in> set (stock_selectors X E seed)" and "v_ledger v = mem_store X"
    and "G mem_new (E_Root a0 sc t)" and "\<And>s e. valid_cycle A (mem_entries s) e \<Longrightarrow> G s e"
  obtains P where "lifecycle X v G mem_new s2 P"
proof -
  have exec: "veh_exec X v (E_Root a0 sc t) mem_new = (Inr (R_Node root), s1)"
    using assms(1) by (simp add: op_map_def)
  have "\<exists>P. lifecycle X v G mem_new s1 P"
    by (rule exI, rule lifecycle.step [where G = G, OF lifecycle.start assms(5) _ exec]) (simp add: enabled_def)
  then obtain P1 where one: "lifecycle X v G mem_new s1 P1" ..
  have "mem_wf s1"
    using mem.commit_root_ok [OF assms(4) mem_new_wf(1) assms(1)] by (simp add: mem.committed_def)
  then have "\<exists>P. lifecycle X v G mem_new s2 P"
    using evolution_store.driver_run_refines [OF stock_store [OF assms(3), of X] assms(2),
        where G = G and ?s0.0 = mem_new and P = P1] assms(4,6) one by simp
  then show thesis using that by blast
qed

definition driven :: "'m agent_artifact \<Rightarrow> allowed_scope \<Rightarrow> ('m, 'n) agent_node list \<Rightarrow> ('m, 'n, 'k) event \<Rightarrow> bool" where
  "driven a0 sc ns e \<longleftrightarrow> (\<exists>t. e = E_Root a0 sc t) \<or> valid_cycle ((=) sc) ns e"

lemma driven_governed: "driven a0 sc ns e \<Longrightarrow> governed a0 sc ns e"
  by (auto simp: driven_def valid_cycle_def governed_def split: event.splits)

lemma lifecycle_mono:
  "lifecycle X v G s0 s P \<Longrightarrow> (\<And>s e. G s e \<Longrightarrow> G' s e) \<Longrightarrow> lifecycle X v G' s0 s P"
  by (induction rule: lifecycle.induct) (auto intro: lifecycle.intros)


section \<open>The generation cap\<close>

definition within_cap :: "allowed_scope \<Rightarrow> u32 \<Rightarrow> bool" where
  "within_cap sc g \<longleftrightarrow> (case sc_max_generation sc of None \<Rightarrow> True | Some m \<Rightarrow> g \<le> m)"

definition capped_node :: "allowed_scope \<Rightarrow> ('m, 'n) agent_node \<Rightarrow> bool" where
  "capped_node sc n \<longleftrightarrow> n_allowed_scope n = sc \<and> (n_status n = Promoted \<longrightarrow> within_cap sc (n_generation n))"

lemma approve_within_cap:
  assumes "default_evaluate X p i sbom = Inr Approve"
  shows "within_cap (n_allowed_scope p) (n_generation p + 1)"
  using assms
  by (auto simp: default_evaluate_Approve_iff depth_exceeded_def within_cap_def split: option.splits)

lemma commits_capped:
  assumes "v_policy v = default_evaluate X" and com: "commits X v ns h e ci" and "driven a0 sc ns e"
    and "\<forall>m \<in> set ns. capped_node sc m" and sign: "sign_node X ci key = Inr n"
  shows "capped_node sc n"
proof -
  note f = sign_node_simps(1,4,5) [OF sign]
  from assms(3) consider t where "e = E_Root a0 sc t"
    | inp where "e = E_Cycle inp" "cy_parent inp \<in> set ns" "cy_allowed_scope inp = sc"
    by (auto simp: driven_def valid_cycle_def split: event.splits)
  then show ?thesis
  proof cases
    case 1
    then show ?thesis
      using com f by (auto simp: commits_def capped_node_def within_cap_def root_inputs_def split: option.split)
  next
    case 2
    then have "n_allowed_scope (cy_parent inp) = sc" using assms(4) by (simp add: capped_node_def)
    then have "within_cap sc (n_generation (cy_parent inp) + 1)" if "gate_decision X v inp = Inr Approve"
      using approve_within_cap that assms(1) by metis
    then show ?thesis
      using com 2 f u32_succ_Inr
      by (fastforce simp: commits_def capped_node_def promoted_inputs_def rejected_inputs_def)
  qed
qed

context lineage_contract
begin

definition capped_ledger :: "allowed_scope \<Rightarrow> 's \<Rightarrow> bool" where
  "capped_ledger sc s \<longleftrightarrow> inv s \<and> (\<forall>n \<in> set (entries s). capped_node sc n)"

lemma effect_capped:
  assumes "effect X v e s s'" and "v_policy v = default_evaluate X" and "driven a0 sc (entries s) e"
    and "capped_ledger sc s"
  shows "capped_ledger sc s'"
  using assms(1)
proof (cases rule: effect_cases)
  case (added ci key n h)
  have "capped_node sc n"
    by (rule commits_capped [OF assms(2) added(1) assms(3) _ added(3)]) (use assms(4) in \<open>simp add: capped_ledger_def\<close>)
  then show ?thesis using added(2) assms(4) by (simp add: capped_ledger_def committed_def)
qed (use assms(4) in \<open>auto simp: capped_ledger_def untouched_def\<close>)

lemma reach_capped:
  assumes "lifecycle X v (\<lambda>s. driven a0 sc (entries s)) s0 s P" and "v_ledger v = S"
    and "v_policy v = default_evaluate X" and "inv s0" and "entries s0 = []"
  shows "inv s \<and> (\<forall>n \<in> set (entries s). capped_node sc n)"
proof -
  from assms(1) have "capped_ledger sc s"
  proof induction
    case start
    then show ?case using assms(4,5) by (simp add: capped_ledger_def)
  next
    case (step s P e r s')
    then have "effect X v e s s'" by (intro exec_has_effect [OF assms(2)]) (simp_all add: capped_ledger_def)
    then show ?case using effect_capped [OF _ assms(3) step.hyps(2) step.IH] by blast
  qed
  then show ?thesis by (simp add: capped_ledger_def)
qed

end


section \<open>Properties\<close>

text \<open>
  No search escapes its scope: however long a driver with the default gate evolves a root under the
  root's scope, and whatever its strategy, mutator, sandbox and evaluator do, every promoted node
  verifies, holds only capabilities of the root artifact and of the scope's allow-lists, carries that
  scope on, and does not exceed the scope's maximum generation.
\<close>

theorem evolution_stays_in_scope:
  assumes "commit_root X v a0 sc t mem_new = (Inr root, s1)"
    and "driver_run X (driver_new v (mem_store X) sel mu sb) ((=) sc) (s1, b) (s2, b')"
    and "sel \<in> set (stock_selectors X E seed)" and "v_ledger v = mem_store X"
    and "v_policy v = default_evaluate X" and "crypto_laws X"
    and "n \<in> set (mem_entries s2)" and "n_status n = Promoted"
  shows "verify_node X n = Inr () \<and>
     set (capability_sbom X (n_artifact n)) \<subseteq> set (capability_sbom X a0) \<union> scope_capabilities sc \<and>
     n_allowed_scope n = sc \<and>
     (case sc_max_generation sc of None \<Rightarrow> True | Some m \<Rightarrow> n_generation n \<le> m)"
proof -
  obtain P where d: "lifecycle X v (\<lambda>s. driven a0 sc (mem_entries s)) mem_new s2 P"
    by (rule driven_lifecycle [OF assms(1-4), of "\<lambda>s. driven a0 sc (mem_entries s)"])
      (simp_all add: driven_def)
  then have l: "lifecycle X v (\<lambda>s. governed a0 sc (mem_entries s)) mem_new s2 P"
    by (rule lifecycle_mono) (rule driven_governed)
  have "scope_gate (v_policy v)"
    using assms(5) default_gate.scope_gate_axioms by simp
  then have "bounded_node X a0 sc n"
    using mem.reach_contained [OF l assms(4,6)] assms(7) by simp
  moreover have "sound_node X n"
    using mem.reach_sound [OF l assms(4,6)] assms(7) by simp
  moreover have "capped_node sc n"
    using mem.reach_capped [OF d assms(4,5)] assms(7) by simp
  ultimately show ?thesis
    using assms(8) by (simp add: bounded_node_def sound_node_def capped_node_def within_cap_def)
qed

lemma demo_governed_run:
  obtains n s where "driver_run (demo_ext True) (demo_driver False False) ((=) scope_default) (demo_ledger, False) (s, False)"
    and "mem_entries s = [demo_parent, n]" and "n_status n = Promoted"
proof -
  obtain n s where g: "demo_generation False False (demo_ledger, False)
      = (Inr (Cycle_Promoted n (from_score 1)), (s, False))" and e: "mem_entries s = [demo_parent, n]"
    by (rule demo_generation_ran [of False]) (rule that, simp_all)
  have "driver_run (demo_ext True) (demo_driver False False) ((=) scope_default) (demo_ledger, False) (s, False)"
    by (rule driver_run.generation [OF driver_run.start _ g]) simp
  moreover obtain p c where "run_cycle (demo_ext True) (ed_veh (demo_driver False False))
      (generation_inputs (intent_new ''tighten'') scope_default ''2026-01-01T00:01:00Z'' p c) demo_ledger
      = (Inr (Cycle_Promoted n (from_score 1)), s)"
    by (rule mem_latest.generation_Inr [OF _ _ _ _ g, of "demo_ext True"]) (simp_all del: demo_ext_simps)
  then have "n_status n = Promoted"
    by (rule run_cycle_promoted_node(4))
  ultimately show thesis using e by (intro that)
qed

theorem evolution_stays_in_scope_witness:
  "\<exists>n s. driver_run (demo_ext True) (demo_driver False False) ((=) scope_default) (demo_ledger, False) (s, False) \<and>
     mem_entries s = [demo_parent, n] \<and>
     set (capability_sbom (demo_ext True) (n_artifact n)) \<subseteq> {''tool:a'', ''mcp:files''}"
proof -
  let ?X = "demo_ext True" and ?a = "artifact_new (demo_man [''a''])"
  obtain n s where run: "driver_run ?X (demo_driver False False) ((=) scope_default) (demo_ledger, False) (s, False)"
    and e: "mem_entries s = [demo_parent, n]" and st: "n_status n = Promoted"
    by (rule demo_governed_run)
  have root: "commit_root ?X (demo_veh 1) ?a scope_default ''2026-01-01T00:00:00Z'' mem_new = (Inr demo_parent, demo_ledger)"
    using demo_commit_root by (auto dest: op_map_cases)
  have "latest_select \<in> set (stock_selectors ?X demo_entropy None)"
    by (simp add: stock_selectors_def)
  from evolution_stays_in_scope [OF root run [unfolded demo_driver_def] this _ _ demo_crypto_laws _ st] e
  have "set (capability_sbom ?X (n_artifact n)) \<subseteq> set (capability_sbom ?X ?a) \<union> scope_capabilities scope_default"
    by simp
  also have "\<dots> \<subseteq> {''tool:a'', ''mcp:files''}"
    by (simp add: capability_set_def tool_capability_def artifact_new_def scope_capabilities_def scope_default_def)
  finally show ?thesis using run e by blast
qed

text \<open>
  C37: The scope is inherited by convention only: the scope a cycle records is the one its caller passes,
  and the gate of the next cycle consults that one. Whatever scope the first parent had, when a host
  passes a scope without a depth cap and without gated capabilities to a cycle that promotes its
  candidate, a next cycle from that candidate's node promotes, without review, any artifact within its
  capabilities and the allow-lists of the scope passed, if the evaluator scores it as an improvement
  under the runner's rule and the cycle completes.
\<close>

theorem caller_scope_replaces_inherited:
  assumes "v_policy v = default_evaluate X"
    and "run_cycle X v first s = (Inr (Cycle_Promoted n1 eval1), s1)"
    and "sc_max_generation (cy_allowed_scope first) = None" and "sc_gated_capabilities (cy_allowed_scope first) = []"
    and "cy_parent second = n1"
    and "set (capability_sbom X (cy_candidate second)) \<subseteq>
           set (capability_sbom X (cy_candidate first)) \<union> scope_capabilities (cy_allowed_scope first)"
    and "ev_evaluate (v_evaluator v) (cy_candidate second) = Inr eval" and "not_improved X (v_strict v) n1 eval = None"
    and "run_cycle X v second s1 = (Inr out, s2)"
  shows "n_allowed_scope n1 = cy_allowed_scope first \<and>
     (\<exists>n2. out = Cycle_Promoted n2 eval \<and> n_artifact n2 = cy_candidate second)"
proof -
  have n1: "n_allowed_scope n1 = cy_allowed_scope first"
      "n_capability_sbom n1 = capability_sbom X (cy_candidate first)"
    by (rule run_cycle_promoted_node [OF assms(2)])+
  have "gate_decision X v second = Inr Approve"
    unfolding assms(1,5) by (rule approves_covered) (simp_all only: n1 assms(3,4,6))
  then show ?thesis
    using approved_second [OF assms(9) _ assms(7)] assms(5,8) n1(1) by simp
qed

text \<open>Two lenient cycles of the sample library; a later timestamp keeps the ids apart.\<close>

definition demo_lenient :: "((demo_manifest, demo_num) mem_inner, demo_manifest, demo_num, char) veh" where
  "demo_lenient = with_strict_improvement (demo_veh 1) False"

lemma demo_lenient_simps [simp]:
  "v_ledger demo_lenient = mem_store (demo_ext True)" "v_policy demo_lenient = default_evaluate (demo_ext True)"
  "ev_evaluate (v_evaluator demo_lenient) a = Inr (from_score 1)" "v_strict demo_lenient = False"
  by (simp_all add: demo_lenient_def demo_veh_def veh_new_def with_strict_improvement_def stub_evaluator_def
      stub_evaluate_def)

lemma demo_promotes:
  assumes "mem_wf s" and "\<forall>m \<in> set (mem_entries s). verify_node (demo_ext True) m = Inr () \<and> wf_node m \<and>
      n_created_at m \<noteq> cy_created_at inp"
    and "wf_intent (cy_intent inp)" and "n_generation (cy_parent inp) \<noteq> - 1"
    and "default_evaluate (demo_ext True) (cy_parent inp) (cy_intent inp)
           (capability_sbom (demo_ext True) (cy_candidate inp)) = Inr Approve"
  obtains n s' where "run_cycle (demo_ext True) demo_lenient inp s = (Inr (Cycle_Promoted n (from_score 1)), s')"
proof -
  let ?X = "demo_ext True" and ?k = "v_signing_key demo_lenient"
  have fresh: "n_agent_id n \<notin> set (ids (mem_entries s))"
    if "sign_node ?X ci ?k = Inr n" "wf_inputs ci" "ci_created_at ci = cy_created_at inp" for ci n
  proof
    assume "n_agent_id n \<in> set (ids (mem_entries s))"
    then obtain m where m: "m \<in> set (mem_entries s)" "n_agent_id n = n_agent_id m" by auto
    have "wf_node n" using that(1,2) sign_node_simps(15) by (metis wf_inputs_of_node)
    moreover have "\<not> (\<exists>x y. x \<noteq> y \<and> x_sha256 ?X x = x_sha256 ?X y)" by simp
    ultimately have "same_content ?X (inputs_of_node n) (inputs_of_node m)"
      using verified_same_id [OF demo_json_text_laws demo_json_num_laws demo_manifest_laws demo_crypto_laws _ _ _ _ m(2)]
        sign_node_verifies [OF demo_crypto_laws that(1)] assms(2) m(1) by blast
    then have "n_created_at n = n_created_at m" by (simp add: same_content_def inputs_of_node_def)
    moreover have "n_created_at m \<noteq> cy_created_at inp" using assms(2) m(1) by blast
    ultimately show False using that(3) sign_node_simps(11) [OF that(1)] by simp
  qed
  have "\<exists>n. fst (run_cycle ?X demo_lenient inp s) = Inr (Cycle_Promoted n (from_score 1))"
    using run_cycle_progress [of ?X demo_lenient s inp "from_score 1" Approve] assms fresh
    by (auto simp: from_score_def not_improved_def promoted_inputs_def rejected_inputs_def wf_inputs_def
        simp del: demo_ext_simps)
  then show thesis using that by (metis prod.collapse)
qed

definition demo_wide :: allowed_scope where
  "demo_wide = scope_default\<lparr>sc_allowed_tools := [''shell'']\<rparr>"

abbreviation demo_widening :: "(demo_manifest, demo_num) cycle_inputs" where
  "demo_widening \<equiv> (demo_cycle demo_parent [''a''])\<lparr>cy_allowed_scope := demo_wide\<rparr>"

abbreviation demo_widened :: "(demo_manifest, demo_num) agent_node \<Rightarrow> (demo_manifest, demo_num) cycle_inputs" where
  "demo_widened parent \<equiv> (demo_cycle parent [''a'', ''shell''])\<lparr>cy_created_at := ''2026-01-01T00:02:00Z''\<rparr>"

lemma demo_parent_facts:
  "verify_node (demo_ext True) demo_parent = Inr ()" "wf_node demo_parent"
  "n_created_at demo_parent = ''2026-01-01T00:00:00Z''"
  using sign_node_simps(11) [OF demo_node_signed, of "[''a'']" Promoted "CHR ''k''"]
  by (simp_all add: demo_parent_def demo_node_verifies) (simp add: demo_inputs_def)

lemma demo_widening_runs:
  obtains n1 s1 where "run_cycle (demo_ext True) demo_lenient demo_widening demo_ledger
      = (Inr (Cycle_Promoted n1 (from_score 1)), s1)"
    and "mem_wf s1" and "mem_entries s1 = [demo_parent, n1]" and "n_generation n1 = 1"
    and "verify_node (demo_ext True) n1 = Inr ()" and "wf_node n1"
proof -
  let ?X = "demo_ext True"
  obtain n1 s1 where run: "run_cycle ?X demo_lenient demo_widening demo_ledger
      = (Inr (Cycle_Promoted n1 (from_score 1)), s1)"
    by (rule demo_promotes [of demo_ledger demo_widening])
      (simp_all add: demo_parent_facts demo_approve del: demo_ext_simps, simp add: demo_cycle_def)
  obtain g diff where n1: "sign_node ?X (cycle_promoted_inputs ?X demo_widening g diff (from_score 1))
      (v_signing_key demo_lenient) = Inr n1" and g: "u32_succ ?X (n_generation (cy_parent demo_widening)) = Inr g"
    by (rule run_cycle_promoted_signed [OF run])
  have "wf_inputs (cycle_promoted_inputs ?X demo_widening g diff (from_score 1))"
    by (simp add: from_score_def)
  then have "wf_node n1" using sign_node_simps(15) [OF n1] by (metis wf_inputs_of_node)
  moreover have "n_generation n1 = 1"
    using sign_node_simps(4) [OF n1] u32_succ_Inr [OF g] by (simp add: promoted_inputs_def)
  ultimately show thesis
    using that [OF run] mem_latest.cycle_effect [OF _ _ run, of ?X] sign_node_verifies [OF demo_crypto_laws n1] by simp
qed

theorem caller_scope_replaces_inherited_witness:
  "\<exists>n1 n2 s1 s2. run_cycle (demo_ext True) demo_lenient demo_widening demo_ledger
       = (Inr (Cycle_Promoted n1 (from_score 1)), s1) \<and>
     run_cycle (demo_ext True) demo_lenient (demo_widened n1) s1 = (Inr (Cycle_Promoted n2 (from_score 1)), s2) \<and>
     n_artifact n2 = artifact_new (demo_man [''a'', ''shell'']) \<and>
     ''tool:shell'' \<notin> set (n_capability_sbom demo_parent) \<union> scope_capabilities (n_allowed_scope demo_parent)"
proof -
  let ?X = "demo_ext True"
  obtain n1 s1 where first: "run_cycle ?X demo_lenient demo_widening demo_ledger
      = (Inr (Cycle_Promoted n1 (from_score 1)), s1)" "mem_wf s1" "mem_entries s1 = [demo_parent, n1]"
      "n_generation n1 = 1" "verify_node ?X n1 = Inr ()" "wf_node n1"
    by (rule demo_widening_runs)
  note n1 = run_cycle_promoted_node [OF first(1)]
  have within: "set (capability_sbom ?X (cy_candidate (demo_widened n1))) \<subseteq>
      set (capability_sbom ?X (cy_candidate demo_widening)) \<union> scope_capabilities (cy_allowed_scope demo_widening)"
    by (auto simp: capability_set_def tool_capability_def artifact_new_def scope_capabilities_def demo_wide_def)
  have "default_evaluate ?X n1 (intent_new ''tighten'') (capability_sbom ?X (artifact_new (demo_man [''a'', ''shell''])))
      = Inr Approve"
    by (rule approves_covered) (use within n1 in \<open>simp_all add: demo_wide_def scope_default_def\<close>)
  then obtain n2 s2 where second: "run_cycle ?X demo_lenient (demo_widened n1) s1
      = (Inr (Cycle_Promoted n2 (from_score 1)), s2)"
    by (rule_tac demo_promotes [of s1 "demo_widened n1"])
      (simp_all add: first demo_parent_facts n1(5) del: demo_ext_simps, simp add: demo_cycle_def)
  have "n_artifact n2 = artifact_new (demo_man [''a'', ''shell''])"
    using caller_scope_replaces_inherited [OF _ first(1) _ _ _ within _ _ second]
    by (auto simp: demo_wide_def scope_default_def not_improved_def)
  moreover have "''tool:shell'' \<notin> set (n_capability_sbom demo_parent) \<union> scope_capabilities (n_allowed_scope demo_parent)"
    by (auto simp: capability_set_def tool_capability_def artifact_new_def scope_capabilities_def scope_default_def)
  ultimately show ?thesis using first(1) second by blast
qed

end
