(* ===== verification/Veh_Parallel.thy ===== *)
theory Veh_Parallel
  imports Veh_Concurrent Veh_Governance
begin

text \<open>
  Evolution drivers in parallel on one ledger and one sandbox: a generation cut at its \<open>.await\<close>s, any
  number of them in flight. Between a driver's selection and its commit, other drivers may have added
  nodes; the parent it read is still recorded and valid, so governance holds in every interleaving.
\<close>

section \<open>A generation, access by access\<close>

text \<open>A runner's task, as a task on the driver's two states.\<close>

primrec task_lift :: "('s, 'a) task \<Rightarrow> ('s \<times> 'b, 'a) task" where
  "task_lift (Done r) = Done r"
| "task_lift (Await m) = Await (\<lambda>st. case map_prod task_lift id (m (fst st)) of (t, s') \<Rightarrow> (t, (s', snd st)))"

text \<open>Going on with the result, error or not, unless the task panics.\<close>

primrec task_then :: "('s, 'a) task \<Rightarrow> ('a res \<Rightarrow> ('s, 'b) task) \<Rightarrow> ('s, 'b) task" where
  "task_then (Done r) f = (case r of Inl e \<Rightarrow> if is_panic e then Done (Inl e) else f (Inl e) | Inr x \<Rightarrow> f (Inr x))"
| "task_then (Await m) f = Await (map_prod (\<lambda>t. task_then t f) id \<circ> m)"

definition cycle_and_teardown_task ::
  "('m, 'n, 'k) ext \<Rightarrow> ('s, 'b, 'm, 'n, 'k) evolution_driver \<Rightarrow> ('m, 'n) cycle_inputs
     \<Rightarrow> ('s \<times> 'b, ('m, 'n) cycle_outcome) task" where
  "cycle_and_teardown_task X d inputs =
     task_then (task_lift (run_cycle_task X (ed_veh d) inputs)) (\<lambda>outcome.
     task_then (await (on_sandbox (sb_teardown (ed_sandbox d)))) (\<lambda>teardown.
     Done (res_bind outcome (\<lambda>result. res_bind teardown (\<lambda>_. Inr result)))))"

definition generation_task ::
  "('m, 'n, 'k) ext \<Rightarrow> ('s, 'b, 'm, 'n, 'k) evolution_driver \<Rightarrow> 'n mutation_intent \<Rightarrow> allowed_scope
     \<Rightarrow> 'n mutation_context \<Rightarrow> string \<Rightarrow> ('s \<times> 'b, ('m, 'n) cycle_outcome) task" where
  "generation_task X d intent scope ctx created =
     task_bind (await (op_lift (\<lambda>st. ed_selector d (ed_ledger d) (fst st)))) (\<lambda>parent_id.
     task_bind (await (op_lift (\<lambda>st. ls_get (ed_ledger d) parent_id (fst st)))) (\<lambda>parent.
     task_bind (Done (mu_propose (ed_mutator d) parent intent ctx)) (\<lambda>candidate.
     task_bind (await (on_sandbox (sb_enforce (ed_sandbox d) candidate scope))) (\<lambda>_.
     cycle_and_teardown_task X d (generation_inputs intent scope created parent candidate)))))"

lemma task_bind_then: "task_bind t f = task_then t (\<lambda>r. case r of Inl e \<Rightarrow> Done (Inl e) | Inr x \<Rightarrow> f x)"
proof (induction t)
  case (Await m)
  then have "map_prod (\<lambda>t. task_bind t f) id (m st) =
      map_prod (\<lambda>t. task_then t (\<lambda>r. case r of Inl e \<Rightarrow> Done (Inl e) | Inr x \<Rightarrow> f x)) id (m st)" for st
    by (cases "m st") (metis fsts.intros fst_conv map_prod_simp rangeI)
  then show ?case by (simp add: fun_eq_iff)
qed (simp split: sum.split)

lemma run_task_lift: "run_task (task_lift t) st = on_ledger (run_task t) st"
proof (induction t arbitrary: st)
  case (Done r)
  then show ?case by (cases st) simp
next
  case (Await m)
  obtain t s' where m: "m (fst st) = (t, s')" by fastforce
  then have "run_task (task_lift t) (s', snd st) = on_ledger (run_task t) (s', snd st)"
    using Await [of "m (fst st)" t "(s', snd st)"] by (metis fsts.intros fst_conv rangeI)
  then show ?case using m by (cases st) simp
qed

lemma run_task_then: "run_task (task_then t f) s = op_try (run_task t) (\<lambda>r. run_task (f r)) s"
proof (induction t arbitrary: s)
  case (Done r)
  then show ?case by (cases r) simp_all
next
  case (Await m)
  obtain t s' where m: "m s = (t, s')" by fastforce
  then have "run_task (task_then t f) s' = op_try (run_task t) (\<lambda>r. run_task (f r)) s'"
    using Await [of "m s" t s'] by (metis fsts.intros fst_conv rangeI)
  then show ?case using m by (simp add: op_try_def)
qed

text \<open>With nobody else, the task is the method.\<close>

lemma run_cycle_and_teardown:
  "run_task (cycle_and_teardown_task X d inputs) = cycle_and_teardown X d inputs"
  by (rule ext)
    (simp add: cycle_and_teardown_task_def cycle_and_teardown_def run_task_then run_task_lift run_cycle_alone
       op_try_def split: prod.split sum.split)

lemma run_generation_alone: "run_task (generation_task X d intent scope ctx created) = run_generation X d intent scope ctx created"
  by (rule ext)
    (simp add: generation_task_def run_generation_def op_bind_def run_cycle_and_teardown generation_inputs_def
       split_beta split: sum.split)


section \<open>Drivers in parallel\<close>

type_synonym ('s, 'b, 'm, 'n) stage = "'s \<times> 'b \<Rightarrow> ('s \<times> 'b, ('m, 'n) cycle_outcome) task \<times> ('s \<times> 'b)"

text \<open>
  The two shared states, the generations in flight with their next access, and the answers. Drivers are
  those of \<open>D\<close>, scopes those of \<open>A\<close>; a generation never starts finished, since it first selects.
\<close>

inductive parallel ::
  "('m, 'n, 'k) ext \<Rightarrow> (('s, 'b, 'm, 'n, 'k) evolution_driver \<Rightarrow> bool) \<Rightarrow> (allowed_scope \<Rightarrow> bool)
     \<Rightarrow> 's \<times> 'b \<Rightarrow> 's \<times> 'b \<Rightarrow> (('s, 'b, 'm, 'n, 'k) evolution_driver \<times> ('s, 'b, 'm, 'n) stage) multiset
     \<Rightarrow> ('m, 'n) cycle_outcome res list \<Rightarrow> bool"
  for X D A st0 where
  idle: "parallel X D A st0 st0 {#} []"
| start: "parallel X D A st0 st T H \<Longrightarrow> D d \<Longrightarrow> A scope \<Longrightarrow>
     generation_task X d intent scope ctx created = Await m \<Longrightarrow> parallel X D A st0 st (add_mset (d, m) T) H"
| access: "parallel X D A st0 st (add_mset (d, m) T) H \<Longrightarrow> m st = (Await m', st') \<Longrightarrow>
     parallel X D A st0 st' (add_mset (d, m') T) H"
| complete: "parallel X D A st0 st (add_mset (d, m) T) H \<Longrightarrow> m st = (Done r, st') \<Longrightarrow>
     parallel X D A st0 st' T (H @ [r])"

lemma generation_access:
  "generation_task X d intent scope ctx created = Await (\<lambda>st. (case ed_selector d (ed_ledger d) (fst st) of
       Inl e \<Rightarrow> Done (Inl e)
     | Inr pid \<Rightarrow> Await (\<lambda>st. (case ls_get (ed_ledger d) pid (fst st) of
         Inl e \<Rightarrow> Done (Inl e)
       | Inr parent \<Rightarrow> (case mu_propose (ed_mutator d) parent intent ctx of
           Inl e \<Rightarrow> Done (Inl e)
         | Inr candidate \<Rightarrow> task_bind (await (on_sandbox (sb_enforce (ed_sandbox d) candidate scope))) (\<lambda>_.
             cycle_and_teardown_task X d (generation_inputs intent scope created parent candidate))), st)), st))"
  by (simp add: generation_task_def task_bind_read)


section \<open>What a generation relies on and what it guarantees\<close>

context lineage_contract
begin

text \<open>An access leaves the ledger alone or has the effect of a cycle from a recorded valid parent.\<close>

definition cycle_step ::
  "('m, 'n, 'k) ext \<Rightarrow> ('s, 'm, 'n, 'k) veh \<Rightarrow> (allowed_scope \<Rightarrow> bool) \<Rightarrow> 's \<Rightarrow> 's \<Rightarrow> bool" where
  "cycle_step X v A s s' \<longleftrightarrow> untouched s s' \<or> (\<exists>e. valid_cycle A (entries s) e \<and> effect X v e s s')"

lemma cycle_step_later: "cycle_step X v A s s' \<Longrightarrow> later s s'"
  by (auto simp: cycle_step_def later_def untouched_def dest: effect_appends)

inductive governed_task ::
  "('m, 'n, 'k) ext \<Rightarrow> ('s, 'm, 'n, 'k) veh \<Rightarrow> (allowed_scope \<Rightarrow> bool) \<Rightarrow> 's \<Rightarrow> ('s \<times> 'b, 'a) task \<Rightarrow> bool"
  for X v A where
  ended: "governed_task X v A s (Done r)"
| suspended: "(\<And>s' b t st. later s s' \<Longrightarrow> m (s', b) = (t, st) \<Longrightarrow>
     cycle_step X v A s' (fst st) \<and> governed_task X v A (fst st) t) \<Longrightarrow> governed_task X v A s (Await m)"

inductive_cases governed_awaitE: "governed_task X v A s (Await m)"

lemma governed_task_later: "governed_task X v A s t \<Longrightarrow> later s s' \<Longrightarrow> governed_task X v A s' t"
proof (cases t)
  case (Await m)
  assume g: "governed_task X v A s t" and le: "later s s'"
  have "cycle_step X v A s1 (fst st) \<and> governed_task X v A (fst st) t'"
    if "later s' s1" "m (s1, b) = (t', st)" for s1 b t' st
    using g [unfolded Await]
    by (rule governed_awaitE) (use later_trans [OF le that(1)] that(2) in blast)
  then show ?thesis unfolding Await by (rule suspended)
qed (simp add: ended)

lemma governed_read:
  assumes "\<And>s'. later s s' \<Longrightarrow> governed_task X v A s' (f s')"
  shows "governed_task X v A s (Await (\<lambda>st. (f (fst st), st)))"
  using assms by (intro suspended) (auto simp: cycle_step_def dest: later_inv)

lemma governed_sandbox:
  fixes m :: "('b, 'c) op"
  assumes "inv s"
  shows "governed_task X v A s (await (on_sandbox m))"
  unfolding await_def
proof (rule suspended)
  fix s' b st and t :: "('s \<times> 'b, 'c) task"
  assume "later s s'" and "(map_prod Done id \<circ> on_sandbox m) (s', b) = (t, st)"
  then show "cycle_step X v A s' (fst st) \<and> governed_task X v A (fst st) t"
    by (auto simp: cycle_step_def later_inv intro: ended)
qed

lemma governed_then:
  assumes "governed_task X v A s t" and "\<And>r s'. later s s' \<Longrightarrow> governed_task X v A s' (f r)" and "inv s"
  shows "governed_task X v A s (task_then t f)"
  using assms
proof induction
  case (ended s r)
  then have "governed_task X v A s (f r)" using later_refl by blast
  then show ?case by (cases r) (simp_all add: governed_task.ended)
next
  case (suspended s m)
  show ?case
    unfolding task_then.simps
  proof (rule governed_task.suspended)
    fix s' b t st
    assume later: "later s s'" and m: "(map_prod (\<lambda>t. task_then t f) id \<circ> m) (s', b) = (t, st)"
    then obtain t' where t': "m (s', b) = (t', st)" "t = task_then t' f" by (cases "m (s', b)") auto
    have "cycle_step X v A s' (fst st)" using suspended.IH [OF later t'(1)] by blast
    moreover from this have "later s (fst st)" using later_trans [OF later] cycle_step_later by blast
    ultimately show "cycle_step X v A s' (fst st) \<and> governed_task X v A (fst st) t"
      using suspended.IH [OF later t'(1)] suspended.prems(1) later_trans later_inv t'(2) by blast
  qed
qed

lemma governed_bind:
  assumes "governed_task X v A s t" and "\<And>x s'. later s s' \<Longrightarrow> governed_task X v A s' (f x)" and "inv s"
  shows "governed_task X v A s (task_bind t f)"
  unfolding task_bind_then
  using assms(2) by (auto intro!: governed_then [OF assms(1) _ assms(3)] ended split: sum.split)

lemma governed_lift:
  assumes "single t" and "inv s"
    and does: "\<And>s' r s''. later s s' \<Longrightarrow> run_task t s' = (r, s'') \<Longrightarrow> cycle_step X v A s' s''"
  shows "governed_task X v A s (task_lift t)"
proof (cases t)
  case (Await m)
  show ?thesis
    unfolding Await task_lift.simps
  proof (rule suspended)
    fix s' b t' st
    assume later: "later s s'"
      and m: "(case map_prod task_lift id (m (fst (s', b))) of (t, u) \<Rightarrow> (t, (u, snd (s', b)))) = (t', st)"
    have "single (Await m)" using assms(1) Await by simp
    then obtain r s'' where step: "m s' = (Done r, s'')" by (fastforce simp: single_def)
    then have "run_task t s' = (r, s'')" using Await by simp
    then have "cycle_step X v A s' s''" using does [OF later] by blast
    then show "cycle_step X v A s' (fst st) \<and> governed_task X v A (fst st) t'"
      using m step by (auto intro: ended)
  qed
qed (simp add: ended)

lemma governed_cycle:
  fixes d :: "('s, 'b, 'm, 'n, 'k) evolution_driver"
  assumes "v_ledger (ed_veh d) = S" and "inv s" and "valid_cycle A (entries s) (E_Cycle inp :: ('m, 'n, 'k) event)"
  shows "governed_task X (ed_veh d) A s (cycle_and_teardown_task X d inp)"
  unfolding cycle_and_teardown_task_def
proof (rule governed_then [OF governed_lift [OF single_run_cycle assms(2)] _ assms(2)])
  fix s' r s''
  assume later: "later s s'" and "run_task (run_cycle_task X (ed_veh d) inp) s' = (r, s'')"
  then have "\<exists>r'. veh_exec X (ed_veh d) (E_Cycle inp) s' = (r', s'')"
    by (cases r) (simp_all add: run_cycle_alone op_map_def op_bind_def)
  then have "effect X (ed_veh d) (E_Cycle inp) s' s''"
    using exec_has_effect [OF assms(1) later_inv [OF later]] by blast
  moreover have "valid_cycle A (entries s') (E_Cycle inp :: ('m, 'n, 'k) event)"
    using assms(3) later_mem [OF later] by (simp add: valid_cycle_def)
  ultimately show "cycle_step X (ed_veh d) A s' s''" unfolding cycle_step_def by blast
next
  fix outcome s' assume "later s s'"
  then show "governed_task X (ed_veh d) A s' (task_then (await (on_sandbox (sb_teardown (ed_sandbox d))))
      (\<lambda>teardown. Done (res_bind outcome (\<lambda>result. res_bind teardown (\<lambda>_. Inr result)))))"
    by (intro governed_then governed_sandbox) (auto intro: ended dest: later_inv)
qed

text \<open>The parent a generation read stays recorded and valid until it commits.\<close>

lemma governed_generation:
  fixes d :: "('s, 'b, 'm, 'n, 'k) evolution_driver"
  assumes "evolution_store S inv entries hd_of (ed_selector d)" and "ed_ledger d = S" and "v_ledger (ed_veh d) = S"
    and "A scope"
  shows "governed_task X (ed_veh d) A s (generation_task X d intent scope ctx created)"
  unfolding generation_access
proof (rule governed_read)
  let ?go = "\<lambda>parent candidate. task_bind (await (on_sandbox (sb_enforce (ed_sandbox d) candidate scope))) (\<lambda>_.
      cycle_and_teardown_task X d (generation_inputs intent scope created parent candidate))"
  let ?get = "\<lambda>pid s. case ls_get (ed_ledger d) pid s of Inl e \<Rightarrow> Done (Inl e)
    | Inr parent \<Rightarrow> (case mu_propose (ed_mutator d) parent intent ctx of
        Inl e \<Rightarrow> Done (Inl e) | Inr candidate \<Rightarrow> ?go parent candidate)"
  fix s1 assume "later s s1"
  then have inv1: "inv s1" by (simp add: later_inv)
  have go: "governed_task X (ed_veh d) A s2 (?go parent candidate)"
    if "inv s2" "parent \<in> set (entries s2)" "n_valid_parent parent" for s2 parent candidate
  proof (rule governed_bind [OF governed_sandbox [OF that(1)] _ that(1)])
    fix u s3 assume later: "later s2 s3"
    have "valid_cycle A (entries s3) (E_Cycle (generation_inputs intent scope created parent candidate) :: ('m, 'n, 'k) event)"
      using that later_mem [OF later] assms(4) by (simp add: valid_cycle_def)
    then show "governed_task X (ed_veh d) A s3
        (cycle_and_teardown_task X d (generation_inputs intent scope created parent candidate))"
      by (rule governed_cycle [OF assms(3) later_inv [OF later]])
  qed
  have "governed_task X (ed_veh d) A s1 (Await (\<lambda>st. (?get pid (fst st), st)))" if "ed_selector d S s1 = Inr pid" for pid
  proof (rule governed_read)
    note picked = evolution_store.selected_parent [OF assms(1) inv1 that]
    obtain n where n: "n \<in> set (entries s1)" "n_valid_parent n" "n_agent_id n = pid"
      by (rule picked) blast
    fix s2 assume le: "later s1 s2"
    then have "ls_get S pid s2 = Inr n"
      using get_mem [OF later_inv [OF le]] later_mem [OF le n(1)] n(3) by blast
    then show "governed_task X (ed_veh d) A s2 (?get pid s2)"
      using go [OF later_inv [OF le] later_mem [OF le n(1)] n(2)] assms(2)
      by (auto intro: ended split: sum.split)
  qed
  then show "governed_task X (ed_veh d) A s1 (case ed_selector d (ed_ledger d) s1 of Inl e \<Rightarrow> Done (Inl e)
      | Inr pid \<Rightarrow> Await (\<lambda>st. (?get pid (fst st), st)))"
    using assms(2) by (auto intro: ended split: sum.split)
qed

lemma governed_step:
  assumes "governed_task X v A (fst st) (Await m)" and "inv (fst st)" and "m st = (t, st')"
  shows "cycle_step X v A (fst st) (fst st') \<and> governed_task X v A (fst st') t"
proof (cases st)
  case (Pair s b)
  then have le: "later s s" and m: "m (s, b) = (t, st')" and g: "governed_task X v A s (Await m)"
    using assms later_refl by simp_all
  show ?thesis using g by (rule governed_awaitE) (use le m Pair in simp)
qed

text \<open>What every such cycle keeps, every interleaving of generations keeps.\<close>

lemma parallel_invariant:
  assumes "parallel X D A st0 st T H" and "inv (fst st0)" and "I (fst st0)"
    and store: "\<And>d. D d \<Longrightarrow> evolution_store S inv entries hd_of (ed_selector d) \<and> ed_ledger d = S \<and> v_ledger (ed_veh d) = S"
    and untouched: "\<And>s s'. I s \<Longrightarrow> untouched s s' \<Longrightarrow> I s'"
    and keeps: "\<And>d e s s'. D d \<Longrightarrow> I s \<Longrightarrow> valid_cycle A (entries s) e \<Longrightarrow> effect X (ed_veh d) e s s' \<Longrightarrow> I s'"
  shows "later (fst st0) (fst st) \<and> I (fst st) \<and>
     (\<forall>c \<in># T. D (fst c) \<and> governed_task X (ed_veh (fst c)) A (fst st) (Await (snd c)))"
proof -
  let ?flight = "\<lambda>st T. \<forall>c \<in># T. D (fst c) \<and> governed_task X (ed_veh (fst c)) A (fst st) (Await (snd c))"
  have step: "later (fst st0) (fst st') \<and> I (fst st') \<and> D d \<and> governed_task X (ed_veh d) A (fst st') t \<and> ?flight st' T"
    if now: "later (fst st0) (fst st) \<and> I (fst st) \<and> ?flight st (add_mset (d, m) T)" and "m st = (t, st')" for st d m T t st'
  proof -
    have d: "D d" and "governed_task X (ed_veh d) A (fst st) (Await m)" "inv (fst st)"
      using now later_inv by auto
    then have c: "cycle_step X (ed_veh d) A (fst st) (fst st')" and g: "governed_task X (ed_veh d) A (fst st') t"
      using governed_step that(2) by blast+
    have le: "later (fst st) (fst st')" using cycle_step_later [OF c] .
    have "I (fst st')" using c now untouched keeps [OF d] unfolding cycle_step_def by blast
    moreover have "governed_task X (ed_veh (fst c)) A (fst st') (Await (snd c))" if "c \<in># T" for c
      by (rule governed_task_later [OF _ le]) (use now that in auto)
    ultimately show ?thesis using now d g later_trans [OF _ le] by simp
  qed
  from assms(1) show ?thesis
  proof induction
    case idle
    then show ?case using assms(2,3) by (simp add: later_refl)
  next
    case (start st T H d scope intent ctx created m)
    have "governed_task X (ed_veh d) A (fst st) (generation_task X d intent scope ctx created)"
      by (rule governed_generation [where A = A and scope = scope, OF _ _ _ start.hyps(3)])
        (use store [OF start.hyps(2)] in blast)+
    then have "governed_task X (ed_veh d) A (fst st) (Await m)" using start.hyps(4) by simp
    then show ?case using start.IH start.hyps(2) by simp
  next
    case (access st d m T H m' st')
    have "later (fst st0) (fst st') \<and> I (fst st') \<and> D d \<and> governed_task X (ed_veh d) A (fst st') (Await m') \<and> ?flight st' T"
      by (rule step [of st d m T "Await m'" st', OF access.IH access.hyps(2)])
    then show ?case by simp
  next
    case (complete st d m T H r st')
    note step [of st d m T "Done r" st', OF complete.IH complete.hyps(2)]
    then show ?case by blast
  qed
qed

end


section \<open>A generation nobody interrupts\<close>

lemma parallel_uninterrupted:
  assumes "parallel X D A st0 st (add_mset (d, m) T) H" and "run_task (Await m) st = (r, st')"
  shows "parallel X D A st0 st' T (H @ [r])"
proof -
  have "parallel X D A st0 st' T (H @ [r])"
    if "t = Await m" "parallel X D A st0 st (add_mset (d, m) T) H" "run_task t st = (r, st')" for t m st
    using that
  proof (induction t arbitrary: m st)
    case (Await n)
    obtain t' st1 where step: "m st = (t', st1)" by (rule prod.exhaust)
    then have rest: "run_task t' st1 = (r, st')" using Await.prems by simp
    show ?case
    proof (cases t')
      case (Done r')
      then show ?thesis
        using parallel.complete [where m = m and st = st, OF Await.prems(2)] step rest by simp
    next
      case again: (Await m')
      have "parallel X D A st0 st1 (add_mset (d, m') T) H"
        using parallel.access [where m = m and st = st, OF Await.prems(2)] step again by simp
      then show ?thesis
        using Await.IH [of "n st" t' m' st1] Await.prems(1) step again rest
        by (metis fsts.intros fst_conv rangeI task.inject(2))
    qed
  qed simp
  then show ?thesis using assms by blast
qed

lemma parallel_generation:
  assumes "parallel X D A st0 st T H" and "D d" and "A scope"
    and "run_generation X d intent scope ctx created st = (r, st')"
  shows "parallel X D A st0 st' T (H @ [r])"
proof -
  obtain m where m: "generation_task X d intent scope ctx created = Await m"
    by (rule that [OF generation_access])
  have "run_task (Await m) st = (r, st')"
    using assms(4) by (simp only: run_generation_alone [symmetric] m)
  then show ?thesis
    by (rule parallel_uninterrupted [OF parallel.start [OF assms(1-3) m]])
qed

text \<open>One driver after the other is a special case.\<close>

lemma driver_run_parallel: "driver_run X d A st0 st \<Longrightarrow> D d \<Longrightarrow> \<exists>H. parallel X D A st0 st {#} H"
proof (induction rule: driver_run.induct)
  case start
  show ?case by (rule exI [of _ "[]"]) (rule parallel.idle)
next
  case (generation st scope intent ctx created r st')
  then show ?case using parallel_generation by blast
qed


section \<open>A sandbox that drivers share\<close>

lemma cycle_and_teardown_access:
  assumes "run_cycle X (ed_veh d) inp s = (Inr out, s')"
  shows "\<exists>m. cycle_and_teardown_task X d inp = Await m"
proof (cases "run_cycle_task X (ed_veh d) inp")
  case (Done r)
  then have "r = Inr out" using assms run_cycle_alone [of X "ed_veh d" inp] by (metis run_task.simps(1) prod.inject)
  then show ?thesis using Done by (simp add: cycle_and_teardown_task_def await_def)
qed (simp add: cycle_and_teardown_task_def)

text \<open>The first accesses of a generation, up to the sandbox it has enforced.\<close>

lemma parallel_enforced:
  assumes "parallel X D A st0 (s, b) T H" and "D d" and "A scope"
    and "proposal d intent ctx s = Inr (p, c)" and "sb_enforce (ed_sandbox d) c scope b = (Inr (), b1)"
    and "cycle_and_teardown_task X d (generation_inputs intent scope created p c) = Await m"
  shows "parallel X D A st0 (s, b1) (add_mset (d, m) T) H"
proof -
  obtain pid where sel: "ed_selector d (ed_ledger d) s = Inr pid" and got: "ls_get (ed_ledger d) pid s = Inr p"
    and proposed: "mu_propose (ed_mutator d) p intent ctx = Inr c"
    using assms(4) by (auto simp: proposal_def res_bind_def split: sum.splits)
  obtain m0 where gen: "generation_task X d intent scope ctx created = Await m0"
    by (rule that [OF generation_access])
  obtain m1 where one: "m0 (s, b) = (Await m1, (s, b))" and two: "m1 (s, b) = (task_bind
      (await (on_sandbox (sb_enforce (ed_sandbox d) c scope)))
      (\<lambda>_. cycle_and_teardown_task X d (generation_inputs intent scope created p c)), (s, b))"
    using gen [unfolded generation_access] sel got proposed by auto
  obtain m2 where en: "m1 (s, b) = (Await m2, (s, b))" and three: "m2 (s, b) = (Await m, (s, b1))"
    using two assms(5,6) by (auto simp: await_def)
  have "parallel X D A st0 (s, b) (add_mset (d, m1) T) H"
    by (rule parallel.access [where m = m0, OF parallel.start [OF assms(1-3) gen] one])
  then have "parallel X D A st0 (s, b) (add_mset (d, m2) T) H"
    by (rule parallel.access [where m = m1, OF _ en])
  then show ?thesis
    by (rule parallel.access [where m = m2, OF _ three])
qed

text \<open>
  A teardown names no generation. One that another driver overtakes between its sandbox and its cycle is
  about to evaluate a candidate in whatever the other's teardown has left.
\<close>

lemma overtaken_generation:
  assumes "parallel X D A st0 (s, b) T H" and "D d" and "A scope"
    and "proposal d intent ctx s = Inr (p, c)" and "sb_enforce (ed_sandbox d) c scope b = (Inr (), b1)"
    and "D d'" and "A scope'" and "run_generation X d' intent' scope' ctx' created' (s, b1) = (r, st)"
    and "cycle_and_teardown_task X d (generation_inputs intent scope created p c) = Await m"
  shows "parallel X D A st0 st (add_mset (d, m) T) (H @ [r])"
  by (rule parallel_generation [OF parallel_enforced [OF assms(1-5,9)] assms(6-8)])

lemma demo_generation_again: "demo_generation False k (demo_ledger, b) = demo_generation False k (demo_ledger, False)"
  by (simp add: run_generation_eq demo_proposal cycle_and_teardown_eq demo_sandbox_def)

lemma shared_sandbox_released_early:
  "\<exists>m n s inp. parallel (demo_ext True) ((=) (demo_driver False False)) ((=) scope_default)
       (demo_ledger, False) (s, False) {#(demo_driver False False, m)#} [Inr (Cycle_Promoted n (from_score 1))] \<and>
     sb_enforce (ed_sandbox (demo_driver False False)) (cy_candidate inp) scope_default False = (Inr (), True) \<and>
     cycle_and_teardown_task (demo_ext True) (demo_driver False False) inp = Await m"
proof -
  let ?d = "demo_driver False False"
  obtain n s where g: "demo_generation False False (demo_ledger, False)
      = (Inr (Cycle_Promoted n (from_score 1)), (s, False))"
    by (rule demo_generation_ran [of False]) (rule that, simp_all)
  have enforced: "sb_enforce (ed_sandbox ?d) c scope_default False = (Inr (), True)" for c
    by (simp add: demo_sandbox_def)
  obtain m where m: "cycle_and_teardown_task (demo_ext True) ?d demo_generation_inputs = Await m"
    using demo_generation_cycle cycle_and_teardown_access [of "demo_ext True" ?d demo_generation_inputs demo_ledger]
    by (metis demo_driver_simps(1))
  have "parallel (demo_ext True) ((=) ?d) ((=) scope_default) (demo_ledger, False) (s, False) {#(?d, m)#}
        ([] @ [Inr (Cycle_Promoted n (from_score 1))])"
    by (rule overtaken_generation [OF parallel.idle refl refl demo_proposal enforced refl refl
        g [folded demo_generation_again [of False True]] m])
  then show ?thesis
    using enforced m by (intro exI conjI) simp_all
qed


section \<open>Properties\<close>

text \<open>
  A driver over the shared ledger with the default gate and a strategy that selects nothing but valid
  parents, as its trait demands. Every built-in strategy is one, with any seed and any clock.
\<close>

definition governed_driver ::
  "('m, 'n, 'k) ext \<Rightarrow> (('m, 'n) mem_inner, 'b, 'm, 'n, 'k) evolution_driver \<Rightarrow> bool" where
  "governed_driver X d \<longleftrightarrow> ed_ledger d = mem_store X \<and> v_ledger (ed_veh d) = mem_store X \<and>
     v_policy (ed_veh d) = default_evaluate X \<and> valid_picker (ed_selector d)"

lemma stock_governed:
  assumes "sel \<in> set (stock_selectors X' E seed)" and "v_ledger v = mem_store X" and "v_policy v = default_evaluate X"
  shows "governed_driver X (driver_new v (mem_store X) sel mu sb)"
  using parent_selector.axioms(1) [OF stock_selector [OF assms(1)]] assms(2,3) by (simp add: governed_driver_def)

text \<open>
  C5: No search escapes its scope, however many drivers run in parallel: let any drivers with the default
  gate evolve one root under its scope on one shared in-memory ledger, with strategies that select
  nothing but valid parents, as all the built-in ones do, whatever their mutators, sandboxes and
  evaluators answer, and let their generations interleave access by access. Every promoted node
  verifies, holds only capabilities of the root artifact and of the scope's allow-lists, carries that
  scope on, and does not exceed the scope's maximum generation.
\<close>

theorem parallel_evolution_stays_in_scope:
  assumes "commit_root X v a0 sc t mem_new = (Inr root, s1)"
    and "parallel X (governed_driver X) ((=) sc) (s1, b) (s2, b') T H"
    and "v_ledger v = mem_store X" and "v_policy v = default_evaluate X" and "crypto_laws X"
    and "n \<in> set (mem_entries s2)" and "n_status n = Promoted"
  shows "verify_node X n = Inr () \<and>
     set (capability_sbom X (n_artifact n)) \<subseteq> set (capability_sbom X a0) \<union> scope_capabilities sc \<and>
     n_allowed_scope n = sc \<and>
     (case sc_max_generation sc of None \<Rightarrow> True | Some m \<Rightarrow> n_generation n \<le> m)"
proof -
  let ?I = "\<lambda>s. mem.bounded_ledger X a0 sc s \<and> mem.capped_ledger sc s"
  have keeps: "?I s'" if "?I s" "driven a0 sc (mem_entries s) e" "mem.effect X w e s s'" "v_policy w = default_evaluate X"
    for w e s s'
  proof -
    have "scope_gate (v_policy w)" using that(4) default_gate.scope_gate_axioms by simp
    then show ?thesis
      using mem.effect_contained [OF that(3) assms(5) _ driven_governed [OF that(2)]]
        mem.effect_capped [OF that(3,4,2)] that(1) by blast
  qed
  have "mem.effect X v (E_Root a0 sc t) mem_new s1"
    using assms(1) by (intro mem.exec_has_effect [OF assms(3)]) (simp_all add: op_map_def)
  then have one: "?I s1"
    by (rule keeps [rotated 2]) (simp_all add: assms(4) mem.bounded_empty mem.capped_ledger_def driven_def)
  have "mem.later (fst (s1, b)) (fst (s2, b')) \<and> ?I (fst (s2, b')) \<and> (\<forall>c \<in># T. governed_driver X (fst c) \<and>
      mem.governed_task X (ed_veh (fst c)) ((=) sc) (fst (s2, b')) (Await (snd c)))"
  proof (rule mem.parallel_invariant [OF assms(2)])
    show "mem_wf (fst (s1, b))" "?I (fst (s1, b))" using one by (simp_all add: mem.capped_ledger_def)
  next
    fix d :: "(('a, 'b) mem_inner, 'd, 'a, 'b, 'c) evolution_driver" assume "governed_driver X d"
    then show "evolution_store (mem_store X) mem_wf mem_entries im_head (ed_selector d) \<and>
        ed_ledger d = mem_store X \<and> v_ledger (ed_veh d) = mem_store X"
      using evolution_store.intro [OF mem_contract] by (auto simp: governed_driver_def)
  next
    fix s s' :: "('a, 'b) mem_inner" assume "?I s" "mem.untouched s s'"
    then show "?I s'"
      by (simp add: mem.bounded_ledger_def mem.sound_ledger_def mem.capped_ledger_def mem.untouched_def)
  next
    fix d :: "(('a, 'b) mem_inner, 'd, 'a, 'b, 'c) evolution_driver" and e s s'
    assume a: "governed_driver X d" "?I s" "valid_cycle ((=) sc) (mem_entries s) e" "mem.effect X (ed_veh d) e s s'"
    have "driven a0 sc (mem_entries s) e" "v_policy (ed_veh d) = default_evaluate X"
      using a(1,3) by (simp_all add: governed_driver_def driven_def)
    then show "?I s'" by (rule keeps [OF a(2) _ a(4)])
  qed
  then have "bounded_node X a0 sc n" "sound_node X n" "capped_node sc n"
    using assms(6) by (auto simp: mem.bounded_ledger_def mem.sound_ledger_def mem.capped_ledger_def)
  then show ?thesis
    using assms(7) by (simp add: bounded_node_def sound_node_def capped_node_def within_cap_def)
qed

text \<open>Two generations of the sample driver, the second one still in flight.\<close>

theorem parallel_evolution_stays_in_scope_witness:
  "\<exists>n s T H. parallel (demo_ext True) (governed_driver (demo_ext True)) ((=) scope_default)
       (demo_ledger, False) (s, False) T H \<and> size T = 1 \<and> mem_entries s = [demo_parent, n] \<and>
     set (capability_sbom (demo_ext True) (n_artifact n)) \<subseteq> {''tool:a'', ''mcp:files''}"
proof -
  let ?X = "demo_ext True" and ?a = "artifact_new (demo_man [''a''])" and ?d = "demo_driver False False"
  let ?D = "governed_driver ?X"
  have d: "?D ?d"
    unfolding demo_driver_def
    by (rule stock_governed [where E = demo_entropy and seed = None and X' = ?X]) (simp_all add: stock_selectors_def)
  obtain n s where run: "driver_run ?X ?d ((=) scope_default) (demo_ledger, False) (s, False)"
    and e: "mem_entries s = [demo_parent, n]" and st: "n_status n = Promoted"
    by (rule demo_governed_run)
  obtain H where one: "parallel ?X ?D ((=) scope_default) (demo_ledger, False) (s, False) {#} H"
    using driver_run_parallel [where D = ?D, OF run d] by blast
  obtain m where "generation_task ?X ?d (intent_new ''tighten'') scope_default context_new ''t'' = Await m"
    by (rule that [OF generation_access])
  note two = parallel.start [OF one d refl this]
  have root: "commit_root ?X (demo_veh 1) ?a scope_default ''2026-01-01T00:00:00Z'' mem_new = (Inr demo_parent, demo_ledger)"
    using demo_commit_root by (auto dest: op_map_cases)
  have "set (capability_sbom ?X (n_artifact n)) \<subseteq> set (capability_sbom ?X ?a) \<union> scope_capabilities scope_default"
    using parallel_evolution_stays_in_scope [OF root two _ _ demo_crypto_laws _ st] e by simp
  also have "\<dots> \<subseteq> {''tool:a'', ''mcp:files''}"
    by (simp add: capability_set_def tool_capability_def artifact_new_def scope_capabilities_def scope_default_def)
  finally show ?thesis using two e by (metis size_add_mset size_empty One_nat_def)
qed

end
