(* ===== verification/Veh_Waitfree.thy ===== *)
theory Veh_Waitfree
  imports Veh_Atomicity Veh_Parallel
begin

text \<open>
  How long a call in flight takes and what it leaves behind when its host drops it: each method of the
  runner reads the ledger a fixed number of times and changes it, if at all, in its last access. The
  evaluator, the mutator and the sandbox are taken to answer, and an access to take its lock.
\<close>

section \<open>Calls that only read before their last access\<close>

text \<open>At most \<open>k\<close> accesses, whatever ledger each one finds.\<close>

fun within :: "nat \<Rightarrow> ('s, 'a) task \<Rightarrow> bool" where
  "within k (Done r) \<longleftrightarrow> True"
| "within 0 (Await m) \<longleftrightarrow> False"
| "within (Suc k) (Await m) \<longleftrightarrow> (\<forall>s. within k (fst (m s)))"

text \<open>An access that does not complete the task leaves the ledger as it found it.\<close>

fun reads_first :: "nat \<Rightarrow> ('s, 'a) task \<Rightarrow> bool" where
  "reads_first k (Done r) \<longleftrightarrow> True"
| "reads_first 0 (Await m) \<longleftrightarrow> False"
| "reads_first (Suc k) (Await m) \<longleftrightarrow>
     (\<forall>s. reads_first k (fst (m s)) \<and> (\<forall>m'. fst (m s) = Await m' \<longrightarrow> snd (m s) = s))"

lemma reads_first_within: "reads_first k t \<Longrightarrow> within k t"
  by (induction k t rule: reads_first.induct) auto

lemma reads_first_mono: "reads_first k t \<Longrightarrow> k \<le> l \<Longrightarrow> reads_first l t"
proof (induction k t arbitrary: l rule: reads_first.induct)
  case (3 k m)
  then obtain l' where "l = Suc l'" "k \<le> l'" by (cases l) auto
  then show ?case using 3 by auto
qed simp_all

lemma reads_first_single: "single t \<Longrightarrow> reads_first (Suc 0) t"
  by (cases t) (auto simp: single_def, (metis fst_conv reads_first.simps(1) task.distinct(1))+)

lemma reads_first_read: "(\<And>s. reads_first k (f s)) \<Longrightarrow> reads_first (Suc k) (Await (\<lambda>s. (f s, s)))"
  by simp

lemma within_mono: "within k t \<Longrightarrow> k \<le> l \<Longrightarrow> within l t"
proof (induction k t arbitrary: l rule: within.induct)
  case (3 k m)
  then obtain l' where "l = Suc l'" "k \<le> l'" by (cases l) auto
  then show ?case using 3 by auto
qed simp_all

lemma within_bind: "within k t \<Longrightarrow> (\<And>x. within l (f x)) \<Longrightarrow> within (k + l) (task_bind t f)"
proof (induction k t rule: within.induct)
  case (1 k r)
  then show ?case using within_mono [of l _ "k + l"] by (cases r) auto
qed auto

lemma within_then: "within k t \<Longrightarrow> (\<And>x. within l (f x)) \<Longrightarrow> within (k + l) (task_then t f)"
proof (induction k t rule: within.induct)
  case (1 k r)
  then have "within (k + l) (f r)" for r using within_mono [of l "f r" "k + l"] by simp
  then show ?case by (cases r) simp_all
qed auto

lemma within_lift: "within k t \<Longrightarrow> within k (task_lift t)"
  by (induction k t rule: within.induct) (auto simp: split_beta)

lemma within_read: "(\<And>s. within k (f s)) \<Longrightarrow> within (Suc k) (Await (\<lambda>s. (f s, s)))"
  by simp

lemma within_single: "single t \<Longrightarrow> within (Suc 0) t"
  by (rule reads_first_within [OF reads_first_single])

lemma within_await: "within (Suc 0) (await m)"
  by (rule within_single) simp

text \<open>The answer of a task that finds the ledger in the given states at its coming accesses.\<close>

fun found :: "('s, 'a) task \<Rightarrow> 's list \<Rightarrow> 'a res option" where
  "found (Done r) ss = Some r"
| "found (Await m) [] = None"
| "found (Await m) (s # ss) = found (fst (m s)) ss"

lemma within_found: "within k t \<Longrightarrow> k \<le> length ss \<Longrightarrow> \<exists>r. found t ss = Some r"
proof (induction k t arbitrary: ss rule: within.induct)
  case (3 k m)
  then obtain s ss' where "ss = s # ss'" by (cases ss) auto
  then show ?case using 3 by simp
qed auto


section \<open>The methods\<close>

fun accesses :: "('m, 'n, 'k) event \<Rightarrow> nat" where
  "accesses (E_Root a sc t) = 1"
| "accesses (E_Cycle inp) = 1"
| "accesses (E_Resume p key) = 1"
| "accesses (E_Rollback_To i) = 2"
| "accesses (E_Commit_Rollback i t) = 4"

lemma reads_first_rollback_to: "reads_first 2 (veh_task X v (E_Rollback_To i))"
  unfolding rollback_to_access numeral_2_eq_2
  by (intro reads_first_read) (auto intro!: reads_first_single single_map split: sum.split)

lemma reads_first_commit_rollback: "reads_first 4 (veh_task X v (E_Commit_Rollback i t))"
proof -
  have "single (rollback_from X v i t target parent)" for target parent
    unfolding rollback_from_def by (intro single_bind_local single_map single_sign_and_append)
  then have "reads_first (Suc 0) (rollback_from X v i t target parent)" for target parent
    by (rule reads_first_single)
  then have "reads_first (Suc (Suc (Suc (Suc 0)))) (veh_task X v (E_Commit_Rollback i t))"
    unfolding commit_rollback_access
    by (intro reads_first_read) (auto split: sum.split option.split)
  moreover have "4 = Suc (Suc (Suc (Suc 0)))" by simp
  ultimately show ?thesis by (simp only:)
qed

lemma reads_first_veh_task: "reads_first (accesses e) (veh_task X v e)"
proof (cases e)
  case (E_Root a sc t)
  show ?thesis unfolding E_Root accesses.simps One_nat_def by (rule reads_first_single [OF single_commits(1)])
next
  case (E_Cycle inp)
  show ?thesis unfolding E_Cycle accesses.simps One_nat_def by (rule reads_first_single [OF single_commits(2)])
next
  case (E_Resume p key)
  show ?thesis unfolding E_Resume accesses.simps One_nat_def by (rule reads_first_single [OF single_commits(3)])
next
  case (E_Rollback_To i)
  show ?thesis unfolding E_Rollback_To accesses.simps by (rule reads_first_rollback_to)
next
  case (E_Commit_Rollback i t)
  show ?thesis unfolding E_Commit_Rollback accesses.simps by (rule reads_first_commit_rollback)
qed

lemma reads_first_access:
  assumes "reads_first k (Await m)" and "m s = (Await m', s')"
  shows "s' = s \<and> reads_first k (Await m')"
proof -
  obtain j where "k = Suc j" using assms(1) by (cases k) auto
  then have "reads_first j (Await m')" "s' = s" using assms by (auto dest: spec [of _ s])
  then show ?thesis using reads_first_mono \<open>k = Suc j\<close> by (metis le_SucI order_refl)
qed

lemma interleaved_reads_first:
  "interleaved X v G s0 s T P H \<Longrightarrow> \<forall>c \<in># T. reads_first (accesses (fst c)) (Await (snd c))"
proof (induction rule: interleaved.induct)
  case (call s T P H e m)
  then show ?case using reads_first_veh_task [of e X v] by simp
next
  case (access s e m T P H m' s')
  then show ?case using reads_first_access [of "accesses e" m s m' s'] by simp
qed simp_all

text \<open>A generation reads twice, enforces, cycles and tears down.\<close>

lemma within_generation:
  fixes d :: "('s, 'b, 'm, 'n, 'k) evolution_driver"
  shows "within 5 (generation_task X d intent scope ctx created)"
proof -
  have "within (Suc 0 + (Suc 0 + 0)) (cycle_and_teardown_task X d inp)" for inp
    unfolding cycle_and_teardown_task_def
    by (intro within_then within_lift within_single [OF single_run_cycle] within_await) simp
  then have "within (Suc 0 + (Suc 0 + (Suc 0 + 0))) (task_bind (await m) (\<lambda>_. cycle_and_teardown_task X d inp))"
    for m :: "('s \<times> 'b, unit) op" and inp
    by (intro within_bind within_await)
  then have "within (Suc (Suc (Suc 0 + (Suc 0 + (Suc 0 + 0))))) (generation_task X d intent scope ctx created)"
    unfolding generation_access
    by (intro within_read) (simp split: sum.split)
  then show ?thesis by (simp add: eval_nat_numeral)
qed

lemma generation_answers: "5 \<le> length sts \<Longrightarrow> \<exists>r. found (generation_task X d intent scope ctx created) sts = Some r"
  by (rule within_found [OF within_generation])


section \<open>Properties\<close>

text \<open>
  C13: A call in flight cannot be starved and can be dropped: whatever ledger the others leave it at each
  of its coming accesses, it has its answer after at most one of them for a root commit, a cycle or a
  resumption, two for \<open>rollback_to\<close> and four for a signed rollback; and an access that does not give
  the answer leaves the ledger as it found it, so a call that its host drops half-way has changed
  nothing. The evaluator and the locks are taken to answer.
\<close>

theorem calls_wait_free:
  assumes "interleaved X v G s0 s (add_mset (e, m) T) P H"
  shows "(\<forall>ss. accesses e \<le> length ss \<longrightarrow> (\<exists>r. found (Await m) ss = Some r)) \<and>
     (\<forall>m' st st'. m st = (Await m', st') \<longrightarrow> st' = st)"
proof -
  have r: "reads_first (accesses e) (Await m)"
    using interleaved_reads_first [OF assms] by simp
  then show ?thesis
    using within_found [OF reads_first_within [OF r]] reads_first_access [OF r] by blast
qed

text \<open>A \<open>rollback_to\<close> that has read its target.\<close>

theorem calls_wait_free_witness:
  "\<exists>m. interleaved (demo_ext True) (demo_veh 1) (\<lambda>_ _. True) mem_new demo_ledger
       {#(E_Rollback_To (n_agent_id demo_parent), m)#} {#} [(demo_root_event, Inr (R_Node demo_parent))] \<and>
     (\<exists>r. found (Await m) [demo_ledger, mem_new] = Some r)"
proof -
  let ?X = "demo_ext True" and ?v = "demo_veh 1" and ?i = "n_agent_id demo_parent"
  have "rollback_target_node ?X ?v ?i demo_ledger = Inr demo_parent"
    by (simp add: mem.rollback_node_iff)
  from interleaved_rollback_read [OF demo_root_call [where G = "\<lambda>_ _. True", OF TrueI] TrueI this]
  obtain m where run: "interleaved ?X ?v (\<lambda>_ _. True) mem_new demo_ledger {#(E_Rollback_To ?i, m)#} {#}
        [(demo_root_event, Inr (R_Node demo_parent))]" by blast
  have "accesses (E_Rollback_To ?i :: (demo_manifest, demo_num, char) event) \<le> length [demo_ledger, mem_new]" by simp
  then show ?thesis using calls_wait_free [OF run] run by blast
qed

end
