(* ===== verification/Veh_Examples.thy ===== *)
theory Veh_Examples
  imports Veh_Evolution Veh_Limits Veh_Dot
begin

text \<open>
  The programs of \<^verbatim>\<open>examples\<close>, \<open>main\<close> by \<open>main\<close>: what each calls, in order, and what it prints. The
  ledger behind the shared \<open>Arc\<close> and the lines printed so far are the state; the manifest parser of
  rig-compose and the generated keys are arguments. A line keeps the arguments of its format string.
  The properties show that the programs run to their end and print what they are written to show.
\<close>

section \<open>The main functions' effects\<close>

text \<open>\<open>anyhow::Error\<close> holds an error of the crate or of the YAML parser.\<close>

datatype any_error = Veh_Error veh_error | Yaml_Error string

datatype line =
    Root_Line agent_id
  | Promoted_Line agent_id f64
  | Promoted_Event agent_id u32 f64
  | Rejected_Line agent_id string
  | Awaiting_Line string
  | Approved_Line agent_id
  | Head_Line "agent_id option"
  | Size_Event nat
  | Dot_Line string

type_synonym ('s, 'a) program = "'s \<times> line list \<Rightarrow> (any_error + 'a) \<times> ('s \<times> line list)"

definition prog_bind :: "('s, 'a) program \<Rightarrow> ('a \<Rightarrow> ('s, 'b) program) \<Rightarrow> ('s, 'b) program" where
  "prog_bind m f st = (case m st of (Inl e, st') \<Rightarrow> (Inl e, st') | (Inr x, st') \<Rightarrow> f x st')"

text \<open>A call on the ledger followed by \<open>?\<close>, a parse followed by \<open>?\<close> or \<open>unwrap\<close>, and a printed line.\<close>

definition call :: "('s, 'a) op \<Rightarrow> ('s, 'a) program" where
  "call m = (\<lambda>(s, out). case m s of (r, s') \<Rightarrow> (map_err Veh_Error r, (s', out)))"

definition parsed :: "string + 'a \<Rightarrow> ('s, 'a) program" where
  "parsed r = (\<lambda>st. (map_err Yaml_Error r, st))"

definition unwrapped :: "string + 'a \<Rightarrow> ('s, 'a) program" where
  "unwrapped r = (\<lambda>st.
     (map_err (\<lambda>_. Veh_Error (Panic ''called `Result::unwrap()` on an `Err` value'')) r, st))"

definition println :: "line \<Rightarrow> ('s, unit) program" where
  "println l = (\<lambda>(s, out). (Inr (), (s, out @ [l])))"

lemma prog_bind_simps [simp]:
  "m st = (Inl e, st') \<Longrightarrow> prog_bind m f st = (Inl e, st')"
  "m st = (Inr x, st') \<Longrightarrow> prog_bind m f st = f x st'"
  by (simp_all add: prog_bind_def)

lemma program_simps [simp]:
  "m s = (r, s') \<Longrightarrow> call m (s, out) = (map_err Veh_Error r, (s', out))"
  "parsed (Inr x) st = (Inr x, st)" "unwrapped (Inr x) st = (Inr x, st)"
  "println l (s, out) = (Inr (), (s, out @ [l]))"
  by (simp_all add: call_def parsed_def unwrapped_def println_def)


section \<open>The programs\<close>

text \<open>The manifests the programs parse: a name and a list of local tools.\<close>

definition yaml_text :: "string \<Rightarrow> string list \<Rightarrow> string" where
  "yaml_text name tools = ''name: '' @ name @ nl @
     (if tools = [] then ''tools: []'' @ nl
      else ''tools:'' @ nl @ concat (map (\<lambda>t. ''  - kind: local'' @ nl @ ''    name: '' @ t @ nl) tools))"

text \<open>\<^verbatim>\<open>veh_loop.rs\<close>: genesis, one cycle, and the out-of-band approval if the gate asks for it.\<close>

definition veh_loop_veh :: "('m, 'n, 'k) ext \<Rightarrow> 'k \<Rightarrow> (('m, 'n) mem_inner, 'm, 'n, 'k) veh" where
  "veh_loop_veh X key =
     with_strict_improvement (veh_new X (mem_store X) (stub_evaluator (F64 0x3FE4CCCCCCCCCCCD)) key) False"

definition veh_loop_scope :: allowed_scope where
  "veh_loop_scope = scope_default\<lparr>sc_allowed_tools := [''search'', ''summarize'']\<rparr>"

definition veh_loop_cycle :: "'m agent_artifact \<Rightarrow> ('m, 'n) agent_node \<Rightarrow> ('m, 'n) cycle_inputs" where
  "veh_loop_cycle candidate root =
     \<lparr>cy_parent = root,
      cy_intent = with_expected_improvement
        (with_rationale (intent_new ''add_summarize_tool'')
          ''compress long retrieval results before answer synthesis'') (F64 0x3FA999999999999A),
      cy_candidate = candidate, cy_allowed_scope = veh_loop_scope,
      cy_created_at = ''2026-05-11T00:01:00Z''\<rparr>"

definition veh_loop_main ::
  "('m, 'n, 'k) ext \<Rightarrow> (string \<Rightarrow> string + 'm) \<Rightarrow> 'k \<Rightarrow> 'k
     \<Rightarrow> (any_error + unit) \<times> (('m, 'n) mem_inner \<times> line list)" where
  "veh_loop_main X from_yaml key approver =
     (let ledger = mem_store X; veh = veh_loop_veh X key in
      prog_bind (parsed (from_yaml (yaml_text ''root_agent'' [''search'']))) (\<lambda>root_manifest.
      prog_bind (call (commit_root X veh (artifact_new root_manifest) veh_loop_scope ''2026-05-11T00:00:00Z''))
        (\<lambda>root.
      prog_bind (println (Root_Line (n_agent_id root))) (\<lambda>_.
      prog_bind (parsed (from_yaml (yaml_text ''candidate'' [''search'', ''summarize'']))) (\<lambda>candidate_manifest.
      prog_bind (call (run_cycle X veh (veh_loop_cycle (artifact_new candidate_manifest) root))) (\<lambda>outcome.
      prog_bind
        (case outcome of
           Cycle_Promoted node eval \<Rightarrow> println (Promoted_Line (n_agent_id node) (er_score eval))
         | Cycle_Rejected node reason \<Rightarrow> println (Rejected_Line (n_agent_id node) reason)
         | Awaiting_Approval pending \<Rightarrow>
             prog_bind (println (Awaiting_Line (pending_reason pending))) (\<lambda>_.
             prog_bind (call (resume_with_approval X veh pending approver)) (\<lambda>promoted.
             println (Approved_Line (n_agent_id promoted))))) (\<lambda>_.
      prog_bind (call (op_lift (ls_head ledger))) (\<lambda>head.
      println (Head_Line head)))))))) (mem_new, []))"

text \<open>\<^verbatim>\<open>evolution_loop.rs\<close>: genesis, and one generation of a driver.\<close>

definition evolution_loop_veh :: "('m, 'n, 'k) ext \<Rightarrow> 'k \<Rightarrow> (('m, 'n) mem_inner, 'm, 'n, 'k) veh" where
  "evolution_loop_veh X key =
     with_strict_improvement (veh_new X (mem_store X) (stub_evaluator (F64 0x3FE6666666666666)) key) False"

definition evolution_loop_driver ::
  "('m, 'n, 'k) ext \<Rightarrow> entropy \<Rightarrow> 'k \<Rightarrow> 'm agent_artifact
     \<Rightarrow> (('m, 'n) mem_inner, unit, 'm, 'n, 'k) evolution_driver" where
  "evolution_loop_driver X E key candidate =
     driver_new (evolution_loop_veh X key) (mem_store X) (score_child_prop_select X E (Some 7))
       (static_mutator candidate) noop_sandbox"

definition evolution_loop_main ::
  "('m, 'n, 'k) ext \<Rightarrow> entropy \<Rightarrow> (string \<Rightarrow> string + 'm) \<Rightarrow> 'k
     \<Rightarrow> (any_error + unit) \<times> (('m, 'n) mem_inner \<times> line list)" where
  "evolution_loop_main X E from_yaml key =
     (let ledger = mem_store X; veh = evolution_loop_veh X key in
      prog_bind (parsed (from_yaml (yaml_text ''root'' []))) (\<lambda>root.
      prog_bind (call (commit_root X veh (artifact_new root) scope_default ''2026-05-11T00:00:00Z'')) (\<lambda>_.
      prog_bind (parsed (from_yaml (yaml_text ''v1'' []))) (\<lambda>candidate.
      let driver = evolution_loop_driver X E key (artifact_new candidate) in
      prog_bind (call (\<lambda>s. case run_generation X driver (intent_new ''explore_branch'') scope_default
                   (with_iterations_left context_new 1) ''2026-05-11T00:01:00Z'' (s, ()) of
                   (r, (s', _)) \<Rightarrow> (r, s'))) (\<lambda>outcome.
      prog_bind
        (case outcome of
           Cycle_Promoted node eval \<Rightarrow>
             println (Promoted_Event (n_agent_id node) (n_generation node) (er_score eval))
         | Cycle_Rejected node reason \<Rightarrow> println (Rejected_Line (n_agent_id node) reason)
         | Awaiting_Approval pending \<Rightarrow> println (Awaiting_Line (pending_reason pending))) (\<lambda>_.
      prog_bind (call (op_lift (ls_nodes ledger))) (\<lambda>nodes.
      println (Size_Event (length nodes)))))))) (mem_new, []))"

text \<open>\<^verbatim>\<open>dot_export.rs\<close>: genesis, one cycle whose outcome is not looked at, and the graph.\<close>

definition dot_export_veh :: "('m, 'n, 'k) ext \<Rightarrow> 'k \<Rightarrow> (('m, 'n) mem_inner, 'm, 'n, 'k) veh" where
  "dot_export_veh X key = veh_new X (mem_store X) (stub_evaluator (F64 0x3FE999999999999A)) key"

definition dot_export_cycle :: "'m agent_artifact \<Rightarrow> ('m, 'n) agent_node \<Rightarrow> ('m, 'n) cycle_inputs" where
  "dot_export_cycle candidate root =
     \<lparr>cy_parent = root, cy_intent = intent_new ''tighten_preamble'', cy_candidate = candidate,
      cy_allowed_scope = scope_default, cy_created_at = ''2026-05-11T00:01:00Z''\<rparr>"

definition dot_export_main ::
  "('m, 'n, 'k) ext \<Rightarrow> (string \<Rightarrow> string + 'm) \<Rightarrow> 'k
     \<Rightarrow> (any_error + unit) \<times> (('m, 'n) mem_inner \<times> line list)" where
  "dot_export_main X from_yaml key =
     (let ledger = mem_store X; veh = dot_export_veh X key in
      prog_bind (unwrapped (from_yaml (yaml_text ''root'' []))) (\<lambda>manifest.
      prog_bind (call (commit_root X veh (artifact_new manifest) scope_default ''2026-05-11T00:00:00Z'')) (\<lambda>root.
      prog_bind (unwrapped (from_yaml (yaml_text ''v2'' []))) (\<lambda>candidate_manifest.
      prog_bind (call (run_cycle X veh (dot_export_cycle (artifact_new candidate_manifest) root))) (\<lambda>_.
      prog_bind (call (op_lift (export_dot X ledger))) (\<lambda>dot.
      println (Dot_Line dot)))))) (mem_new, []))"


section \<open>A root and one cycle\<close>

text \<open>
  What the three programs share: on a fresh ledger, a root is committed, and a cycle from it whose
  candidate stays within the root's scope is promoted, unless the message it signs has the SHA-256
  digest of the root's. \<open>cycle_collision\<close> says so of the two messages the cycle may sign.
\<close>

definition cycle_collision ::
  "('m, 'n, 'k) ext \<Rightarrow> ('s, 'm, 'n, 'k) veh \<Rightarrow> ('m, 'n) commit_inputs \<Rightarrow> ('m, 'n) cycle_inputs \<Rightarrow> bool" where
  "cycle_collision X v r inp \<longleftrightarrow> (\<exists>g diff eval.
     u32_succ X (n_generation (cy_parent inp)) = Inr g \<and>
     manifest_diff X (n_artifact (cy_parent inp)) (cy_candidate inp) = Inr diff \<and>
     ev_evaluate (v_evaluator v) (cy_candidate inp) = Inr eval \<and>
     (sha_collision X (cycle_promoted_inputs X inp g diff eval) (v_signing_key v) r (v_signing_key v) \<or>
      sha_collision X (cycle_rejected_inputs X inp g diff eval) (v_signing_key v) r (v_signing_key v)))"

lemma genesis_root:
  assumes "json_text_laws X" and "manifest_laws X" and "v_ledger v = mem_store X"
  obtains root s where "commit_root X v a sc t mem_new = (Inr root, s)"
    and "sign_node X (root_inputs a sc t) (v_signing_key v) = Inr root"
    and "mem_wf s" and "mem_entries s = [root]"
proof -
  have "wf_inputs (root_inputs a sc t)"
    by (simp add: wf_inputs_def root_inputs_def)
  then obtain root s where c: "sign_and_append X v (root_inputs a sc t) (v_signing_key v) mem_new = (Inr root, s)"
    by (rule sign_and_append_progress [OF assms(1,2) _ assms(3) mem_new_wf(1)]) simp_all
  then have "commit_root X v a sc t mem_new = (Inr root, s)"
    by (simp add: commit_root_def)
  then show thesis
    using mem.sign_and_append_ok [OF assms(3) mem_new_wf(1) c] by (auto intro!: that simp: mem.committed_def)
qed

text \<open>The ledger of a root and its promoted child, as both commits leave it.\<close>

definition evolved :: "('m, 'n, 'k) ext \<Rightarrow> ('m, 'n) agent_node \<Rightarrow> ('m, 'n) agent_node \<Rightarrow> ('m, 'n) mem_inner \<Rightarrow> bool" where
  "evolved X root child s \<longleftrightarrow> mem_entries s = [root, child] \<and> im_head s = Some (n_agent_id child) \<and>
     n_parent_id root = None \<and> n_parent_id child = Some (n_agent_id root) \<and>
     n_generation root = 0 \<and> n_generation child = 1 \<and> n_status root = Promoted \<and> n_status child = Promoted \<and>
     verify_node X root = Inr () \<and> verify_node X child = Inr ()"

lemma genesis_cycle:
  assumes laws: "json_text_laws X" "json_num_laws X" "manifest_laws X" "crypto_laws X"
    and v: "v_ledger v = mem_store X" "v_policy v = default_evaluate X"
    and root: "sign_node X (root_inputs a sc t) (v_signing_key v) = Inr root"
      "mem_wf s" "mem_entries s = [root]" "cy_parent inp = root"
    and scope: "sc_max_generation sc = None" "sc_gated_capabilities sc = []"
      "capability_set X (cy_candidate inp) \<subseteq> capability_set X a \<union> scope_capabilities sc"
    and eval: "ev_evaluate (v_evaluator v) (cy_candidate inp) = Inr eval" "wf_json (er_details eval)"
    and intent: "wf_intent (cy_intent inp)"
    and no: "\<not> cycle_collision X v (root_inputs a sc t) inp"
  shows "\<exists>child s'. run_cycle X v inp s = (Inr (Cycle_Promoted child eval), s') \<and> evolved X root child s'"
proof -
  let ?r = "root_inputs a sc t" and ?k = "v_signing_key v"
  note r = sign_node_simps [OF root(1)]
  have wf_r: "wf_inputs ?r"
    by (simp add: wf_inputs_def root_inputs_def)
  have gen: "n_generation root = 0" and "n_eval_results root = None"
    using r by (simp_all add: root_inputs_def)
  then have imp: "not_improved X (v_strict v) (cy_parent inp) eval = None"
    by (simp add: not_improved_def recorded_score_def root(4))
  have gate: "gate_decision X v inp = Inr Approve"
    unfolding v(2) by (rule approves_covered) (use r scope root(4) in \<open>simp_all add: root_inputs_def\<close>)
  have new: "n_agent_id n \<notin> set (ids (mem_entries s))"
    if "wf_inputs ci" "ci_parent_id ci \<noteq> None" "\<not> sha_collision X ci ?k ?r ?k" "sign_node X ci ?k = Inr n" for ci n
  proof -
    have "\<not> same_content X ci ?r"
      using that(2) by (auto simp: same_content_def root_inputs_def)
    then have "n_agent_id n \<noteq> n_agent_id root"
      using signed_same_id [OF laws that(1) wf_r that(4) root(1)] that(3) by blast
    then show ?thesis by (simp add: root(3))
  qed
  have child_inputs: "wf_inputs (cycle_promoted_inputs X inp g d eval)" "wf_inputs (cycle_rejected_inputs X inp g d eval)"
      "ci_parent_id (cycle_promoted_inputs X inp g d eval) \<noteq> None" "ci_parent_id (cycle_rejected_inputs X inp g d eval) \<noteq> None"
    for g d
    using intent eval(2) by simp_all (simp_all add: promoted_inputs_def rejected_inputs_def)
  have fresh: "\<forall>g d n. u32_succ X (n_generation (cy_parent inp)) = Inr g \<longrightarrow>
       manifest_diff X (n_artifact (cy_parent inp)) (cy_candidate inp) = Inr d \<longrightarrow>
       sign_node X (cycle_promoted_inputs X inp g d eval) ?k = Inr n \<or>
       sign_node X (cycle_rejected_inputs X inp g d eval) ?k = Inr n \<longrightarrow>
       n_agent_id n \<notin> set (ids (mem_entries s))"
    using no eval(1) new [OF child_inputs(1,3)] new [OF child_inputs(2,4)]
    unfolding cycle_collision_def by blast
  have "\<exists>child. fst (run_cycle X v inp s) = Inr (Cycle_Promoted child eval)"
    using run_cycle_progress [OF laws(1,3) v(1) root(2) intent _ eval gate fresh] gen imp root(4) by auto
  then obtain child s' where run: "run_cycle X v inp s = (Inr (Cycle_Promoted child eval), s')"
    by (metis prod.collapse)
  then have "evolved X root child s'"
  proof (cases rule: run_cycle_Inr)
    case (promoted diff ev g m)
    then have c: "mem.committed X (cycle_promoted_inputs X inp g diff eval) ?k s child s'"
      using mem.sign_and_append_ok [OF v(1) root(2)] by auto
    then have n: "sign_node X (cycle_promoted_inputs X inp g diff eval) ?k = Inr child"
      by (simp add: mem.committed_def)
    show ?thesis
      using c root(3,4) r gen u32_succ_Inr [OF promoted(6)] sign_node_simps [OF n]
        sign_node_verifies [OF laws(4) n] sign_node_verifies [OF laws(4) root(1)]
      by (auto simp: evolved_def mem.committed_def pushed_def promoted_inputs_def root_inputs_def)
  qed simp_all
  then show ?thesis using run by blast
qed


text \<open>The first two commits of a program, the second one's inputs depending on the root.\<close>

definition first_collision ::
  "('m, 'n, 'k) ext \<Rightarrow> ('s, 'm, 'n, 'k) veh \<Rightarrow> 'm agent_artifact \<Rightarrow> allowed_scope \<Rightarrow> string
     \<Rightarrow> (('m, 'n) agent_node \<Rightarrow> ('m, 'n) cycle_inputs) \<Rightarrow> bool" where
  "first_collision X v a sc t mk \<longleftrightarrow> (\<exists>root. sign_node X (root_inputs a sc t) (v_signing_key v) = Inr root \<and>
     cycle_collision X v (root_inputs a sc t) (mk root))"

lemma genesis:
  assumes laws: "json_text_laws X" "json_num_laws X" "manifest_laws X" "crypto_laws X"
    and v: "v_ledger v = mem_store X" "v_policy v = default_evaluate X"
      "ev_evaluate (v_evaluator v) c = Inr (from_score x)"
    and scope: "sc_max_generation sc = None" "sc_gated_capabilities sc = []"
      "capability_set X c \<subseteq> capability_set X a \<union> scope_capabilities sc"
    and mk: "\<And>root. cy_parent (mk root) = root" "\<And>root. cy_candidate (mk root) = c"
      "\<And>root. wf_intent (cy_intent (mk root))"
    and no: "\<not> first_collision X v a sc t mk"
  obtains root s1 child s2 where "commit_root X v a sc t mem_new = (Inr root, s1)" and "mem_wf s1"
    and "mem_entries s1 = [root]" and "n_valid_parent root"
    and "run_cycle X v (mk root) s1 = (Inr (Cycle_Promoted child (from_score x)), s2)"
    and "evolved X root child s2"
proof -
  obtain root s1 where root: "commit_root X v a sc t mem_new = (Inr root, s1)"
      "sign_node X (root_inputs a sc t) (v_signing_key v) = Inr root" "mem_wf s1" "mem_entries s1 = [root]"
    by (rule genesis_root [OF laws(1,3) v(1)])
  have "\<exists>child s'. run_cycle X v (mk root) s1 = (Inr (Cycle_Promoted child (from_score x)), s') \<and> evolved X root child s'"
    by (rule genesis_cycle [OF laws v(1,2) root(2-4) mk(1) scope(1,2)])
      (use scope(3) v(3) mk(2,3) no root(2) in \<open>auto simp: from_score_def first_collision_def\<close>)
  moreover have "n_valid_parent root"
    using sign_node_simps(6) [OF root(2)] by (simp add: root_inputs_def)
  ultimately show thesis using root that by blast
qed


section \<open>Properties\<close>

text \<open>The documented reading of such a manifest: its local tools, no servers and no delegates.\<close>

definition reads_tools ::
  "('m, 'n, 'k) ext \<Rightarrow> (string \<Rightarrow> string + 'm) \<Rightarrow> string \<Rightarrow> string list \<Rightarrow> 'm \<Rightarrow> bool" where
  "reads_tools X from_yaml name tools m \<longleftrightarrow>
     from_yaml (yaml_text name tools) = Inr m \<and> x_tools X m = map Local_Tool tools \<and>
     x_mcp_names X m = [] \<and> x_delegate_names X m = []"

lemma reads_toolsD:
  assumes "reads_tools X from_yaml name tools m"
  shows "from_yaml (yaml_text name tools) = Inr m"
    and "capability_set X (artifact_new m) = (\<lambda>t. ''tool:'' @ t) ` set tools"
  using assms
  by (auto simp: reads_tools_def capability_set_def tool_capability_def artifact_new_def image_image)

lemma veh_new_simps [simp]:
  "v_ledger (veh_new X l ev k) = l" "v_evaluator (veh_new X l ev k) = ev" "v_signing_key (veh_new X l ev k) = k"
  "v_policy (veh_new X l ev k) = default_evaluate X"
  by (simp_all add: veh_new_def)

lemma with_strict_simps [simp]:
  "v_ledger (with_strict_improvement v b) = v_ledger v" "v_evaluator (with_strict_improvement v b) = v_evaluator v"
  "v_signing_key (with_strict_improvement v b) = v_signing_key v" "v_policy (with_strict_improvement v b) = v_policy v"
  by (simp_all add: with_strict_improvement_def)

lemma stub_eval [simp]: "ev_evaluate (stub_evaluator x) a = Inr (from_score x)"
  by (simp add: stub_evaluator_def stub_evaluate_def)


text \<open>With one recorded node, a valid parent, every strategy proposes to evolve it.\<close>

lemma sole_parent:
  assumes "mem_wf s" and "mem_entries s = [root]" and "n_valid_parent root"
    and "sel \<in> set (stock_selectors X E seed)"
  shows "proposal (driver_new v (mem_store X) sel (static_mutator a) sb) intent ctx s = Inr (root, a)"
proof -
  note store = stock_store [OF assms(4), of X]
  have sel: "parent_selector sel" by (rule stock_selector [OF assms(4)])
  have "valid_ids (mem_entries s) \<noteq> {}" using assms(2,3) by (simp add: valid_ids_def)
  then obtain i where i: "sel (mem_store X) s = Inr i"
    using parent_selector.finds [OF sel, of "mem_store X" s "mem_entries s"] assms(2) by (auto simp: mem_nodes_def)
  obtain n where "ls_get (mem_store X) i s = Inr n" "n \<in> set (mem_entries s)"
    by (rule evolution_store.selected_parent [OF store assms(1) i])
  then show ?thesis
    using i assms(2) by (simp add: proposal_def static_mutator_def)
qed

text \<open>A reader of such manifests, and a digest that never collides.\<close>

definition demo_yaml :: "string \<Rightarrow> string + demo_manifest" where
  "demo_yaml doc =
     (case lines_of doc of
        [] \<Rightarrow> Inl ''missing field `name`''
      | first # rest \<Rightarrow>
          if take 6 first = ''name: ''
          then Inr \<lparr>dm_name = drop 6 first,
                    dm_tools = map (drop 10) (filter (\<lambda>l. take 10 l = ''    name: '') rest),
                    dm_mcp = [], dm_delegates = []\<rparr>
          else Inl ''missing field `name`'')"

lemma demo_lines:
  "lines_of (yaml_text ''root_agent'' [''search'']) =
     [''name: root_agent'', ''tools:'', ''  - kind: local'', ''    name: search'']"
  "lines_of (yaml_text ''candidate'' [''search'', ''summarize'']) =
     [''name: candidate'', ''tools:'', ''  - kind: local'', ''    name: search'', ''  - kind: local'',
      ''    name: summarize'']"
  "lines_of (yaml_text ''root'' []) = [''name: root'', ''tools: []'']"
  "lines_of (yaml_text ''v1'' []) = [''name: v1'', ''tools: []'']"
  by code_simp+

lemma demo_reads:
  "\<exists>m. reads_tools (demo_ext b) demo_yaml ''root_agent'' [''search''] m"
  "\<exists>m. reads_tools (demo_ext b) demo_yaml ''candidate'' [''search'', ''summarize''] m"
  "\<exists>m. reads_tools (demo_ext b) demo_yaml ''root'' [] m"
  "\<exists>m. reads_tools (demo_ext b) demo_yaml ''v1'' [] m"
  by (simp_all add: reads_tools_def demo_yaml_def demo_lines)

lemma demo_no_collision: "\<not> first_collision (demo_ext b) v a sc t mk"
  by (simp add: first_collision_def cycle_collision_def sha_collision_def)

text \<open>
  C33: The \<open>veh_loop\<close> program runs to its end: the added tool is on the root's allow-list, so it prints
  the root, the promoted candidate with its score, and the candidate as head, over a ledger of the root
  and its verified child, unless the message it signs for the child has the SHA-256 digest of the root's.
\<close>

theorem veh_loop_promotes:
  assumes "json_text_laws X" and "json_num_laws X" and "manifest_laws X" and "crypto_laws X"
    and "reads_tools X from_yaml ''root_agent'' [''search''] m"
    and "reads_tools X from_yaml ''candidate'' [''search'', ''summarize''] m'"
    and "\<not> first_collision X (veh_loop_veh X key) (artifact_new m) veh_loop_scope ''2026-05-11T00:00:00Z''
           (veh_loop_cycle (artifact_new m'))"
  shows "\<exists>root child s. veh_loop_main X from_yaml key approver =
     (Inr (), (s, [Root_Line (n_agent_id root), Promoted_Line (n_agent_id child) (F64 0x3FE4CCCCCCCCCCCD),
                   Head_Line (Some (n_agent_id child))])) \<and> evolved X root child s"
proof -
  note m = reads_toolsD [OF assms(5)] and m' = reads_toolsD [OF assms(6)]
  obtain root s1 child s2 where
      root: "commit_root X (veh_loop_veh X key) (artifact_new m) veh_loop_scope ''2026-05-11T00:00:00Z'' mem_new
        = (Inr root, s1)"
    and child: "run_cycle X (veh_loop_veh X key) (veh_loop_cycle (artifact_new m') root) s1
        = (Inr (Cycle_Promoted child (from_score (F64 0x3FE4CCCCCCCCCCCD))), s2)" "evolved X root child s2"
    by (rule genesis [OF assms(1-4) _ _ _ _ _ _ _ _ _ assms(7), where c = "artifact_new m'" and x = "F64 0x3FE4CCCCCCCCCCCD"])
      ((rule that; assumption)
        | simp add: veh_loop_veh_def veh_loop_scope_def veh_loop_cycle_def scope_default_def m(2) m'(2)
            scope_capabilities_def wf_intent_def with_expected_improvement_def with_rationale_def intent_new_def)+
  have "im_head s2 = Some (n_agent_id child)" using child(2) by (simp add: evolved_def)
  then have "veh_loop_main X from_yaml key approver =
     (Inr (), (s2, [Root_Line (n_agent_id root), Promoted_Line (n_agent_id child) (F64 0x3FE4CCCCCCCCCCCD),
                   Head_Line (Some (n_agent_id child))]))"
    by (simp add: veh_loop_main_def Let_def m(1) m'(1) root child(1) from_score_def mem_head_def)
  then show ?thesis using child(2) by blast
qed

theorem veh_loop_promotes_witness:
  "\<exists>root child s. veh_loop_main (demo_ext True) demo_yaml (CHR ''k'') (CHR ''a'') =
     (Inr (), (s, [Root_Line (n_agent_id root), Promoted_Line (n_agent_id child) (F64 0x3FE4CCCCCCCCCCCD),
                   Head_Line (Some (n_agent_id child))])) \<and> evolved (demo_ext True) root child s"
  using demo_reads(1,2) [of True]
    veh_loop_promotes [OF demo_json_text_laws demo_json_num_laws demo_manifest_laws demo_crypto_laws _ _
      demo_no_collision] by blast

text \<open>
  The \<open>evolution_loop\<close> program runs to its end: its driver selects the only node, promotes the
  mutator's candidate and logs its generation and score, and the ledger holds the root and its child,
  unless the two signed messages collide.
\<close>

theorem evolution_loop_promotes:
  assumes "json_text_laws X" and "json_num_laws X" and "manifest_laws X" and "crypto_laws X"
    and "reads_tools X from_yaml ''root'' [] m" and "reads_tools X from_yaml ''v1'' [] m'"
    and "\<not> first_collision X (evolution_loop_veh X key) (artifact_new m) scope_default ''2026-05-11T00:00:00Z''
           (\<lambda>root. generation_inputs (intent_new ''explore_branch'') scope_default ''2026-05-11T00:01:00Z'' root
              (artifact_new m'))"
  shows "\<exists>root child s. evolution_loop_main X E from_yaml key =
     (Inr (), (s, [Promoted_Event (n_agent_id child) 1 (F64 0x3FE6666666666666), Size_Event 2])) \<and>
     evolved X root child s"
proof -
  note m = reads_toolsD [OF assms(5)] and m' = reads_toolsD [OF assms(6)]
  obtain root s1 child s2 where
      root: "commit_root X (evolution_loop_veh X key) (artifact_new m) scope_default ''2026-05-11T00:00:00Z'' mem_new
        = (Inr root, s1)" "mem_wf s1" "mem_entries s1 = [root]" "n_valid_parent root"
    and child: "run_cycle X (evolution_loop_veh X key) (generation_inputs (intent_new ''explore_branch'') scope_default
          ''2026-05-11T00:01:00Z'' root (artifact_new m')) s1
        = (Inr (Cycle_Promoted child (from_score (F64 0x3FE6666666666666))), s2)" "evolved X root child s2"
    by (rule genesis [OF assms(1-4) _ _ _ _ _ _ _ _ _ assms(7), where c = "artifact_new m'" and x = "F64 0x3FE6666666666666"])
      ((rule that; assumption) | simp add: evolution_loop_veh_def scope_default_def generation_inputs_def m(2) m'(2))+
  let ?d = "evolution_loop_driver X E key (artifact_new m')"
  have "proposal ?d (intent_new ''explore_branch'') (with_iterations_left context_new 1) s1 = Inr (root, artifact_new m')"
    unfolding evolution_loop_driver_def
    by (rule sole_parent [OF root(2-4), where E = E and seed = "Some 7"]) (simp add: stock_selectors_def)
  then have gen: "run_generation X ?d (intent_new ''explore_branch'') scope_default (with_iterations_left context_new 1)
      ''2026-05-11T00:01:00Z'' (s1, ()) = (Inr (Cycle_Promoted child (from_score (F64 0x3FE6666666666666))), (s2, ()))"
    using child(1) by (simp add: run_generation_eq cycle_and_teardown_eq evolution_loop_driver_def)
  have "n_generation child = 1" "mem_entries s2 = [root, child]"
    using child(2) by (simp_all add: evolved_def)
  then have "evolution_loop_main X E from_yaml key =
     (Inr (), (s2, [Promoted_Event (n_agent_id child) 1 (F64 0x3FE6666666666666), Size_Event 2]))"
    by (simp add: evolution_loop_main_def Let_def m(1) m'(1) root(1) gen from_score_def mem_nodes_def call_def)
  then show ?thesis using child(2) by blast
qed

theorem evolution_loop_promotes_witness:
  "\<exists>root child s. evolution_loop_main (demo_ext True) demo_entropy demo_yaml (CHR ''k'') =
     (Inr (), (s, [Promoted_Event (n_agent_id child) 1 (F64 0x3FE6666666666666), Size_Event 2])) \<and>
     evolved (demo_ext True) root child s"
  using demo_reads(3,4) [of True]
    evolution_loop_promotes [OF demo_json_text_laws demo_json_num_laws demo_manifest_laws demo_crypto_laws _ _
      demo_no_collision] by blast

text \<open>
  The \<open>dot_export\<close> program runs to its end and prints the graph of the root, the promoted candidate one
  generation below it, and the edge between them.
\<close>

lemma dot_export_prints:
  assumes "json_text_laws X" and "json_num_laws X" and "manifest_laws X" and "crypto_laws X"
    and "reads_tools X from_yaml ''root'' [] m" and "reads_tools X from_yaml ''v2'' [] m'"
    and "\<not> first_collision X (dot_export_veh X key) (artifact_new m) scope_default ''2026-05-11T00:00:00Z''
           (dot_export_cycle (artifact_new m'))"
  shows "\<exists>root child s. dot_export_main X from_yaml key =
     (Inr (), (s, [Dot_Line (''digraph lineage {'' @ nl @
        dot_node_stmt (n_agent_id root) 0 ''promoted'' (take_chars 8 (n_agent_id root)) @
        dot_node_stmt (n_agent_id child) 1 ''promoted'' (take_chars 8 (n_agent_id child)) @
        dot_edge_stmt (n_agent_id root) (n_agent_id child) @ ''}'' @ nl)])) \<and>
     evolved X root child s"
proof -
  note m = reads_toolsD [OF assms(5)] and m' = reads_toolsD [OF assms(6)]
  obtain root s1 child s2 where
      root: "commit_root X (dot_export_veh X key) (artifact_new m) scope_default ''2026-05-11T00:00:00Z'' mem_new
        = (Inr root, s1)"
    and child: "run_cycle X (dot_export_veh X key) (dot_export_cycle (artifact_new m') root) s1
        = (Inr (Cycle_Promoted child (from_score (F64 0x3FE999999999999A))), s2)" "evolved X root child s2"
    by (rule genesis [OF assms(1-4) _ _ _ _ _ _ _ _ _ assms(7), where c = "artifact_new m'" and x = "F64 0x3FE999999999999A"])
      ((rule that; assumption) | simp add: dot_export_veh_def dot_export_cycle_def scope_default_def m(2) m'(2))+
  have "export_dot X (mem_store X) s2 = Inr (''digraph lineage {'' @ nl @
        dot_node_stmt (n_agent_id root) 0 ''promoted'' (take_chars 8 (n_agent_id root)) @
        dot_node_stmt (n_agent_id child) 1 ''promoted'' (take_chars 8 (n_agent_id child)) @
        dot_edge_stmt (n_agent_id root) (n_agent_id child) @ ''}'' @ nl)"
    using export_dot_entries [OF assms(2,3), of s2] child(2)
    by (simp add: evolved_def dot_entry_def status_name_def)
  then show ?thesis using child(2)
    by (intro exI [of _ root] exI [of _ child] exI [of _ s2])
      (simp add: dot_export_main_def Let_def m(1) m'(1) root child(1))
qed

end
