(* ===== verification/Veh_Tests.thy ===== *)
theory Veh_Tests
  imports Veh_Evidence Veh_Examples "HOL-Library.Sublist"
begin

text \<open>
  The unit tests inside \<^verbatim>\<open>src/artifact.rs\<close>, \<^verbatim>\<open>src/policy.rs\<close>, \<^verbatim>\<open>src/identity.rs\<close> and
  \<^verbatim>\<open>src/evidence.rs\<close>, as predicates over the model: a test holds when it neither panics on an \<open>unwrap\<close>
  nor fails an assertion. The property shows that they hold for every library with the documented
  behaviour, not only for the values a run of the tests happens to see.
\<close>

text \<open>\<open>unwrap\<close> and go on: an error is a panic, which fails the test.\<close>

definition unwrap_then :: "'e + 'a \<Rightarrow> ('a \<Rightarrow> bool) \<Rightarrow> bool" where
  "unwrap_then r p = (case r of Inl _ \<Rightarrow> False | Inr x \<Rightarrow> p x)"

lemma unwrap_then_simps [simp]: "unwrap_then (Inl e) p = False" "unwrap_then (Inr x) p = p x"
  by (simp_all add: unwrap_then_def)


section \<open>Canonical JSON\<close>

abbreviation json_int :: "('m, 'n, 'k) ext \<Rightarrow> u32 \<Rightarrow> 'n json" where
  "json_int X k \<equiv> JNumber (x_num_of_u32 X k)"

definition canonical_json_sorts_keys :: "('m, 'n, 'k) ext \<Rightarrow> bool" where
  "canonical_json_sorts_keys X \<longleftrightarrow>
     (let a = JObject (j_insert ''a'' (json_int X 2) (j_insert ''b'' (json_int X 1) []));
          b = JObject (j_insert ''b'' (json_int X 1) (j_insert ''a'' (json_int X 2) [])) in
      unwrap_then (canonical_json X a) (\<lambda>left. unwrap_then (canonical_json X b) (\<lambda>right. left = right)))"

definition canonical_json_no_whitespace :: "('m, 'n, 'k) ext \<Rightarrow> bool" where
  "canonical_json_no_whitespace X \<longleftrightarrow>
     (let v = JObject (j_insert ''k'' (JArray [json_int X 1, json_int X 2, json_int X 3]) []) in
      unwrap_then (canonical_json X v)
        (\<lambda>bytes. bytes = ''{'' @ [CHR 0x22] @ ''k'' @ [CHR 0x22] @ '':[1,2,3]}''))"

text \<open>The bindings from a rotated start, inserted one by one.\<close>

definition test_bindings :: "(string \<times> u32) list" where
  "test_bindings = [(''alpha'', 1), (''beta'', 2), (''gamma'', 3), (''delta'', 4), (''epsilon'', 5)]"

definition rotated_value :: "('m, 'n, 'k) ext \<Rightarrow> nat \<Rightarrow> 'n json" where
  "rotated_value X shift =
     (let map = foldl (\<lambda>map offset.
            let (k, v) = test_bindings ! ((shift + offset) mod length test_bindings)
            in j_insert k (json_int X v) map) [] [0..<length test_bindings] in
      JObject (j_insert ''list'' (JArray [json_int X 3, json_int X 1, json_int X 2])
        (j_insert ''outer'' (JObject map) [])))"

definition canonical_json_is_object_insertion_order_independent :: "('m, 'n, 'k) ext \<Rightarrow> bool" where
  "canonical_json_is_object_insertion_order_independent X \<longleftrightarrow>
     fst (foldl (\<lambda>(ok, reference) shift.
        case canonical_json X (rotated_value X shift) of
          Inl _ \<Rightarrow> (False, reference)
        | Inr bytes \<Rightarrow>
            (case reference of
               None \<Rightarrow> (ok, Some bytes)
             | Some r \<Rightarrow> (ok \<and> bytes = r, reference)))
       (True, None) [0..<length test_bindings])"


text \<open>The three documents of the manifest tests; a raw string starts with its line break.\<close>

definition quoted_x :: string where
  "quoted_x = ''command: [ '' @ [CHR 0x22] @ ''x'' @ [CHR 0x22] @ '' ]''"

definition sbom_yaml :: string where
  "sbom_yaml = nl @ ''name: demo'' @ nl @ ''tools:'' @ nl @
     ''  - kind: local'' @ nl @ ''    name: zeta'' @ nl @ ''  - kind: local'' @ nl @ ''    name: alpha'' @ nl @
     ''mcp_servers:'' @ nl @ ''  - name: mcp_b'' @ nl @ ''    '' @ quoted_x @ nl"

definition yaml_a :: string where
  "yaml_a = nl @ ''name: demo'' @ nl @ ''tools:'' @ nl @
     ''  - kind: local'' @ nl @ ''    name: alpha'' @ nl @ ''  - kind: local'' @ nl @ ''    name: zeta'' @ nl @
     ''mcp_servers:'' @ nl @ ''  - name: mcp_b'' @ nl @ ''    '' @ quoted_x @ nl"

definition yaml_b :: string where
  "yaml_b = nl @ ''mcp_servers:'' @ nl @ ''  - '' @ quoted_x @ nl @ ''    name: mcp_b'' @ nl @ ''tools:'' @ nl @
     ''  - name: alpha'' @ nl @ ''    kind: local'' @ nl @ ''  - name: zeta'' @ nl @ ''    kind: local'' @ nl @
     ''name: demo'' @ nl"

definition artifact_capability_sbom_is_sorted :: "('m, 'n, 'k) ext \<Rightarrow> (string \<Rightarrow> string + 'm) \<Rightarrow> bool" where
  "artifact_capability_sbom_is_sorted X from_yaml \<longleftrightarrow>
     unwrap_then (from_yaml sbom_yaml) (\<lambda>manifest.
     capability_sbom X (artifact_new manifest) = [''mcp:mcp_b'', ''tool:alpha'', ''tool:zeta''])"

definition artifact_canonical_bytes_are_yaml_key_order_independent ::
  "('m, 'n, 'k) ext \<Rightarrow> (string \<Rightarrow> string + 'm) \<Rightarrow> bool" where
  "artifact_canonical_bytes_are_yaml_key_order_independent X from_yaml \<longleftrightarrow>
     unwrap_then (from_yaml yaml_a) (\<lambda>a.
     unwrap_then (from_yaml yaml_b) (\<lambda>b.
     unwrap_then (canonical_bytes X (artifact_new a)) (\<lambda>bytes_a.
     unwrap_then (canonical_bytes X (artifact_new b)) (\<lambda>bytes_b. bytes_a = bytes_b))))"


section \<open>Policy gate\<close>

definition parent_with_scope ::
  "(string \<Rightarrow> string + 'm) \<Rightarrow> allowed_scope \<Rightarrow> string list \<Rightarrow> string + ('m, 'n) agent_node" where
  "parent_with_scope from_yaml scope sbom =
     res_bind (from_yaml (yaml_text ''root'' [])) (\<lambda>manifest. Inr
       \<lparr>n_agent_id = ''root'', n_parent_id = None, n_generation = 0,
        n_created_at = ''2026-05-11T00:00:00Z'', n_mutation_intent = intent_new ''genesis'',
        n_capability_sbom = sbom, n_eval_results = None, n_mutation_diff = [], n_allowed_scope = scope,
        n_artifact = artifact_new manifest, n_signer_public_key = [], n_signature = [],
        n_status = Promoted, n_parent_agent_success = True, n_valid_parent = True, n_eval_stage = None\<rparr>)"

definition unchanged_sbom_is_approved :: "('m, 'n, 'k) ext \<Rightarrow> (string \<Rightarrow> string + 'm) \<Rightarrow> bool" where
  "unchanged_sbom_is_approved X from_yaml \<longleftrightarrow>
     unwrap_then (parent_with_scope from_yaml scope_default [''tool:a'']) (\<lambda>parent.
     default_evaluate X parent (intent_new ''x'') [''tool:a''] = Inr Approve)"

definition out_of_scope_tool_requires_approval :: "('m, 'n, 'k) ext \<Rightarrow> (string \<Rightarrow> string + 'm) \<Rightarrow> bool" where
  "out_of_scope_tool_requires_approval X from_yaml \<longleftrightarrow>
     unwrap_then (parent_with_scope from_yaml (scope_default\<lparr>sc_allowed_tools := [''a'']\<rparr>) [''tool:a''])
       (\<lambda>parent.
     case default_evaluate X parent (intent_new ''x'') [''tool:a'', ''tool:b''] of
       Inr (RequireApproval _) \<Rightarrow> True | _ \<Rightarrow> False)"

definition in_scope_addition_is_approved :: "('m, 'n, 'k) ext \<Rightarrow> (string \<Rightarrow> string + 'm) \<Rightarrow> bool" where
  "in_scope_addition_is_approved X from_yaml \<longleftrightarrow>
     unwrap_then (parent_with_scope from_yaml (scope_default\<lparr>sc_allowed_tools := [''a'', ''b'']\<rparr>) [''tool:a''])
       (\<lambda>parent.
     default_evaluate X parent (intent_new ''x'') [''tool:a'', ''tool:b''] = Inr Approve)"

definition generation_cap_denies :: "('m, 'n, 'k) ext \<Rightarrow> (string \<Rightarrow> string + 'm) \<Rightarrow> bool" where
  "generation_cap_denies X from_yaml \<longleftrightarrow>
     unwrap_then (parent_with_scope from_yaml (scope_default\<lparr>sc_max_generation := Some 0\<rparr>) []) (\<lambda>parent.
     case default_evaluate X parent (intent_new ''x'') [] of Inr (Deny _) \<Rightarrow> True | _ \<Rightarrow> False)"


section \<open>Identity\<close>

text \<open>The manifest text of these tests starts with an empty line; \<open>rename\<close> assigns \<open>manifest.name\<close>.\<close>

definition fresh_artifact :: "(string \<Rightarrow> string + 'm) \<Rightarrow> string + 'm agent_artifact" where
  "fresh_artifact from_yaml =
     res_bind (from_yaml (nl @ yaml_text ''root'' [])) (\<lambda>manifest. Inr (artifact_new manifest))"

definition test_inputs :: "'m agent_artifact \<Rightarrow> ('m, 'n) commit_inputs" where
  "test_inputs artifact =
     \<lparr>ci_parent_id = None, ci_generation = 0, ci_created_at = ''2026-05-11T00:00:00Z'',
      ci_mutation_intent = intent_new ''genesis'', ci_mutation_diff = [], ci_allowed_scope = scope_default,
      ci_eval_results = None, ci_artifact = artifact, ci_status = Promoted,
      ci_parent_agent_success = True, ci_valid_parent = True, ci_eval_stage = None\<rparr>"

definition sign_then_verify_round_trip :: "('m, 'n, 'k) ext \<Rightarrow> (string \<Rightarrow> string + 'm) \<Rightarrow> 'k \<Rightarrow> bool" where
  "sign_then_verify_round_trip X from_yaml key \<longleftrightarrow>
     unwrap_then (fresh_artifact from_yaml) (\<lambda>artifact.
     unwrap_then (sign_node X (test_inputs artifact) key) (\<lambda>node.
     unwrap_then (verify_node X node) (\<lambda>_. True)))"

definition tampering_with_artifact_fails_verification ::
  "('m, 'n, 'k) ext \<Rightarrow> (string \<Rightarrow> string + 'm) \<Rightarrow> (string \<Rightarrow> 'm \<Rightarrow> 'm) \<Rightarrow> 'k \<Rightarrow> bool" where
  "tampering_with_artifact_fails_verification X from_yaml rename key \<longleftrightarrow>
     unwrap_then (fresh_artifact from_yaml) (\<lambda>artifact.
     unwrap_then (sign_node X (test_inputs artifact) key) (\<lambda>node.
     let node = node\<lparr>n_artifact := (n_artifact node)\<lparr>manifest := rename ''tampered'' (manifest (n_artifact node))\<rparr>\<rparr> in
     case verify_node X node of
       Inl (HashMismatch _ _) \<Rightarrow> True
     | Inl (SignatureInvalid _) \<Rightarrow> True
     | _ \<Rightarrow> False))"


section \<open>Evidence\<close>

text \<open>\<open>recall\<close> and \<open>score\<close> are the JSON values of the two float literals.\<close>

definition approved_bundle_round_trips_through_json :: "('m, 'n, 'k) ext \<Rightarrow> bool" where
  "approved_bundle_round_trips_through_json X \<longleftrightarrow>
     (let recall = json_of_f64 X (F64 0x3FEA8F5C28F5C28F); score = json_of_f64 X (F64 0x3FED1EB851EB851F);
          bundle = with_operator_approval
            (with_context_items
              (with_evaluator_report (bundle_new (Approved ''within_scope''))
                (JObject (j_insert ''recall@10'' recall [])))
              [JObject (j_insert ''score'' score (j_insert ''source'' (JString ''memvid'') []))])
            (operator_approval_new ''alice'' ''ship it'') in
      unwrap_then (bundle_to_value X bundle) (\<lambda>value.
      unwrap_then (bundle_from_value X value) (\<lambda>parsed.
      parsed = bundle \<and> eb_version parsed = evidence_bundle_version)))"

definition policy_decision_maps_to_verdict :: "('m, 'n, 'k) ext \<Rightarrow> bool" where
  "policy_decision_maps_to_verdict (X :: ('m, 'n, 'k) ext) \<longleftrightarrow>
     (let bundle = bundle_new (verdict_of_decision (Deny ''cap_out_of_scope'')) :: 'n evidence_bundle in
      case eb_policy bundle of Denied reason \<Rightarrow> reason = ''cap_out_of_scope'' | _ \<Rightarrow> False) \<and>
     verdict_of_decision (RequireApproval ''scope_widened'') = Requires_Approval ''scope_widened''"

text \<open>\<open>str::contains\<close> is \<open>sublist\<close>; \<open>to_string\<close> prints the bundle's value.\<close>

definition minimal_bundle_omits_empty_fields_from_json :: "('m, 'n, 'k) ext \<Rightarrow> bool" where
  "minimal_bundle_omits_empty_fields_from_json X \<longleftrightarrow>
     (let bundle = bundle_new (Approved ''ok''); json = x_json_text X (bundle_to_json X bundle) in
      \<not> sublist ''evaluator_report'' json \<and> \<not> sublist ''context_items'' json \<and>
      \<not> sublist ''operator_approvals'' json)"


section \<open>What the tests rely on\<close>

text \<open>Objects with the same bindings print alike, whatever the order of insertion.\<close>

lemma same_bindings_canonical:
  assumes "json_text_laws X" and "wf_json (JObject m)" and "wf_json (JObject m')" and "set m = set m'"
  shows "canonical_json X (JObject m) = canonical_json X (JObject m')"
proof -
  have "map_of m = map_of m'"
    using assms(2-4) map_of_inject_set [of m m'] by simp
  moreover have "json_eq v v" if "map_of m' k = Some v" for k v
    using that assms(3) by (intro json_eq_refl) (auto dest!: map_of_SomeD)
  ultimately have "rel_option json_eq (map_of m k) (map_of m' k)" for k
    by (cases "map_of m' k") auto
  then show ?thesis
    using canonical_json_eq_iff [OF assms(1-3)] json_eq.eq_object by blast
qed

definition rotated_map :: "('m, 'n, 'k) ext \<Rightarrow> nat \<Rightarrow> (string \<times> 'n json) list" where
  "rotated_map X shift = map (\<lambda>(k, v). (k, json_int X v)) (rotate shift test_bindings)"

lemma test_bindings_facts:
  "length test_bindings = 5" "[0..<5] = [0, 1, 2, 3, 4 :: nat]"
  "test_bindings ! 0 = (''alpha'', 1)" "test_bindings ! Suc 0 = (''beta'', 2)" "test_bindings ! 2 = (''gamma'', 3)"
  "test_bindings ! 3 = (''delta'', 4)" "test_bindings ! 4 = (''epsilon'', 5)"
  by (simp_all add: test_bindings_def) (simp add: upt_rec_numeral numeral_eq_Suc)

lemma rotated_value_eq:
  assumes "shift \<in> {0, 1, 2, 3, 4}"
  shows "rotated_value X shift = JObject [(''outer'', JObject (rotated_map X shift)),
     (''list'', JArray [json_int X 3, json_int X 1, json_int X 2])]"
proof -
  have rot: "rotate 2 xs = rotate1 (rotate1 xs)" "rotate 3 xs = rotate1 (rotate1 (rotate1 xs))"
      "rotate 4 xs = rotate1 (rotate1 (rotate1 (rotate1 xs)))" for xs :: "(string \<times> u32) list"
    by (simp_all add: eval_nat_numeral)
  from assms consider "shift = 0" | "shift = 1" | "shift = 2" | "shift = 3" | "shift = 4" by blast
  then show ?thesis
    by cases (simp_all add: rotated_value_def test_bindings_facts j_insert_def Let_def rotated_map_def rot,
      simp_all add: test_bindings_def)
qed

lemma rotated_map_wf: "wf_json (JObject (rotated_map X shift))"
proof -
  have "map fst (rotated_map X shift) = rotate shift (map fst test_bindings)"
    by (simp add: rotated_map_def rotate_map comp_def case_prod_unfold)
  then show ?thesis
    by (auto simp: test_bindings_def rotated_map_def)
qed

lemma rotated_canonical:
  assumes "json_text_laws X" and "shift \<in> {0, 1, 2, 3, 4}"
  shows "canonical_json X (rotated_value X shift) = canonical_json X (rotated_value X 0)"
proof -
  let ?v = "\<lambda>s. JObject [(''outer'', JObject (rotated_map X s)),
     (''list'', JArray [json_int X 3, json_int X 1, json_int X 2])]"
  have "set (rotated_map X shift) = set (rotated_map X 0)"
    by (simp add: rotated_map_def)
  then have "canonical_json X (JObject (rotated_map X shift)) = canonical_json X (JObject (rotated_map X 0))"
    by (rule same_bindings_canonical [OF assms(1) rotated_map_wf rotated_map_wf])
  then have "json_eq (JObject (rotated_map X shift)) (JObject (rotated_map X 0))"
    by (simp only: canonical_json_eq_iff [OF assms(1) rotated_map_wf rotated_map_wf])
  then have "json_eq (?v shift) (?v 0)"
    by (subst json_eq_same_keys) simp_all
  moreover have "wf_json (?v s)" for s
    using rotated_map_wf [of X s] by simp
  ultimately have "canonical_json X (?v shift) = canonical_json X (?v 0)"
    by (simp only: canonical_json_eq_iff [OF assms(1)])
  then show ?thesis
    using rotated_value_eq [OF assms(2), of X] rotated_value_eq [of 0 X] by simp
qed

lemma insertion_order_test:
  assumes "json_text_laws X"
  shows "canonical_json_is_object_insertion_order_independent X"
proof -
  have "wf_json (rotated_value X 0)"
    using rotated_map_wf [of X 0] rotated_value_eq [of 0 X] by simp
  then obtain r where r: "canonical_json X (rotated_value X 0) = Inr r"
    using canonical_json_render [OF assms] by blast
  have "canonical_json X (rotated_value X s) = Inr r" if "s \<in> {0, 1, 2, 3, 4}" for s
    using rotated_canonical [OF assms that] r by simp
  then show ?thesis
    by (simp add: canonical_json_is_object_insertion_order_independent_def test_bindings_facts)
qed


section \<open>The tests\<close>

lemma sorts_keys_test:
  assumes "json_text_laws X"
  shows "canonical_json_sorts_keys X"
proof -
  let ?a = "JObject [(''b'', json_int X 1), (''a'', json_int X 2)]"
    and ?b = "JObject [(''a'', json_int X 2), (''b'', json_int X 1)]"
  obtain r where a: "canonical_json X ?a = Inr r"
    using canonical_json_render [OF assms, of ?a] by auto
  have "canonical_json X ?a = canonical_json X ?b"
    by (rule same_bindings_canonical [OF assms]) auto
  then have b: "canonical_json X ?b = Inr r" using a by simp
  show ?thesis
    by (simp add: canonical_json_sorts_keys_def j_insert_def a b)
qed

text \<open>The texts of the literals the tests print, and the compact form of \<open>serde_json::to_string\<close>.\<close>

definition plain_literals :: "('m, 'n, 'k) ext \<Rightarrow> bool" where
  "plain_literals X \<longleftrightarrow>
     list_all (\<lambda>s. x_str_text X s = Inr ([CHR 0x22] @ s @ [CHR 0x22]))
       [''k'', ''version'', ''policy'', ''outcome'', ''approved'', ''reason'', ''ok''] \<and>
     x_num_text X (x_num_of_u32 X 1) = ''1'' \<and> x_num_text X (x_num_of_u32 X 2) = ''2'' \<and>
     x_num_text X (x_num_of_u32 X 3) = ''3''"

definition compact_text :: "('m, 'n, 'k) ext \<Rightarrow> bool" where
  "compact_text X \<longleftrightarrow> (\<forall>v. x_json_text X v = render X v)"

lemma no_whitespace_test:
  assumes "plain_literals X"
  shows "canonical_json_no_whitespace X"
  using assms by (simp add: canonical_json_no_whitespace_def plain_literals_def j_insert_def canonical_json_def)

lemma policy_tests:
  fixes X :: "('m, 'n, 'k) ext"
  assumes "from_yaml (yaml_text ''root'' []) = Inr m"
  shows "unchanged_sbom_is_approved X from_yaml" and "out_of_scope_tool_requires_approval X from_yaml"
    and "in_scope_addition_is_approved X from_yaml" and "generation_cap_denies X from_yaml"
proof -
  note [simp] = parent_with_scope_def assms depth_overflows_def depth_exceeded_def widens_def gated_def
    scope_default_def scope_capabilities_def
  show "unchanged_sbom_is_approved X from_yaml"
    by (simp add: unchanged_sbom_is_approved_def default_evaluate_Approve_iff)
  show "in_scope_addition_is_approved X from_yaml"
    by (simp add: in_scope_addition_is_approved_def default_evaluate_Approve_iff)
  obtain p :: "('m, 'n) agent_node" where p: "parent_with_scope from_yaml (scope_default\<lparr>sc_allowed_tools := [''a'']\<rparr>) [''tool:a''] = Inr p"
    by simp
  then have "\<exists>r. default_evaluate X p (intent_new ''x'') [''tool:a'', ''tool:b''] = Inr (RequireApproval r)"
    by (intro default_evaluate_cases(3)) auto
  then show "out_of_scope_tool_requires_approval X from_yaml"
    unfolding out_of_scope_tool_requires_approval_def p by auto
  obtain q :: "('m, 'n) agent_node" where q: "parent_with_scope from_yaml (scope_default\<lparr>sc_max_generation := Some 0\<rparr>) [] = Inr q"
    by simp
  then have "\<exists>r. default_evaluate X q (intent_new ''x'') [] = Inr (Deny r)"
    by (intro default_evaluate_cases(2)) (auto simp: word_less_nat_alt)
  then show "generation_cap_denies X from_yaml"
    unfolding generation_cap_denies_def q by auto
qed

lemma sbom_test:
  assumes "from_yaml sbom_yaml = Inr m" and "x_tools X m = [Local_Tool ''zeta'', Local_Tool ''alpha'']"
    and "x_mcp_names X m = [''mcp_b'']" and "x_delegate_names X m = []"
  shows "artifact_capability_sbom_is_sorted X from_yaml"
  using assms
  by (simp add: artifact_capability_sbom_is_sorted_def capability_sbom_def artifact_new_def tool_capability_def)

lemma wf_test_inputs: "wf_inputs (test_inputs a)"
  by (simp add: wf_inputs_def test_inputs_def)

lemma sign_test:
  assumes "json_text_laws X" and "manifest_laws X" and "crypto_laws X"
    and "from_yaml (nl @ yaml_text ''root'' []) = Inr m"
  shows "sign_then_verify_round_trip X from_yaml key"
proof -
  obtain n where n: "sign_node X (test_inputs (artifact_new m)) key = Inr n"
    by (rule sign_node_total [OF assms(1,2) wf_test_inputs])
  then show ?thesis
    using sign_node_verifies [OF assms(3) n] assms(4)
    by (simp add: sign_then_verify_round_trip_def fresh_artifact_def)
qed

lemma bundle_test:
  assumes "json_num_laws X"
  shows "approved_bundle_round_trips_through_json X"
proof -
  have "unwrap_then (bundle_to_value X b) (\<lambda>value. unwrap_then (bundle_from_value X value) (\<lambda>parsed.
      parsed = b \<and> eb_version parsed = evidence_bundle_version))"
    if "eb_evaluator_report b = Some (JObject m)" "eb_version b = evidence_bundle_version" for b m
    using bundle_round_trip [OF assms, of b] that by (simp add: bundle_to_value_def drop_null_def)
  then show ?thesis
    by (simp add: approved_bundle_round_trips_through_json_def Let_def with_operator_approval_def
        with_context_items_def with_evaluator_report_def bundle_new_def)
qed

lemma verdict_test: "policy_decision_maps_to_verdict X"
  by (simp add: policy_decision_maps_to_verdict_def bundle_new_def verdict_of_decision_def)

lemma minimal_bundle_text:
  assumes "compact_text X" and "plain_literals X"
  shows "x_json_text X (bundle_to_json X (bundle_new (Approved ''ok''))) =
     ''{'' @ [CHR 0x22] @ ''version'' @ [CHR 0x22] @ '':1,'' @ [CHR 0x22] @ ''policy'' @ [CHR 0x22] @ '':{'' @
     [CHR 0x22] @ ''outcome'' @ [CHR 0x22] @ '':'' @ [CHR 0x22] @ ''approved'' @ [CHR 0x22] @ '','' @
     [CHR 0x22] @ ''reason'' @ [CHR 0x22] @ '':'' @ [CHR 0x22] @ ''ok'' @ [CHR 0x22] @ ''}}''"
  using assms
  by (simp add: compact_text_def plain_literals_def bundle_to_json_def bundle_new_def verdict_to_json_def
      evidence_bundle_version_def json_of_u32_def str_lit_def)

lemma minimal_bundle_test:
  assumes "compact_text X" and "plain_literals X"
  shows "minimal_bundle_omits_empty_fields_from_json X"
  by (simp add: minimal_bundle_omits_empty_fields_from_json_def minimal_bundle_text [OF assms] sublist_Cons_right)

text \<open>The tampered content signs a different message; with a different digest it is found out.\<close>

definition tamper_collision :: "('m, 'n, 'k) ext \<Rightarrow> 'k \<Rightarrow> 'm agent_artifact \<Rightarrow> 'm agent_artifact \<Rightarrow> bool" where
  "tamper_collision X key a a' \<longleftrightarrow> (\<exists>p p'. signing_payload X (test_inputs a) = Inr p \<and>
     signing_payload X (test_inputs a') = Inr p' \<and>
     x_sha256 X (p @ x_sign X key p) = x_sha256 X (p' @ x_sign X key p))"

lemma tampering_test:
  assumes "json_text_laws X" and "json_num_laws X" and "manifest_laws X" and "crypto_laws X"
    and "from_yaml (nl @ yaml_text ''root'' []) = Inr m"
    and "\<not> tamper_collision X key (artifact_new m) (artifact_new (rename ''tampered'' m))"
  shows "tampering_with_artifact_fails_verification X from_yaml rename key"
proof -
  let ?a = "artifact_new m" and ?a' = "artifact_new (rename ''tampered'' m)"
  obtain n where n: "sign_node X (test_inputs ?a) key = Inr n"
    by (rule sign_node_total [OF assms(1,3) wf_test_inputs])
  define n' where "n' = n\<lparr>n_artifact := (n_artifact n)\<lparr>manifest := rename ''tampered'' (manifest (n_artifact n))\<rparr>\<rparr>"
  have art: "n_artifact n = ?a"
    using sign_node_simps(2) [OF n] by (simp add: test_inputs_def)
  have inputs: "inputs_of_node n' = test_inputs ?a'"
    using sign_node_simps(15) [OF n] art
    by (simp add: n'_def inputs_of_node_def test_inputs_def artifact_new_def)
  obtain p where p: "signing_payload X (test_inputs ?a) = Inr p"
      "n_agent_id n = compute_agent_id X p (x_sign X key p)"
    using n by (rule sign_node_payload)
  have sig: "n_signature n' = x_hex_encode X (x_sign X key p)" and i': "n_agent_id n' = n_agent_id n"
    using n p(1) by (auto simp: sign_node_def Let_def n'_def)
  obtain p' where p': "signing_payload X (inputs_of_node n') = Inr p'"
    using signing_payload_total [OF assms(1,3) wf_test_inputs [of ?a']] inputs by auto
  have "compute_agent_id X p' (x_sign X key p) \<noteq> n_agent_id n'"
    using assms(6) p p' inputs i'
    by (auto simp: tamper_collision_def compute_agent_id_def hex_encode_inject [OF assms(4)])
  moreover have "x_hex_decode X (n_signature n') = Inr (x_sign X key p)" "length (x_sign X key p) = 64"
    using assms(4) sig by (simp_all add: crypto_laws_def)
  ultimately have "verify_node X n' = Inl (HashMismatch (n_agent_id n') (compute_agent_id X p' (x_sign X key p)))"
    by (simp add: verify_node_def p' exactly_def Let_def)
  then show ?thesis
    using assms(5) n
    by (simp add: tampering_with_artifact_fails_verification_def fresh_artifact_def flip: n'_def)
qed

lemma key_order_test:
  assumes "json_text_laws X" and "from_yaml yaml_a = Inr m" and "from_yaml yaml_b = Inr m'"
    and "x_man_to_json X m = Inr j" and "x_man_to_json X m' = Inr j'" and "wf_json j" and "wf_json j'" and "json_eq j j'"
  shows "artifact_canonical_bytes_are_yaml_key_order_independent X from_yaml"
proof -
  have a: "canonical_json X j = Inr (render X (norm_json j))"
    by (rule canonical_json_render [OF assms(1,6)])
  moreover have "canonical_json X j = canonical_json X j'"
    using canonical_json_eq_iff [OF assms(1,6,7)] assms(8) by simp
  ultimately have "canonical_json X j' = Inr (render X (norm_json j))" by simp
  with a show ?thesis
    using assms(2-5)
    by (simp add: artifact_canonical_bytes_are_yaml_key_order_independent_def canonical_bytes_def artifact_new_def)
qed


section \<open>Property\<close>

text \<open>
  What the tests assume of rig-compose and serde\_json: how four documents read, that the order of keys
  in a YAML mapping does not matter to the manifest's JSON but for the order of entries, and the text
  of a few literals in a compact print.
\<close>

definition test_library :: "('m, 'n, 'k) ext \<Rightarrow> (string \<Rightarrow> string + 'm) \<Rightarrow> 'm \<Rightarrow> bool" where
  "test_library X from_yaml root \<longleftrightarrow> plain_literals X \<and> compact_text X \<and>
     is_ok (from_yaml (yaml_text ''root'' [])) \<and> from_yaml (nl @ yaml_text ''root'' []) = Inr root \<and>
     (\<exists>m. from_yaml sbom_yaml = Inr m \<and> x_tools X m = [Local_Tool ''zeta'', Local_Tool ''alpha''] \<and>
        x_mcp_names X m = [''mcp_b''] \<and> x_delegate_names X m = []) \<and>
     (\<exists>a b j j'. from_yaml yaml_a = Inr a \<and> from_yaml yaml_b = Inr b \<and> x_man_to_json X a = Inr j \<and>
        x_man_to_json X b = Inr j' \<and> wf_json j \<and> wf_json j' \<and> json_eq j j')"

text \<open>
  C40: The crate's unit tests of the canonical writer, the SBOM, the gate, the identities and the
  evidence bundle hold in the model, for every library with the documented behaviour and every key;
  the tampering test unless the tampered message has the digest of the original.
\<close>

theorem unit_tests_pass:
  assumes "json_text_laws X" and "json_num_laws X" and "manifest_laws X" and "crypto_laws X"
    and "test_library X from_yaml root"
    and "\<not> tamper_collision X key (artifact_new root) (artifact_new (rename ''tampered'' root))"
  shows "canonical_json_sorts_keys X \<and> canonical_json_no_whitespace X \<and>
     artifact_capability_sbom_is_sorted X from_yaml \<and>
     artifact_canonical_bytes_are_yaml_key_order_independent X from_yaml \<and>
     canonical_json_is_object_insertion_order_independent X \<and>
     unchanged_sbom_is_approved X from_yaml \<and> out_of_scope_tool_requires_approval X from_yaml \<and>
     in_scope_addition_is_approved X from_yaml \<and> generation_cap_denies X from_yaml \<and>
     sign_then_verify_round_trip X from_yaml key \<and>
     tampering_with_artifact_fails_verification X from_yaml rename key \<and>
     approved_bundle_round_trips_through_json X \<and> policy_decision_maps_to_verdict X \<and>
     minimal_bundle_omits_empty_fields_from_json X"
proof -
  note lib = assms(5) [unfolded test_library_def]
  obtain m where "from_yaml (yaml_text ''root'' []) = Inr m"
    using lib by (auto simp: is_ok_iff)
  note policy = policy_tests [of from_yaml m X, OF this]
  have "artifact_capability_sbom_is_sorted X from_yaml"
    using lib sbom_test [of from_yaml _ X] by blast
  moreover have "artifact_canonical_bytes_are_yaml_key_order_independent X from_yaml"
    using lib key_order_test [OF assms(1), of from_yaml] by blast
  moreover have "from_yaml (nl @ yaml_text ''root'' []) = Inr root" "plain_literals X" "compact_text X"
    using lib by blast+
  ultimately show ?thesis
    using policy sorts_keys_test [OF assms(1)] no_whitespace_test insertion_order_test [OF assms(1)]
      sign_test [OF assms(1,3,4)] tampering_test [where rename = rename and m = root, OF assms(1-4) _ assms(6)] bundle_test [OF assms(2)] verdict_test
      minimal_bundle_test
    by (intro conjI) blast+
qed

text \<open>A library that reads exactly the documents of the tests.\<close>

definition demo_test_yaml :: "string \<Rightarrow> string + demo_manifest" where
  "demo_test_yaml doc =
     (let man = (\<lambda>name tools mcp. \<lparr>dm_name = name, dm_tools = tools, dm_mcp = mcp, dm_delegates = []\<rparr>) in
      if doc = sbom_yaml then Inr (man ''demo'' [''zeta'', ''alpha''] [''mcp_b''])
      else if doc = yaml_a \<or> doc = yaml_b then Inr (man ''demo'' [''alpha'', ''zeta''] [''mcp_b''])
      else Inr (man ''root'' [] []))"

abbreviation demo_root_man :: demo_manifest where
  "demo_root_man \<equiv> \<lparr>dm_name = ''root'', dm_tools = [], dm_mcp = [], dm_delegates = []\<rparr>"

lemma demo_documents:
  "demo_test_yaml sbom_yaml = Inr \<lparr>dm_name = ''demo'', dm_tools = [''zeta'', ''alpha''], dm_mcp = [''mcp_b''], dm_delegates = []\<rparr>"
  "demo_test_yaml yaml_a = Inr \<lparr>dm_name = ''demo'', dm_tools = [''alpha'', ''zeta''], dm_mcp = [''mcp_b''], dm_delegates = []\<rparr>"
  "demo_test_yaml yaml_b = demo_test_yaml yaml_a"
  "demo_test_yaml (yaml_text ''root'' []) = Inr demo_root_man"
  "demo_test_yaml (nl @ yaml_text ''root'' []) = Inr demo_root_man"
  by (simp_all add: demo_test_yaml_def sbom_yaml_def yaml_a_def yaml_b_def yaml_text_def quoted_x_def)

text \<open>The sample library with the compact print.\<close>

definition compact_ext :: "bool \<Rightarrow> (demo_manifest, demo_num, char) ext" where
  "compact_ext b = (demo_ext b)\<lparr>x_json_text := render (demo_ext b)\<rparr>"

lemma render_ignores_text: "render (X\<lparr>x_json_text := t\<rparr>) v = render X v"
  by (induction v) (auto simp: str_lit_def intro!: arg_cong [where f = "join _"] map_cong)

lemma compact_ext_simps [simp]:
  "x_str_text (compact_ext b) = x_str_text (demo_ext b)" "x_num_text (compact_ext b) = x_num_text (demo_ext b)"
  "x_num_of_u32 (compact_ext b) = x_num_of_u32 (demo_ext b)" "x_tools (compact_ext b) = x_tools (demo_ext b)"
  "x_mcp_names (compact_ext b) = x_mcp_names (demo_ext b)"
  "x_delegate_names (compact_ext b) = x_delegate_names (demo_ext b)"
  "x_man_to_json (compact_ext b) = x_man_to_json (demo_ext b)" "x_sha256 (compact_ext b) = x_sha256 (demo_ext b)"
  by (simp_all add: compact_ext_def del: demo_ext_simps)

lemma laws_ignore_text:
  "json_text_laws (X\<lparr>x_json_text := t\<rparr>) = json_text_laws X"
  "json_num_laws (X\<lparr>x_json_text := t\<rparr>) = json_num_laws X"
  "manifest_laws (X\<lparr>x_json_text := t\<rparr>) = manifest_laws X"
  "crypto_laws (X\<lparr>x_json_text := t\<rparr>) = crypto_laws X"
  by (simp_all add: json_text_laws_def json_num_laws_def manifest_laws_def crypto_laws_def)

lemma compact_ext_laws:
  "json_text_laws (compact_ext b)" "json_num_laws (compact_ext b)" "manifest_laws (compact_ext b)"
  "crypto_laws (compact_ext b)"
  unfolding compact_ext_def laws_ignore_text
  by (rule demo_json_text_laws demo_json_num_laws demo_manifest_laws demo_crypto_laws)+

lemma demo_plain_literals: "plain_literals (compact_ext b)"
  by (simp add: plain_literals_def demo_str_text_def esc_def show_nat.simps digit_char_def)

lemma compact_ext_text: "compact_text (compact_ext b)"
  by (simp add: compact_text_def compact_ext_def render_ignores_text)

lemma demo_test_library: "test_library (compact_ext b) demo_test_yaml demo_root_man"
proof -
  obtain j where "x_man_to_json (compact_ext b)
      \<lparr>dm_name = ''demo'', dm_tools = [''alpha'', ''zeta''], dm_mcp = [''mcp_b''], dm_delegates = []\<rparr> = Inr j" "wf_json j"
    using compact_ext_laws(3) [of b] unfolding manifest_laws_def by blast
  moreover from this(2) have "json_eq j j" by (rule json_eq_refl)
  ultimately show ?thesis
    unfolding test_library_def demo_documents by (auto simp: demo_plain_literals compact_ext_text)
qed

lemma demo_tamper:
  "\<not> tamper_collision (compact_ext b) key (artifact_new demo_root_man) (artifact_new (demo_root_man\<lparr>dm_name := ''tampered''\<rparr>))"
proof
  let ?X = "compact_ext b" and ?a = "artifact_new demo_root_man"
    and ?b = "artifact_new (demo_root_man\<lparr>dm_name := ''tampered''\<rparr>)"
  assume "tamper_collision ?X key ?a ?b"
  then have "signing_payload ?X (test_inputs ?a) = signing_payload ?X (test_inputs ?b)"
    by (auto simp: tamper_collision_def)
  then have "same_content ?X (test_inputs ?a) (test_inputs ?b)"
    by (simp only: signing_payload_eq_iff [OF compact_ext_laws(1) compact_ext_laws(2) compact_ext_laws(3)
        wf_test_inputs wf_test_inputs])
  then have "rel_sum (=) json_eq (demo_man_to_json demo_root_man :: json_fault + demo_num json)
      (demo_man_to_json (demo_root_man\<lparr>dm_name := ''tampered''\<rparr>))"
    by (simp add: same_content_def test_inputs_def artifact_new_def)
  then have "json_eq (JString ''root'') (JString ''tampered'' :: demo_num json)"
    unfolding demo_man_to_json_def by (fastforce dest: json_eq_get [where k = "''name''"] simp del: json_eq_simps)
  then show False by simp
qed

theorem unit_tests_pass_witness:
  "canonical_json_no_whitespace (compact_ext True) \<and>
   tampering_with_artifact_fails_verification (compact_ext True) demo_test_yaml (\<lambda>s m. m\<lparr>dm_name := s\<rparr>) (CHR ''k'')"
  using unit_tests_pass [OF compact_ext_laws(1) compact_ext_laws(2) compact_ext_laws(3) compact_ext_laws(4)
      demo_test_library, of True "CHR ''k''" "\<lambda>s m. m\<lparr>dm_name := s\<rparr>"] demo_tamper [of True "CHR ''k''"]
  by simp

end
