(* ===== verification/Spec2Isabelle.thy ===== *)
theory Spec2Isabelle
  imports Veh_Ensemble Veh_Evidence Veh_Evolution Veh_Jsonl Veh_Dot Veh_Rag Veh_Limits
    Veh_Typing Veh_Atomicity Veh_Restart Veh_Governance Veh_Parallel Veh_Waitfree Veh_Examples Veh_Tests
begin

text \<open>
  A verification development for rig-veh, a library that evolves agents under governance: every version
  of an agent is a signed node in an append-only lineage, and a candidate becomes the new head only
  when an evaluator scores it above its parent and a policy gate accepts the capabilities it adds.

  \<^bold>\<open>The program and its parts.\<close> A host builds a runner (\<^verbatim>\<open>src/graph.rs\<close>, \<open>Veh\<close>) from a ledger, an
  evaluator, a policy gate and a signing key. \<open>run_cycle\<close> diffs the candidate against the parent,
  evaluates it, applies the strict improvement rule and the gate, and either commits a promoted node, or
  commits a rejected one, or hands back a pending approval that \<open>resume_with_approval\<close> commits later
  under another key. \<open>rollback_to\<close> and \<open>commit_rollback\<close> return to a promoted ancestor. The evolution
  driver (\<^verbatim>\<open>src/evolution.rs\<close>) closes the loop: a strategy selects a parent from the ledger, a mutator
  proposes a candidate, a sandbox accepts it, the runner cycles it.

  \<^bold>\<open>Which theory models what.\<close>
  \<^item> \<open>Veh_Prelude\<close>: \<^verbatim>\<open>src/error.rs\<close>; the result monad behind \<open>?\<close>; operations on a shared state, which
    return a result and the state they leave, also when they fail; decimal printing; list lemmas.
  \<^item> \<open>Veh_F64\<close>: the IEEE binary64 floats of the scores as 64-bit words: comparison, rounding addition,
    multiplication and division, conversion from integers.
  \<^item> \<open>Veh_External\<close>: the boundary. The record \<open>ext\<close> holds the third-party functions the crate calls
    (serde_json, rig-compose, sha2, ed25519-dalek, hex, similar) and the overflow checks of the build
    profile. The predicates \<open>json_text_laws\<close>, \<open>json_num_laws\<close>, \<open>manifest_laws\<close> and \<open>crypto_laws\<close> state the
    documented behaviour that theorems rely on. \<open>Veh_Demo\<close> is an executable instance of all of it, used
    by the witnesses only.
  \<^item> \<open>Veh_Serde\<close>: what derived \<open>Serialize\<close> and \<open>Deserialize\<close> accept and produce. \<open>Veh_Text\<close>: UTF-8,
    blank lines and line splitting of the standard library.
  \<^item> \<open>Veh_Artifact\<close>: \<^verbatim>\<open>src/artifact.rs\<close>, canonical JSON and the capability SBOM. \<open>Veh_Intent\<close>:
    \<^verbatim>\<open>src/intent.rs\<close>. \<open>Veh_Evaluator\<close>: \<^verbatim>\<open>src/evaluator.rs\<close>. \<open>Veh_Node\<close>: \<^verbatim>\<open>src/node.rs\<close> and
    \<^verbatim>\<open>src/diff.rs\<close>. \<open>Veh_Identity\<close>: \<^verbatim>\<open>src/identity.rs\<close>. \<open>Veh_Policy\<close>: \<^verbatim>\<open>src/policy.rs\<close>.
  \<^item> \<open>Veh_Ledger\<close>: the store trait and the in-memory store of \<^verbatim>\<open>src/ledger.rs\<close>. \<open>Veh_Jsonl\<close>: the JSONL
    file store, with the bytes of its file and failing opens and writes. \<open>Veh_Dot\<close>: \<open>export_dot\<close>.
  \<^item> \<open>Veh_Graph\<close>: the runner, one definition per method. \<open>Veh_Lifecycle\<close>: the runner as a state machine
    whose events are calls of its methods. \<open>Veh_Typing\<close>: every JSON value it records or exports has
    distinct keys, as the Rust type promises. \<open>Veh_Limits\<close>: a host outside the discipline.
  \<^item> \<open>Veh_Tasks\<close>: the runner's methods cut at their \<open>.await\<close>s on the ledger, proved equal to those of
    \<open>Veh_Graph\<close> when run alone. \<open>Veh_Concurrent\<close>: any number of calls interleaved access by access on one
    ledger, with what each task relies on and guarantees. \<open>Veh_Atomicity\<close>: the properties.
    \<open>Veh_Parallel\<close>: the same for the generations of any number of drivers, on one ledger and one sandbox.
    \<open>Veh_Waitfree\<close>: how many accesses a call has left, and what it leaves behind when it is dropped.
  \<^item> \<open>Veh_Selector\<close>, \<open>Veh_Ensemble\<close>: \<^verbatim>\<open>src/selector.rs\<close>, \<^verbatim>\<open>src/ensemble.rs\<close>. \<open>Veh_Evolution\<close>:
    \<^verbatim>\<open>src/mutator.rs\<close>, \<^verbatim>\<open>src/sandbox.rs\<close>, \<^verbatim>\<open>src/evolution.rs\<close>. \<open>Veh_Rag\<close>: \<^verbatim>\<open>src/rag_evaluator.rs\<close>.
    \<open>Veh_Evidence\<close>: \<^verbatim>\<open>src/evidence.rs\<close>.
  \<^item> \<open>Veh_Restart\<close>: the driver over the file ledger, across a restart of the process. \<open>Veh_Governance\<close>:
    a whole evolution from one root, under one scope and under a scope its caller changes.
  \<^item> \<open>Veh_Examples\<close>: the three \<open>main\<close> functions of \<^verbatim>\<open>examples\<close>, with the manifest parser and the generated
    keys as arguments. \<open>Veh_Tests\<close>: the unit tests inside the modules, as predicates.

  A trait object is the record of its methods. Strings and byte vectors are lists of bytes, \<open>u32\<close>, \<open>u64\<close>
  and nanoseconds are words of their width, \<open>usize\<close> has 64 bits. The methods are asynchronous in the
  source. A store operation takes its lock once and awaits nothing under it, so it is one atomic step;
  a method of the runner makes up to four of them, which \<open>Veh_Graph\<close> runs without interruption and
  \<open>Veh_Concurrent\<close> interleaves with those of other calls; likewise \<open>Veh_Evolution\<close> and \<open>Veh_Parallel\<close>
  for the accesses of a generation.

  \<^bold>\<open>Interfaces.\<close> \<open>lineage_contract\<close> is what runner, strategies and driver expect of a store, stated over
  the list of nodes in insertion order and a head; both stores are shown to meet it. \<open>scope_gate\<close> is what
  containment needs of a policy gate; the default gate meets it. \<open>parent_selector\<close> and
  \<open>ensemble_contract\<close> are the promises of the selection strategies, met by all of them;
  \<open>valid_picker\<close> is the part of it that a strategy of a caller's own must keep, and \<open>evolution_store\<close> joins
  a store with such a strategy for the driver. \<open>restart_selector\<close> is the further
  promise that a selection depends only on what the file keeps of a node; the five strategies meet it.

  \<^bold>\<open>What the lemmas show.\<close>
  \<^item> Identity: canonical JSON equals a reference printer over sorted objects and identifies values up to
    the order of keys; the signing payload determines every field of the commit inputs; signing verifies;
    a change of signed content that keeps the id is a collision of the digest; a stored node verifies
    after it is read back. The SBOM that a node records is not protected, and the gate trusts it.
  \<^item> Policy: the default gate decides by its rules in order; its corner cases (bare gated tags, the last
    generation) are stated as they are.
  \<^item> Runner: the effect of every method on every branch, that cycles complete under the laws, that an
    approval commits what a promotion would have, and that failures leave the ledger as it was.
  \<^item> Lifecycle: by rule induction over all sequences of calls, the ledger stays sound, grows at its end
    only, generations measure depth, and capabilities stay within the root's and the scope's for a host
    that follows the discipline. \<open>rejected_parent_launders\<close> shows the discipline is needed.
  \<^item> Concurrency: all of this holds for hosts that call in parallel, by a rely-guarantee argument: a task
    relies on the others only adding nodes and moving the head, and guarantees an effect of its own
    event. Every method but \<open>commit_rollback\<close> is linearizable; \<open>stale_rollback_parent\<close> says why it is not.
    No call waits for another, and each changes the ledger in its last access only, so that a call its
    host drops half-way has changed nothing.
  \<^item> Evolution: every run of the driver is a run of the lifecycle from recorded valid parents; when the
    sandbox is released, and that a generation can lose it to another's teardown; what a failing
    generation may leave behind. The strategies select recorded valid parents; the weighted draw picks the
    first prefix of the weights that reaches the drawn value.
    With the default gate, drivers that evolve in parallel under one scope, by strategies that select
    valid parents only, keep every promoted agent
    within the root's capabilities and that scope, and below its depth cap: the parent a generation has
    read stays recorded and valid until it commits, whatever the others add. A caller that passes a wider scope widens
    both, since no inherited scope is enforced.
  \<^item> Storage: the JSONL store behaves as the in-memory one while the operating system does not fail, and
    its file replays to the same nodes; a torn write poisons the file. A driver that reopens its file
    selects the parent it would have selected without the restart, although the head may differ.
  \<^item> Programs: the examples run to their end under the library laws and print what they are written to
    show; the unit tests pass for every library with the documented behaviour.

  \<^bold>\<open>Bounds and termination.\<close> No definition that models the crate runs on fuel: all recursion is structural
  or on the remaining input. The only fuel is in the sample JSON parser of \<open>Veh_Demo\<close>, whose length of
  input is enough by \<open>demo_value_text\<close>. Overflow of \<open>u32\<close> additions is a panic or wraps, as the build
  profile says. A call in flight has its answer after at most one, two or four accesses of its own, as its
  method has, a generation after five. Child counts are exact below \<open>2 ^ 32\<close> nodes.

  \<^bold>\<open>Not modelled.\<close> Tracing; the poisoning-free locks, and with them interleavings finer than a store operation;
  the text of third-party error messages, which is opaque; \<^verbatim>\<open>src/lib.rs\<close>, which only declares and re-exports; the
  tracing subscriber and the format strings of the examples; the integration tests, which call the
  modelled operations. A custom mutator or evaluator is a function of
  its arguments, which may return an error or panic but always answers. A panic unwinds through a
  method and skips the rest of it; what a task's owner does with it is the host's. The entries of a JSON
  object iterate in order of insertion, as under the feature \<open>preserve_order\<close>. For the JSONL store: other writers of the file, reads that fail half-way, and lines in
  which an object repeats a key.
\<close>

end
